(* ===== verification/Prelude.thy ===== *)
theory Prelude
  imports Main "HOL-Library.Word" "HOL-Library.Sublist" "HOL-Library.Char_ord" "HOL-Library.List_Lexorder"
begin

text \<open>
  Shared vocabulary of the development: identifiers, results with errors as values, the
  Rust string operations the sources call, grouping of key/value pairs into a multimap
  (\<open>HashMap<K, Vec<V>>\<close> filled by \<open>entry(k).or_default().push(v)\<close>), and the generic
  lemmas on them that the component theories rely on.

  Strings are Rust \<open>String\<close>/\<open>&str\<close> values: a \<open>string\<close> here is the list of their
  UTF-8 bytes, so \<open>length\<close> is \<open>str::len\<close> and the ASCII character classes of the
  sources are predicates on bytes.
\<close>

section \<open>Identifiers and results\<close>

type_synonym uuid = "128 word"

type_synonym i32 = int

type_synonym ('e, 'a) result = "'e + 'a"

abbreviation (input) Ok :: "'a \<Rightarrow> ('e, 'a) result" where
  "Ok \<equiv> Inr"

abbreviation (input) Err :: "'e \<Rightarrow> ('e, 'a) result" where
  "Err \<equiv> Inl"

text \<open>The \<open>?\<close> operator: return the error early, go on with the value.\<close>

fun bind_result :: "('e, 'a) result \<Rightarrow> ('a \<Rightarrow> ('e, 'b) result) \<Rightarrow> ('e, 'b) result" where
  "bind_result (Inl e) f = Inl e"
| "bind_result (Inr x) f = f x"

fun map_err :: "('e \<Rightarrow> 'f) \<Rightarrow> ('e, 'a) result \<Rightarrow> ('f, 'a) result" where
  "map_err g (Inl e) = Inl (g e)"
| "map_err g (Inr x) = Inr x"

fun ok_or :: "'a option \<Rightarrow> 'e \<Rightarrow> ('e, 'a) result" where
  "ok_or None e = Inl e"
| "ok_or (Some x) e = Inr x"

fun unwrap_or :: "'a option \<Rightarrow> 'a \<Rightarrow> 'a" where
  "unwrap_or None d = d"
| "unwrap_or (Some x) d = x"

fun result_or :: "('e, 'a) result \<Rightarrow> 'a \<Rightarrow> 'a" where
  "result_or (Inl e) d = d"
| "result_or (Inr x) d = x"

definition is_ok :: "('e, 'a) result \<Rightarrow> bool" where
  "is_ok r = (case r of Inl _ \<Rightarrow> False | Inr _ \<Rightarrow> True)"

text \<open>Collecting an iterator of results into a result of a list stops at the first error.\<close>

fun collect_results :: "('e, 'a) result list \<Rightarrow> ('e, 'a list) result" where
  "collect_results [] = Inr []"
| "collect_results (r # rs) =
     bind_result r (\<lambda>x. bind_result (collect_results rs) (\<lambda>xs. Inr (x # xs)))"

lemma bind_result_Inr [simp]:
  "bind_result m f = Inr y \<longleftrightarrow> (\<exists>x. m = Inr x \<and> f x = Inr y)"
  by (cases m) auto

lemma bind_result_Inl:
  "bind_result m f = Inl e \<longleftrightarrow> m = Inl e \<or> (\<exists>x. m = Inr x \<and> f x = Inl e)"
  by (cases m) auto

lemma ok_or_Inr [simp]: "ok_or o' e = Inr x \<longleftrightarrow> o' = Some x"
  by (cases o') auto

lemma ok_or_Inl: "ok_or o' e = Inl e' \<longleftrightarrow> o' = None \<and> e' = e"
  by (cases o') auto

lemma map_err_Inr [simp]: "map_err g r = Inr x \<longleftrightarrow> r = Inr x"
  by (cases r) auto

lemma map_err_Inl: "map_err g r = Inl e \<longleftrightarrow> (\<exists>d. r = Inl d \<and> e = g d)"
  by (cases r) auto

lemma is_ok_simps [simp]: "is_ok (Inl e) = False" "is_ok (Inr x) = True"
  by (simp_all add: is_ok_def)

lemma unwrap_or_eq: "unwrap_or x d = (case x of None \<Rightarrow> d | Some v \<Rightarrow> v)"
  by (cases x) auto

lemma collect_results_Inr:
  "collect_results rs = Inr xs \<longleftrightarrow> rs = map Inr xs"
proof (induction rs arbitrary: xs)
  case Nil
  then show ?case by auto
next
  case (Cons r rs)
  then show ?case by (cases xs) auto
qed

section \<open>Strings\<close>

definition starts_with :: "string \<Rightarrow> string \<Rightarrow> bool" where
  "starts_with s p = prefix p s"

definition ends_with :: "string \<Rightarrow> string \<Rightarrow> bool" where
  "ends_with s p = suffix p s"

definition strip_prefix_char :: "string \<Rightarrow> char \<Rightarrow> string option" where
  "strip_prefix_char s c = (case s of [] \<Rightarrow> None | x # xs \<Rightarrow> (if x = c then Some xs else None))"

definition strip_suffix_char :: "string \<Rightarrow> char \<Rightarrow> string option" where
  "strip_suffix_char s c = (if s \<noteq> [] \<and> last s = c then Some (butlast s) else None)"

definition strip_prefix_str :: "string \<Rightarrow> string \<Rightarrow> string option" where
  "strip_prefix_str s p = (if starts_with s p then Some (drop (length p) s) else None)"

definition is_ascii_lower :: "char \<Rightarrow> bool" where
  "is_ascii_lower c = (CHR ''a'' \<le> c \<and> c \<le> CHR ''z'')"

definition is_ascii_upper :: "char \<Rightarrow> bool" where
  "is_ascii_upper c = (CHR ''A'' \<le> c \<and> c \<le> CHR ''Z'')"

definition is_ascii_alphabetic :: "char \<Rightarrow> bool" where
  "is_ascii_alphabetic c = (is_ascii_lower c \<or> is_ascii_upper c)"

definition is_ascii_digit :: "char \<Rightarrow> bool" where
  "is_ascii_digit c = (CHR ''0'' \<le> c \<and> c \<le> CHR ''9'')"

definition is_ascii_alphanumeric :: "char \<Rightarrow> bool" where
  "is_ascii_alphanumeric c = (is_ascii_alphabetic c \<or> is_ascii_digit c)"

lemma strip_prefix_char_Some [simp]:
  "strip_prefix_char s c = Some t \<longleftrightarrow> s = c # t"
  by (cases s) (auto simp: strip_prefix_char_def)

lemma strip_prefix_char_None:
  "strip_prefix_char s c = None \<longleftrightarrow> (\<forall>t. s \<noteq> c # t)"
  by (cases s) (auto simp: strip_prefix_char_def)

lemma strip_suffix_char_Some [simp]:
  "strip_suffix_char s c = Some t \<longleftrightarrow> s = t @ [c]"
  by (cases s rule: rev_cases) (auto simp: strip_suffix_char_def)

lemma strip_suffix_char_None:
  "strip_suffix_char s c = None \<longleftrightarrow> (\<forall>t. s \<noteq> t @ [c])"
  by (cases s rule: rev_cases) (auto simp: strip_suffix_char_def)

section \<open>Multimaps built by repeated \<open>entry(k).or_default().push(v)\<close>\<close>

definition push_entry :: "('k \<rightharpoonup> 'v list) \<Rightarrow> 'k \<Rightarrow> 'v \<Rightarrow> ('k \<rightharpoonup> 'v list)" where
  "push_entry m k v = m(k \<mapsto> unwrap_or (m k) [] @ [v])"

fun push_entries :: "('k \<rightharpoonup> 'v list) \<Rightarrow> ('k \<times> 'v) list \<Rightarrow> ('k \<rightharpoonup> 'v list)" where
  "push_entries m [] = m"
| "push_entries m ((k, v) # kvs) = push_entries (push_entry m k v) kvs"

definition group_pairs :: "('k \<times> 'v) list \<Rightarrow> ('k \<rightharpoonup> 'v list)" where
  "group_pairs kvs = push_entries Map.empty kvs"

definition bucket :: "('k \<rightharpoonup> 'v list) \<Rightarrow> 'k \<Rightarrow> 'v list" where
  "bucket m k = unwrap_or (m k) []"

lemma bucket_push_entry:
  "bucket (push_entry m k v) k' = (if k' = k then bucket m k @ [v] else bucket m k')"
  by (simp add: bucket_def push_entry_def)

lemma bucket_push_entries:
  "bucket (push_entries m kvs) k = bucket m k @ map snd (filter (\<lambda>kv. fst kv = k) kvs)"
  by (induction m kvs rule: push_entries.induct) (auto simp: bucket_push_entry)

lemma bucket_group_pairs:
  "bucket (group_pairs kvs) k = map snd (filter (\<lambda>kv. fst kv = k) kvs)"
  by (simp add: group_pairs_def bucket_push_entries) (simp add: bucket_def)

lemma set_bucket_group_pairs [simp]:
  "set (bucket (group_pairs kvs) k) = {v. (k, v) \<in> set kvs}"
  by (force simp: bucket_group_pairs)

section \<open>Lists\<close>

text \<open>\<open>Vec::dedup\<close>: drop consecutive repeats.\<close>

fun dedup :: "'a list \<Rightarrow> 'a list" where
  "dedup [] = []"
| "dedup [x] = [x]"
| "dedup (x # y # zs) = (if x = y then dedup (y # zs) else x # dedup (y # zs))"

lemma set_dedup [simp]: "set (dedup xs) = set xs"
  by (induction xs rule: dedup.induct) auto

text \<open>A map filled by collecting key/value pairs: a later pair overwrites an earlier one.\<close>

definition collect_map :: "('k \<times> 'v) list \<Rightarrow> ('k \<rightharpoonup> 'v)" where
  "collect_map kvs = map_of (rev kvs)"

lemma collect_map_Some_in: "collect_map kvs k = Some v \<Longrightarrow> (k, v) \<in> set kvs"
  by (auto simp: collect_map_def dest: map_of_SomeD)

lemma collect_map_None [simp]: "collect_map kvs k = None \<longleftrightarrow> k \<notin> fst ` set kvs"
  by (simp add: collect_map_def map_of_eq_None_iff)

lemma collect_map_distinct:
  assumes "distinct (map fst kvs)"
  shows "collect_map kvs k = Some v \<longleftrightarrow> (k, v) \<in> set kvs"
proof -
  have "distinct (map fst (rev kvs))"
    using assms by (simp add: rev_map [symmetric])
  from map_of_eq_Some_iff [OF this] show ?thesis
    by (simp add: collect_map_def)
qed

section \<open>JSON values\<close>

text \<open>
  The values of \<open>serde_json::Value\<close>. An integral number is its value; a number with a fraction
  or an exponent is kept as its text, which the sources only test for its kind.
\<close>

datatype json =
    JNull
  | JBool bool
  | JInt int
  | JFloat string
  | JString string
  | JArray "json list"
  | JObject "(string \<times> json) list"

section \<open>Decimal numerals\<close>

fun show_nat :: "nat \<Rightarrow> string" where
  "show_nat n = (if n < 10 then [char_of (48 + n)] else show_nat (n div 10) @ [char_of (48 + n mod 10)])"

declare show_nat.simps [simp del]

lemma show_nat_nonempty [simp]: "show_nat n \<noteq> []"
  by (subst show_nat.simps) simp

lemma show_nat_digits: "c \<in> set (show_nat n) \<Longrightarrow> is_ascii_digit c"
proof (induction n rule: show_nat.induct)
  case (1 n)
  have "is_ascii_digit (char_of (48 + k))" if "k < 10" for k :: nat
    using that by (auto simp: is_ascii_digit_def less_eq_char_def less_char_def)
  with 1 show ?case by (subst (asm) (2) show_nat.simps) (auto split: if_splits)
qed

section \<open>Searching strings\<close>

text \<open>\<open>str::contains\<close> with a string pattern.\<close>

definition str_contains :: "string \<Rightarrow> string \<Rightarrow> bool" where
  "str_contains s p = sublist p s"

lemma str_contains_append [simp]: "str_contains (a @ p @ b) p"
  by (simp add: str_contains_def sublist_appendI)

text \<open>Case conversion, trimming and replacement; only ASCII letters and blanks are affected.\<close>

definition lower_char :: "char \<Rightarrow> char" where
  "lower_char c = (if is_ascii_upper c then char_of (of_char c + 32 :: nat) else c)"

definition upper_char :: "char \<Rightarrow> char" where
  "upper_char c = (if is_ascii_lower c then char_of (of_char c - 32 :: nat) else c)"

definition to_lowercase :: "string \<Rightarrow> string" where
  "to_lowercase s = map lower_char s"

definition to_uppercase :: "string \<Rightarrow> string" where
  "to_uppercase s = map upper_char s"

definition is_blank :: "char \<Rightarrow> bool" where
  "is_blank c \<longleftrightarrow> (let n = (of_char c :: nat) in n = 32 \<or> (9 \<le> n \<and> n \<le> 13))"

definition trim :: "string \<Rightarrow> string" where
  "trim s = rev (dropWhile is_blank (rev (dropWhile is_blank s)))"

function replace_from :: "string \<Rightarrow> string \<Rightarrow> string \<Rightarrow> string" where
  "replace_from pat rep s =
     (if pat = [] \<or> s = [] then s
      else if starts_with s pat then rep @ replace_from pat rep (drop (length pat) s)
      else hd s # replace_from pat rep (tl s))"
  by pat_completeness auto
termination
  by (relation "measure (\<lambda>(pat, rep, s). length s)") auto

declare replace_from.simps [simp del]

definition str_replace :: "string \<Rightarrow> string \<Rightarrow> string \<Rightarrow> string" where
  "str_replace s pat rep = (if pat = [] then rep @ concat (map (\<lambda>c. c # rep) s) else replace_from pat rep s)"

lemma replace_from_absent: "\<not> str_contains s pat \<Longrightarrow> replace_from pat rep s = s"
proof (induction pat rep s rule: replace_from.induct)
  case (1 pat rep s)
  show ?case
  proof (cases "pat = [] \<or> s = []")
    case False
    have "\<not> starts_with s pat"
      using 1(3) by (auto simp: starts_with_def str_contains_def)
    moreover have "\<not> str_contains (tl s) pat"
      using 1(3) False by (cases s) (auto simp: str_contains_def sublist_Cons_right)
    ultimately show ?thesis
      using 1(2) False by (subst replace_from.simps) simp
  qed (subst replace_from.simps, auto)
qed

fun join :: "string \<Rightarrow> string list \<Rightarrow> string" where
  "join sep [] = []"
| "join sep [x] = x"
| "join sep (x # y # ys) = x @ sep @ join sep (y # ys)"

text \<open>Reading a signed 64-bit decimal: an optional sign, then at least one digit, within range.\<close>

fun digits_value :: "string \<Rightarrow> nat \<Rightarrow> nat" where
  "digits_value [] n = n"
| "digits_value (c # cs) n = digits_value cs (10 * n + (of_char c - 48))"

definition parse_i64 :: "string \<Rightarrow> int option" where
  "parse_i64 s =
     (let neg = (case s of [] \<Rightarrow> False | c # _ \<Rightarrow> c = CHR ''-'');
          ds = (case s of [] \<Rightarrow> [] | c # cs \<Rightarrow> if c = CHR ''-'' \<or> c = CHR ''+'' then cs else s);
          n = (if neg then - int (digits_value ds 0) else int (digits_value ds 0))
      in if ds \<noteq> [] \<and> list_all is_ascii_digit ds \<and> - (2 ^ 63) \<le> n \<and> n < 2 ^ 63 then Some n else None)"

lemma parse_i64_bounds: "parse_i64 s = Some n \<Longrightarrow> - (2 ^ 63) \<le> n \<and> n < 2 ^ 63"
  by (auto simp: parse_i64_def Let_def split: if_splits)

text \<open>Reading an unsigned and a signed decimal of a given width.\<close>

definition parse_uint :: "nat \<Rightarrow> string \<Rightarrow> nat option" where
  "parse_uint w s =
     (let ds = (case s of [] \<Rightarrow> [] | c # cs \<Rightarrow> if c = CHR ''+'' then cs else s)
      in if ds \<noteq> [] \<and> list_all is_ascii_digit ds \<and> int (digits_value ds 0) < 2 ^ w then Some (digits_value ds 0) else None)"

definition parse_sint :: "nat \<Rightarrow> string \<Rightarrow> int option" where
  "parse_sint w s =
     (let neg = (case s of [] \<Rightarrow> False | c # _ \<Rightarrow> c = CHR ''-'');
          ds = (case s of [] \<Rightarrow> [] | c # cs \<Rightarrow> if c = CHR ''-'' \<or> c = CHR ''+'' then cs else s);
          n = (if neg then - int (digits_value ds 0) else int (digits_value ds 0))
      in if ds \<noteq> [] \<and> list_all is_ascii_digit ds \<and> - (2 ^ (w - 1)) \<le> n \<and> n < 2 ^ (w - 1) then Some n else None)"

definition show_int :: "int \<Rightarrow> string" where
  "show_int n = (if n < 0 then CHR ''-'' # show_nat (nat (- n)) else show_nat (nat n))"

lemma digits_value_append: "digits_value (xs @ ys) n = digits_value ys (digits_value xs n)"
  by (induction xs arbitrary: n) auto

lemma digits_value_show_nat [simp]: "digits_value (show_nat n) 0 = n"
proof (induction n rule: show_nat.induct)
  case (1 n)
  show ?case
  proof (cases "n < 10")
    case True
    then show ?thesis by (simp add: show_nat.simps)
  next
    case False
    with 1 have "digits_value (show_nat n) 0 = 10 * (n div 10) + n mod 10"
      by (subst show_nat.simps) (simp add: digits_value_append)
    then show ?thesis by simp
  qed
qed

lemma show_nat_Cons:
  obtains c cs where "show_nat n = c # cs" "is_ascii_digit c" "c \<noteq> CHR ''+''" "c \<noteq> CHR ''-''"
    "list_all is_ascii_digit (c # cs)"
proof -
  obtain c cs where cs: "show_nat n = c # cs" by (metis list.exhaust show_nat_nonempty)
  then have "is_ascii_digit c" using show_nat_digits [of c n] by simp
  moreover have "list_all is_ascii_digit (c # cs)" unfolding cs [symmetric] by (simp add: list_all_iff show_nat_digits)
  ultimately show thesis using cs by (intro that [of c cs]) (auto simp: is_ascii_digit_def)
qed

lemma parse_uint_show_nat:
  assumes "n < 2 ^ w"
  shows "parse_uint w (show_nat n) = Some n"
proof -
  obtain c cs where "show_nat n = c # cs" "c \<noteq> CHR ''+''" "list_all is_ascii_digit (c # cs)"
    by (rule show_nat_Cons [of n])
  moreover have "int n < 2 ^ w" using assms by (metis of_nat_less_iff of_nat_numeral of_nat_power)
  ultimately show ?thesis using digits_value_show_nat [of n] by (simp add: parse_uint_def)
qed

lemma parse_sint_show_int:
  assumes "- (2 ^ (w - 1)) \<le> n" "n < 2 ^ (w - 1)"
  shows "parse_sint w (show_int n) = Some n"
proof (cases "n < 0")
  case True
  obtain c cs where "show_nat (nat (- n)) = c # cs" "list_all is_ascii_digit (c # cs)"
    by (rule show_nat_Cons [of "nat (- n)"])
  with True assms digits_value_show_nat [of "nat (- n)"] show ?thesis by (simp add: parse_sint_def show_int_def)
next
  case False
  obtain c cs where "show_nat (nat n) = c # cs" "c \<noteq> CHR ''+''" "c \<noteq> CHR ''-''" "list_all is_ascii_digit (c # cs)"
    by (rule show_nat_Cons [of "nat n"])
  with False assms digits_value_show_nat [of "nat n"] show ?thesis by (simp add: parse_sint_def show_int_def)
qed

end
