(* ===== verification/PolicyMatch.thy ===== *)
theory PolicyMatch
  imports Prelude
begin

text \<open>
  Model of \<open>proxy/src/policy_match.rs\<close>: the policy types and their string forms, the
  resource targets of a policy, and the glob matching of schemas, tables and columns that the
  query-time hook, the visibility computation and the admin API all share. The lemmas
  characterise the matcher against a declarative reading of the documented pattern language.
\<close>

section \<open>Policy types\<close>

datatype policy_type = RowFilter | ColumnMask | ColumnAllow | ColumnDeny | TableDeny

fun as_str :: "policy_type \<Rightarrow> string" where
  "as_str RowFilter = ''row_filter''"
| "as_str ColumnMask = ''column_mask''"
| "as_str ColumnAllow = ''column_allow''"
| "as_str ColumnDeny = ''column_deny''"
| "as_str TableDeny = ''table_deny''"

fun is_deny :: "policy_type \<Rightarrow> bool" where
  "is_deny ColumnDeny = True"
| "is_deny TableDeny = True"
| "is_deny _ = False"

fun affects_visibility :: "policy_type \<Rightarrow> bool" where
  "affects_visibility ColumnAllow = True"
| "affects_visibility ColumnDeny = True"
| "affects_visibility TableDeny = True"
| "affects_visibility _ = False"

definition from_str :: "string \<Rightarrow> (string, policy_type) result" where
  "from_str s =
     (if s = ''row_filter'' then Inr RowFilter
      else if s = ''column_mask'' then Inr ColumnMask
      else if s = ''column_allow'' then Inr ColumnAllow
      else if s = ''column_deny'' then Inr ColumnDeny
      else if s = ''table_deny'' then Inr TableDeny
      else Inl (''Unknown policy_type: '' @ [CHR 0x27] @ s @ [CHR 0x27]))"

lemma from_str_as_str [simp]: "from_str (as_str p) = Inr p"
  by (cases p) (simp_all add: from_str_def)

lemma from_str_Inr_iff: "from_str s = Inr p \<longleftrightarrow> s = as_str p"
  by (cases p) (auto simp: from_str_def)

lemma deny_affects_visibility: "is_deny p \<Longrightarrow> affects_visibility p"
  by (cases p) auto

section \<open>Pattern matching\<close>

definition matches_pattern :: "string \<Rightarrow> string \<Rightarrow> bool" where
  "matches_pattern pattern value =
     (if pattern = ''*'' then True
      else case strip_suffix_char pattern CHR ''*'' of
        Some pre \<Rightarrow> starts_with value pre
      | None \<Rightarrow>
          (case strip_prefix_char pattern CHR ''*'' of
             Some suf \<Rightarrow> ends_with value suf
           | None \<Rightarrow> pattern = value))"

text \<open>
  The documented pattern language: \<open>*\<close> matches everything, \<open>prefix*\<close> and \<open>*suffix\<close>
  are globs, anything else is literal. A pattern with a star at both ends is read as a prefix
  glob whose prefix begins with a literal star.
\<close>

inductive glob :: "string \<Rightarrow> string \<Rightarrow> bool" where
  glob_any: "glob ''*'' v"
| glob_prefix: "p \<noteq> [] \<Longrightarrow> glob (p @ ''*'') (p @ r)"
| glob_suffix: "s \<noteq> [] \<Longrightarrow> last s \<noteq> CHR ''*'' \<Longrightarrow> glob (CHR ''*'' # s) (r @ s)"
| glob_literal: "(v \<noteq> [] \<Longrightarrow> hd v \<noteq> CHR ''*'' \<and> last v \<noteq> CHR ''*'') \<Longrightarrow> glob v v"

lemma matches_pattern_star [simp]: "matches_pattern ''*'' v"
  by (simp add: matches_pattern_def)

lemma matches_pattern_prefix [simp]: "matches_pattern (p @ ''*'') v \<longleftrightarrow> prefix p v"
  by (auto simp: matches_pattern_def strip_suffix_char_def starts_with_def)

lemma matches_pattern_suffix:
  "s \<noteq> [] \<Longrightarrow> last s \<noteq> CHR ''*'' \<Longrightarrow> matches_pattern (CHR ''*'' # s) v \<longleftrightarrow> suffix s v"
  by (auto simp: matches_pattern_def strip_suffix_char_def strip_prefix_char_def ends_with_def)

lemma matches_pattern_literal:
  assumes "p \<noteq> [] \<Longrightarrow> hd p \<noteq> CHR ''*'' \<and> last p \<noteq> CHR ''*''"
  shows "matches_pattern p v \<longleftrightarrow> p = v"
  using assms by (cases p) (auto simp: matches_pattern_def strip_suffix_char_def strip_prefix_char_def)

lemma glob_matches_pattern: "glob p v \<Longrightarrow> matches_pattern p v"
proof (induction rule: glob.induct)
  case (glob_suffix s r)
  then show ?case by (simp add: matches_pattern_suffix suffix_def)
next
  case (glob_literal v)
  then show ?case by (simp add: matches_pattern_literal)
qed auto

lemma matches_pattern_glob:
  assumes "matches_pattern p v"
  shows "glob p v"
proof (cases p rule: rev_cases)
  case Nil
  with assms have "v = []" by (simp add: matches_pattern_def strip_suffix_char_def strip_prefix_char_def)
  with Nil show ?thesis by (auto intro: glob_literal)
next
  case (snoc q c)
  consider (star) "p = ''*''" | (pre) "c = CHR ''*''" "q \<noteq> []"
    | (suf) s where "c \<noteq> CHR ''*''" "p = CHR ''*'' # s"
    | (lit) "c \<noteq> CHR ''*''" "hd p \<noteq> CHR ''*''"
    using snoc by (cases q) auto
  then show ?thesis
  proof cases
    case star
    then show ?thesis by (simp add: glob_any)
  next
    case pre
    with snoc have p: "p = q @ ''*''" by simp
    with assms obtain r where "v = q @ r" by (auto simp only: matches_pattern_prefix prefix_def)
    with p glob_prefix [OF pre(2)] show ?thesis by simp
  next
    case (suf s)
    with snoc have "last (CHR ''*'' # s) \<noteq> CHR ''*''" by (metis last_snoc)
    then have s: "s \<noteq> []" "last s \<noteq> CHR ''*''" by (auto split: if_splits)
    with assms suf(2) have "suffix s v" by (simp add: matches_pattern_suffix)
    then obtain r where "v = r @ s" by (auto simp: suffix_def)
    with suf(2) glob_suffix [OF s] show ?thesis by simp
  next
    case lit
    with snoc have l: "hd p \<noteq> CHR ''*'' \<and> last p \<noteq> CHR ''*''" by simp
    with assms have "p = v" by (simp add: matches_pattern_literal)
    with l show ?thesis by (simp add: glob_literal)
  qed
qed

lemma matches_pattern_iff_glob: "matches_pattern p v \<longleftrightarrow> glob p v"
  using glob_matches_pattern matches_pattern_glob by blast

definition expand_column_patterns :: "string list \<Rightarrow> string list \<Rightarrow> string set" where
  "expand_column_patterns patterns actual_columns =
     set (filter (\<lambda>col. list_ex (\<lambda>p. matches_pattern p col) patterns) actual_columns)"

lemma expand_column_patterns_iff [simp]:
  "c \<in> expand_column_patterns ps cols \<longleftrightarrow> c \<in> set cols \<and> (\<exists>p \<in> set ps. matches_pattern p c)"
  by (auto simp: expand_column_patterns_def list_ex_iff)

lemma expand_column_patterns_single [simp]:
  "expand_column_patterns ps [c] = {} \<longleftrightarrow> (\<forall>p \<in> set ps. \<not> matches_pattern p c)"
  by (auto simp: expand_column_patterns_def list_ex_iff)

section \<open>Targets\<close>

type_synonym schema_map = "string \<rightharpoonup> string"

record target_entry =
  schemas :: "string list"
  tables :: "string list"
  columns :: "string list option"

definition upstream_name :: "schema_map \<Rightarrow> string \<Rightarrow> string" where
  "upstream_name df_to_upstream df_schema = unwrap_or (df_to_upstream df_schema) df_schema"

definition matches_table :: "target_entry \<Rightarrow> string \<Rightarrow> string \<Rightarrow> schema_map \<Rightarrow> bool" where
  "matches_table e df_schema table df_to_upstream =
     (let upstream = upstream_name df_to_upstream df_schema in
      list_ex (\<lambda>sp. matches_pattern sp upstream) (schemas e) \<and>
      list_ex (\<lambda>tp. matches_pattern tp table) (tables e))"

definition matches_schema_table ::
  "string \<Rightarrow> string \<Rightarrow> string \<Rightarrow> string \<Rightarrow> schema_map \<Rightarrow> bool" where
  "matches_schema_table res_schema res_table df_schema table df_to_upstream =
     (if \<not> matches_pattern res_table table then False
      else matches_pattern res_schema (upstream_name df_to_upstream df_schema))"

definition matches_schema_only :: "string \<Rightarrow> string \<Rightarrow> schema_map \<Rightarrow> bool" where
  "matches_schema_only res_schema df_schema df_to_upstream =
     matches_pattern res_schema (upstream_name df_to_upstream df_schema)"

lemma matches_table_iff:
  "matches_table e s t m \<longleftrightarrow>
     (\<exists>sp \<in> set (schemas e). matches_pattern sp (upstream_name m s)) \<and>
     (\<exists>tp \<in> set (tables e). matches_pattern tp t)"
  by (simp add: matches_table_def list_ex_iff Let_def)

lemma matches_schema_table_split:
  "matches_schema_table rs rt s t m \<longleftrightarrow> matches_schema_only rs s m \<and> matches_pattern rt t"
  by (simp add: matches_schema_table_def matches_schema_only_def)

lemma matches_table_alias_independent:
  "upstream_name m s = upstream_name m' s' \<Longrightarrow> matches_table e s t m = matches_table e s' t m'"
  by (simp add: matches_table_iff)

section \<open>Properties\<close>

text \<open>
  C28. The glob matcher decides exactly this pattern language: \<open>*\<close> matches
  everything, \<open>prefix*\<close> and \<open>*suffix\<close> match by prefix and suffix, and every other
  pattern matches only itself.
\<close>

theorem matches_pattern_spec: "matches_pattern p v \<longleftrightarrow> glob p v"
  by (rule matches_pattern_iff_glob)

text \<open>
  The string form of a policy type round-trips, and parsing accepts no other string: a row
  of the policy table whose type parses carries exactly the canonical name of that type.
\<close>

theorem policy_type_round_trip:
  "from_str (as_str p) = Inr p \<and> (from_str s = Inr p \<longleftrightarrow> s = as_str p)"
  by (simp add: from_str_Inr_iff)

text \<open>
  A target entry covers a table exactly when one of its schema/table pattern pairs does by
  the two-argument matcher, and the alias under which a schema is exposed does not matter: only
  the upstream name behind it does.
\<close>

theorem matches_table_pairs:
  "matches_table e s t m \<longleftrightarrow>
     (\<exists>sp \<in> set (schemas e). \<exists>tp \<in> set (tables e). matches_schema_table sp tp s t m)"
  by (auto simp: matches_table_iff matches_schema_table_split matches_schema_only_def)

end
