(* ===== verification/CatalogEntities.thy ===== *)
theory CatalogEntities
  imports Prelude
begin

text \<open>
  The rows of the admin database that describe data sources and attributes: attribute definitions,
  decision functions, the discovered catalogue of a data source, and the relationships and column
  anchors between its tables. \<open>catalog_db\<close> is these tables and \<open>catalog_conn\<close> the connection through
  which they are read; \<open>Entities\<close> has the other tables.
\<close>

type_synonym datetime = int
type_synonym db_err = string

record attribute_definition_row =
  atd_id :: uuid
  atd_key :: string
  atd_entity_type :: string
  atd_display_name :: string
  atd_value_type :: string
  atd_default_value :: "string option"
  atd_allowed_values :: "string option"
  atd_description :: "string option"
  atd_created_by :: uuid
  atd_updated_by :: uuid
  atd_created_at :: datetime
  atd_updated_at :: datetime

record decision_function_row =
  dfn_id :: uuid
  dfn_name :: string
  dfn_description :: "string option"
  dfn_language :: string
  dfn_decision_fn :: string
  dfn_decision_wasm :: "string option"
  dfn_decision_config :: "string option"
  dfn_evaluate_context :: string
  dfn_on_error :: string
  dfn_log_level :: string
  dfn_is_enabled :: bool
  dfn_version :: i32
  dfn_created_by :: uuid
  dfn_updated_by :: uuid
  dfn_created_at :: datetime
  dfn_updated_at :: datetime

record discovered_schema_row =
  dsc_id :: uuid
  dsc_data_source_id :: uuid
  dsc_schema_name :: string
  dsc_schema_alias :: "string option"
  dsc_is_selected :: bool
  dsc_discovered_at :: datetime

record discovered_table_row =
  dst_id :: uuid
  dst_discovered_schema_id :: uuid
  dst_table_name :: string
  dst_table_type :: string
  dst_is_selected :: bool
  dst_discovered_at :: datetime

record discovered_column_row =
  dco_id :: uuid
  dco_discovered_table_id :: uuid
  dco_column_name :: string
  dco_ordinal_position :: i32
  dco_data_type :: string
  dco_is_nullable :: bool
  dco_column_default :: "string option"
  dco_arrow_type :: "string option"
  dco_is_selected :: bool
  dco_discovered_at :: datetime

record table_relationship_row =
  trl_id :: uuid
  trl_data_source_id :: uuid
  trl_child_table_id :: uuid
  trl_child_column_name :: string
  trl_parent_table_id :: uuid
  trl_parent_column_name :: string
  trl_created_at :: datetime
  trl_created_by :: "uuid option"

record column_anchor_row =
  can_id :: uuid
  can_data_source_id :: uuid
  can_child_table_id :: uuid
  can_resolved_column_name :: string
  can_relationship_id :: "uuid option"
  can_actual_column_name :: "string option"
  can_designated_at :: datetime
  can_designated_by :: uuid

record catalog_db =
  t_attribute_definition :: "attribute_definition_row list"
  t_decision_function :: "decision_function_row list"
  t_discovered_schema :: "discovered_schema_row list"
  t_discovered_table :: "discovered_table_row list"
  t_discovered_column :: "discovered_column_row list"
  t_table_relationship :: "table_relationship_row list"
  t_column_anchor :: "column_anchor_row list"

record catalog_conn =
  q_attribute_definition :: "(db_err, attribute_definition_row list) result"
  q_decision_function :: "(db_err, decision_function_row list) result"
  q_discovered_schema :: "(db_err, discovered_schema_row list) result"
  q_discovered_table :: "(db_err, discovered_table_row list) result"
  q_discovered_column :: "(db_err, discovered_column_row list) result"
  q_table_relationship :: "(db_err, table_relationship_row list) result"
  q_column_anchor :: "(db_err, column_anchor_row list) result"

definition open_catalog :: "catalog_db \<Rightarrow> catalog_conn" where
  "open_catalog d =
     \<lparr> q_attribute_definition = Inr (t_attribute_definition d),
       q_decision_function = Inr (t_decision_function d),
       q_discovered_schema = Inr (t_discovered_schema d),
       q_discovered_table = Inr (t_discovered_table d),
       q_discovered_column = Inr (t_discovered_column d),
       q_table_relationship = Inr (t_table_relationship d),
       q_column_anchor = Inr (t_column_anchor d) \<rparr>"

lemma open_catalog_simps [simp]:
  "q_attribute_definition (open_catalog d) = Inr (t_attribute_definition d)"
  "q_decision_function (open_catalog d) = Inr (t_decision_function d)"
  "q_discovered_schema (open_catalog d) = Inr (t_discovered_schema d)"
  "q_discovered_table (open_catalog d) = Inr (t_discovered_table d)"
  "q_discovered_column (open_catalog d) = Inr (t_discovered_column d)"
  "q_table_relationship (open_catalog d) = Inr (t_table_relationship d)"
  "q_column_anchor (open_catalog d) = Inr (t_column_anchor d)"
  by (simp_all add: open_catalog_def)

end
