(* ===== verification/Entities.thy ===== *)
theory Entities
  imports CatalogEntities
begin

text \<open>
  The rows of the admin database (\<open>proxy/src/entity/*.rs\<close>) and the two views of it the
  sources use: \<open>admin_db\<close>, the tables themselves as lists of rows in the order the database
  returns them, and \<open>conn\<close>, a connection through which each table is read with a result that
  may be a database error (\<open>Entity::find().all(db).await?\<close>). \<open>open_conn\<close> is the
  connection to a healthy database.

  Field names carry a prefix per entity (\<open>ro_\<close> for \<open>role::Model\<close>, \<open>rm_\<close> for
  \<open>role_member::Model\<close>, and so on) because record fields share one name space.
\<close>

record role_row =
  ro_id :: uuid
  ro_name :: string
  ro_description :: "string option"
  ro_is_active :: bool
  ro_created_at :: datetime
  ro_updated_at :: datetime

record role_member_row =
  rm_id :: uuid
  rm_role_id :: uuid
  rm_user_id :: uuid
  rm_created_at :: datetime

record role_inheritance_row =
  ri_id :: uuid
  ri_parent_role_id :: uuid
  ri_child_role_id :: uuid
  ri_created_at :: datetime

record policy_assignment_row =
  pa_id :: uuid
  pa_policy_id :: uuid
  pa_data_source_id :: uuid
  pa_user_id :: "uuid option"
  pa_role_id :: "uuid option"
  pa_assignment_scope :: string
  pa_priority :: i32
  pa_created_at :: datetime
  pa_updated_at :: datetime

record data_source_access_row =
  dsa_id :: uuid
  dsa_user_id :: "uuid option"
  dsa_role_id :: "uuid option"
  dsa_data_source_id :: uuid
  dsa_assignment_scope :: string
  dsa_created_at :: datetime

record policy_row =
  po_id :: uuid
  po_name :: string
  po_description :: "string option"
  po_policy_type :: string
  po_targets :: string
  po_definition :: "string option"
  po_is_enabled :: bool
  po_version :: i32
  po_decision_function_id :: "uuid option"
  po_created_by :: uuid
  po_updated_by :: uuid
  po_created_at :: datetime
  po_updated_at :: datetime

text \<open>A snapshot is kept as the JSON value it is the text of.\<close>

record policy_version_row =
  pv_id :: uuid
  pv_policy_id :: uuid
  pv_version :: i32
  pv_snapshot :: json
  pv_change_type :: string
  pv_changed_by :: uuid
  pv_created_at :: datetime

record proxy_user_row =
  pu_id :: uuid
  pu_username :: string
  pu_password_hash :: string
  pu_is_admin :: bool
  pu_is_active :: bool
  pu_email :: "string option"
  pu_display_name :: "string option"
  pu_last_login_at :: "datetime option"
  pu_created_at :: datetime
  pu_updated_at :: datetime
  pu_attributes :: string

record data_source_row =
  ds_id :: uuid
  ds_name :: string
  ds_ds_type :: string
  ds_config :: string
  ds_secure_config :: string
  ds_is_active :: bool
  ds_access_mode :: string
  ds_last_sync_at :: "datetime option"
  ds_last_sync_result :: "string option"
  ds_created_at :: datetime
  ds_updated_at :: datetime

record admin_db =
  t_role :: "role_row list"
  t_role_member :: "role_member_row list"
  t_role_inheritance :: "role_inheritance_row list"
  t_policy_assignment :: "policy_assignment_row list"
  t_data_source_access :: "data_source_access_row list"
  t_policy :: "policy_row list"
  t_proxy_user :: "proxy_user_row list"
  t_data_source :: "data_source_row list"
  t_policy_version :: "policy_version_row list"
  t_catalog :: catalog_db

record conn =
  q_role :: "(db_err, role_row list) result"
  q_role_member :: "(db_err, role_member_row list) result"
  q_role_inheritance :: "(db_err, role_inheritance_row list) result"
  q_policy_assignment :: "(db_err, policy_assignment_row list) result"
  q_data_source_access :: "(db_err, data_source_access_row list) result"
  q_policy :: "(db_err, policy_row list) result"
  q_proxy_user :: "(db_err, proxy_user_row list) result"
  q_data_source :: "(db_err, data_source_row list) result"

definition open_conn :: "admin_db \<Rightarrow> conn" where
  "open_conn d =
     \<lparr> q_role = Inr (t_role d),
       q_role_member = Inr (t_role_member d),
       q_role_inheritance = Inr (t_role_inheritance d),
       q_policy_assignment = Inr (t_policy_assignment d),
       q_data_source_access = Inr (t_data_source_access d),
       q_policy = Inr (t_policy d),
       q_proxy_user = Inr (t_proxy_user d),
       q_data_source = Inr (t_data_source d) \<rparr>"

lemma open_conn_simps [simp]:
  "q_role (open_conn d) = Inr (t_role d)"
  "q_role_member (open_conn d) = Inr (t_role_member d)"
  "q_role_inheritance (open_conn d) = Inr (t_role_inheritance d)"
  "q_policy_assignment (open_conn d) = Inr (t_policy_assignment d)"
  "q_data_source_access (open_conn d) = Inr (t_data_source_access d)"
  "q_policy (open_conn d) = Inr (t_policy d)"
  "q_proxy_user (open_conn d) = Inr (t_proxy_user d)"
  "q_data_source (open_conn d) = Inr (t_data_source d)"
  by (simp_all add: open_conn_def)

text \<open>\<open>Entity::find_by_id(id).one(db)\<close>: the row with this primary key, if any.\<close>

definition find_row :: "('r \<Rightarrow> uuid) \<Rightarrow> uuid \<Rightarrow> 'r list \<Rightarrow> 'r option" where
  "find_row key i rows = find (\<lambda>r. key r = i) rows"

lemma find_row_Some: "find_row key i rows = Some r \<Longrightarrow> r \<in> set rows \<and> key r = i"
  by (auto simp: find_row_def find_Some_iff)

lemma find_row_None: "find_row key i rows = None \<longleftrightarrow> i \<notin> key ` set rows"
  by (auto simp: find_row_def find_None_iff)

end
