(* ===== verification/GraphWalk.thy ===== *)
theory GraphWalk
  imports Prelude
begin

text \<open>
  A reference breadth-first walk over a finite graph, with the queue, the visited set and the
  depth tags that the loops of \<open>proxy/src/role_resolver.rs\<close> keep, and its correctness:
  the walk lists every node within the depth bound exactly once, tagged with its distance.
  The loops of the resolver are shown to be instances of it in \<open>RoleResolver\<close>.
\<close>

section \<open>One visit of a neighbour list\<close>

text \<open>
  \<open>for x in xs { if admit(x) && visited.insert(x) { push(x) } }\<close>: the new visited set and
  the nodes pushed, in order.
\<close>

fun visit :: "('a \<Rightarrow> bool) \<Rightarrow> 'a set \<Rightarrow> 'a list \<Rightarrow> 'a set \<times> 'a list" where
  "visit admit V [] = (V, [])"
| "visit admit V (x # xs) =
     (if admit x \<and> x \<notin> V
      then (let (V', ns) = visit admit (insert x V) xs in (V', x # ns))
      else visit admit V xs)"

lemma visit_visited: "fst (visit admit V xs) = V \<union> {x \<in> set xs. admit x}"
  by (induction admit V xs rule: visit.induct) (auto simp: case_prod_beta)

lemma visit_pushed: "set (snd (visit admit V xs)) = {x \<in> set xs. admit x \<and> x \<notin> V}"
  by (induction admit V xs rule: visit.induct) (auto simp: case_prod_beta)

lemma visit_distinct: "distinct (snd (visit admit V xs))"
  by (induction admit V xs rule: visit.induct) (auto simp: case_prod_beta visit_pushed)

text \<open>What is left to visit shrinks by exactly what is pushed.\<close>

definition unseen :: "'a::finite set \<Rightarrow> nat" where
  "unseen V = card (- V)"

lemma unseen_insert: "x \<notin> V \<Longrightarrow> Suc (unseen (insert x V)) = unseen V"
proof -
  assume "x \<notin> V"
  then have "x \<in> - V" by simp
  moreover have "- insert x V = - V - {x}" by blast
  ultimately show ?thesis
    unfolding unseen_def by (metis card_Suc_Diff1 finite)
qed

lemma visit_card:
  "unseen (fst (visit admit V xs)) + length (snd (visit admit V xs)) = unseen V"
proof (induction admit V xs rule: visit.induct)
  case (2 admit V x xs)
  show ?case
  proof (cases "admit x \<and> x \<notin> V")
    case True
    with "2.IH"(1) unseen_insert [of x V] show ?thesis by (simp add: case_prod_beta)
  next
    case False
    from "2.IH"(2) [OF this] False show ?thesis by (simp only: visit.simps if_False)
  qed
qed simp

lemmas visit_facts = visit_visited visit_pushed visit_distinct

section \<open>The level walk\<close>

definition capped :: "nat option \<Rightarrow> nat \<Rightarrow> bool" where
  "capped cap d = (case cap of None \<Rightarrow> False | Some k \<Rightarrow> k \<le> d)"

lemma capped_simps [simp]: "capped None d = False" "capped (Some k) d \<longleftrightarrow> k \<le> d"
  by (simp_all add: capped_def)

text \<open>The nodes pushed after the ones in the queue, in the order they are pushed.\<close>

function levels ::
  "('a::finite \<Rightarrow> 'a list) \<Rightarrow> ('a \<Rightarrow> bool) \<Rightarrow> nat option \<Rightarrow> ('a \<times> nat) list \<Rightarrow> 'a set \<Rightarrow> ('a \<times> nat) list"
where
  "levels adj admit cap [] V = []"
| "levels adj admit cap ((u, d) # Q) V =
     (if capped cap d then levels adj admit cap Q V
      else
        let (V', ns) = visit admit V (adj u);
            new = map (\<lambda>x. (x, Suc d)) ns
        in new @ levels adj admit cap (Q @ new) V')"
  by pat_completeness auto
termination
proof (relation "measure (\<lambda>(adj, admit, cap, Q, V). unseen V + length Q)", goal_cases)
  case (3 adj admit cap u d Q V p V' ns new)
  then have "unseen V' + length ns = unseen V"
    using visit_card [of admit V "adj u"] by (metis fst_conv snd_conv)
  with 3 show ?case by simp
qed auto

definition succ_rel :: "('a \<Rightarrow> 'a list) \<Rightarrow> ('a \<Rightarrow> bool) \<Rightarrow> 'a rel" where
  "succ_rel adj admit = {(u, v). v \<in> set (adj u) \<and> admit v}"

lemma succ_rel_iff [simp]: "(u, v) \<in> succ_rel adj admit \<longleftrightarrow> v \<in> set (adj u) \<and> admit v"
  by (simp add: succ_rel_def)

text \<open>
  The walk invariant over the queue \<open>Q\<close>, the visited set \<open>V\<close> and the tagged nodes
  \<open>R\<close> pushed so far, for start nodes \<open>S\<close> tagged \<open>b\<close>.
\<close>

definition walk_inv ::
  "'a rel \<Rightarrow> nat option \<Rightarrow> 'a set \<Rightarrow> nat \<Rightarrow> ('a \<times> nat) list \<Rightarrow> 'a set \<Rightarrow> ('a \<times> nat) list \<Rightarrow> bool" where
  "walk_inv r cap S b Q V R \<longleftrightarrow>
     V = fst ` set R \<and> distinct (map fst R) \<and> set Q \<subseteq> set R \<and> sorted (map snd Q) \<and>
     (\<forall>v d. (v, d) \<in> set R \<longrightarrow> b \<le> d \<and> (\<exists>s \<in> S. (s, v) \<in> r ^^ (d - b))) \<and>
     (\<forall>v d. (v, d) \<in> set R \<longrightarrow> d = b \<or> \<not> capped cap (d - 1)) \<and>
     (\<forall>s \<in> S. (s, b) \<in> set R) \<and>
     (\<forall>v d. (v, d) \<in> set R \<longrightarrow> Q \<noteq> [] \<longrightarrow> d \<le> Suc (snd (hd Q))) \<and>
     (\<forall>u d w. (u, d) \<in> set R \<longrightarrow> (u, d) \<notin> set Q \<longrightarrow> \<not> capped cap d \<longrightarrow> (u, w) \<in> r \<longrightarrow>
        (\<exists>d' \<le> Suc d. (w, d') \<in> set R))"

lemma walk_inv_init:
  assumes "distinct S"
  shows "walk_inv r cap (set S) b (map (\<lambda>s. (s, b)) S) (set S) (map (\<lambda>s. (s, b)) S)"
proof -
  have "sorted (map snd (map (\<lambda>s. (s, b)) S))" by (induction S) auto
  moreover have "b \<le> Suc (snd (hd (map (\<lambda>s. (s, b)) S)))" if "S \<noteq> []"
    using that by (cases S) auto
  ultimately show ?thesis
    using assms by (auto simp: walk_inv_def comp_def image_image)
qed

lemma walk_inv_skip:
  assumes inv: "walk_inv r cap S b ((u, d) # Q) V R" and c: "capped cap d"
  shows "walk_inv r cap S b Q V R"
proof -
  have "d' \<le> Suc (snd (hd Q))" if "(v, d') \<in> set R" "Q \<noteq> []" for v d'
  proof -
    have "d' \<le> Suc d" and "d \<le> snd (hd Q)"
      using inv that by (auto simp: walk_inv_def neq_Nil_conv)
    then show ?thesis by simp
  qed
  moreover have "\<exists>d'' \<le> Suc d'. (w, d'') \<in> set R"
    if "(v, d') \<in> set R" "(v, d') \<notin> set Q" "\<not> capped cap d'" "(v, w) \<in> r" for v d' w
  proof -
    have "(v, d') \<notin> set ((u, d) # Q)" using that c by auto
    with inv that show ?thesis by (simp add: walk_inv_def)
  qed
  ultimately show ?thesis
    using inv by (simp add: walk_inv_def)
qed

lemma walk_inv_step:
  assumes inv: "walk_inv (succ_rel adj admit) cap S b ((u, d) # Q) V R"
    and c: "\<not> capped cap d"
    and vis: "visit admit V (adj u) = (V', ns)"
    and new: "new = map (\<lambda>x. (x, Suc d)) ns"
  shows "walk_inv (succ_rel adj admit) cap S b (Q @ new) V' (R @ new)"
proof -
  let ?r = "succ_rel adj admit"
  note inv' = inv [unfolded walk_inv_def]
  have V: "V = fst ` set R" and dR: "distinct (map fst R)" and uR: "(u, d) \<in> set R"
    and QR: "set Q \<subseteq> set R" and sQ: "sorted (map snd ((u, d) # Q))"
    using inv' by (simp_all del: list.map sorted_wrt.simps)
  have top: "d' \<le> Suc d" if "(v, d') \<in> set R" for v d'
    using inv' that by (simp del: list.map sorted_wrt.simps)
  have V': "V' = V \<union> {x \<in> set (adj u). admit x}"
    and ns: "set ns = {x \<in> set (adj u). admit x \<and> x \<notin> V}" and dns: "distinct ns"
    using visit_facts [of admit V "adj u"] vis by simp_all
  have mem: "(w, d') \<in> set new \<longleftrightarrow> w \<in> set ns \<and> d' = Suc d" for w d'
    by (auto simp: new)
  have fnew: "fst ` set new = set ns" by (simp add: new image_image)
  have "V' = fst ` set (R @ new)"
    using V V' ns fnew by auto
  moreover have "distinct (map fst (R @ new))"
    using dR dns ns V by (auto simp: new comp_def)
  moreover have "set (Q @ new) \<subseteq> set (R @ new)"
    using QR by auto
  moreover have "sorted (map snd (Q @ new))"
  proof -
    have "sorted (map snd new)" unfolding new by (induction ns) auto
    moreover have "x \<le> Suc d" if "x \<in> set (map snd Q)" for x
      using that QR top by (metis (no_types, lifting) imageE list.set_map prod.collapse subsetD)
    ultimately show ?thesis using sQ by (auto simp: sorted_append new)
  qed
  moreover have "b \<le> d' \<and> (\<exists>s \<in> S. (s, v) \<in> ?r ^^ (d' - b))" if "(v, d') \<in> set (R @ new)" for v d'
  proof (cases "(v, d') \<in> set R")
    case True
    with inv' show ?thesis by blast
  next
    case False
    with that have v: "v \<in> set ns" "d' = Suc d" by (simp_all add: mem)
    from inv' uR obtain s where s: "s \<in> S" "(s, u) \<in> ?r ^^ (d - b)" and b: "b \<le> d" by blast
    have "(u, v) \<in> ?r" using v ns by simp
    with s(2) have "(s, v) \<in> ?r ^^ Suc (d - b)" by (rule relpow_Suc_I)
    with s(1) b v show ?thesis by (auto simp add: Suc_diff_le simp del: relpow.simps)
  qed
  moreover have "d' = b \<or> \<not> capped cap (d' - 1)" if "(v, d') \<in> set (R @ new)" for v d'
  proof (cases "(v, d') \<in> set R")
    case True
    with inv' show ?thesis by blast
  next
    case False
    with that c show ?thesis by (simp add: mem)
  qed
  moreover have "\<forall>s \<in> S. (s, b) \<in> set (R @ new)"
    using inv' by simp
  moreover have "d' \<le> Suc (snd (hd (Q @ new)))" if "(v, d') \<in> set (R @ new)" "Q @ new \<noteq> []" for v d'
  proof -
    have "d \<le> snd (hd (Q @ new))"
      using that(2) sQ by (cases Q) (auto simp: new hd_map)
    moreover have "d' \<le> Suc d" using that(1) top by (auto simp: mem)
    ultimately show ?thesis by simp
  qed
  moreover have "\<exists>d'' \<le> Suc d'. (w, d'') \<in> set (R @ new)"
    if *: "(v, d') \<in> set (R @ new)" "(v, d') \<notin> set (Q @ new)" "\<not> capped cap d'" "(v, w) \<in> ?r" for v d' w
  proof (cases "(v, d') = (u, d)")
    case True
    show ?thesis
    proof (cases "w \<in> V")
      case True
      then obtain d'' where "(w, d'') \<in> set R" using V by force
      with top [OF this] \<open>(v, d') = (u, d)\<close> show ?thesis by auto
    next
      case False
      with * ns \<open>(v, d') = (u, d)\<close> have "(w, Suc d) \<in> set new" by (simp add: mem)
      with \<open>(v, d') = (u, d)\<close> show ?thesis by auto
    qed
  next
    case False
    with * have "(v, d') \<in> set R" "(v, d') \<notin> set ((u, d) # Q)" by auto
    with *(3,4) inv' obtain d'' where "d'' \<le> Suc d'" "(w, d'') \<in> set R" by blast
    then show ?thesis by auto
  qed
  ultimately show ?thesis unfolding walk_inv_def by blast
qed

lemma levels_inv:
  "walk_inv (succ_rel adj admit) cap S b Q V R \<Longrightarrow>
   \<exists>V'. walk_inv (succ_rel adj admit) cap S b [] V' (R @ levels adj admit cap Q V)"
proof (induction adj admit cap Q V arbitrary: R rule: levels.induct)
  case (1 adj admit cap V)
  then show ?case by auto
next
  case (2 adj admit cap u d Q V)
  show ?case
  proof (cases "capped cap d")
    case True
    with 2 show ?thesis by (auto dest: walk_inv_skip)
  next
    case False
    obtain V' ns where vis: "visit admit V (adj u) = (V', ns)" by fastforce
    define new where "new = map (\<lambda>x. (x, Suc d)) ns"
    have "walk_inv (succ_rel adj admit) cap S b (Q @ new) V' (R @ new)"
      using walk_inv_step [OF "2.prems" False vis new_def] .
    from "2.IH"(2) [OF False vis [symmetric] refl new_def this] False show ?thesis
      by (simp add: vis new_def Let_def)
  qed
qed

section \<open>Correctness of the walk\<close>

definition bfs :: "('a::finite \<Rightarrow> 'a list) \<Rightarrow> ('a \<Rightarrow> bool) \<Rightarrow> nat option \<Rightarrow> nat \<Rightarrow> 'a list \<Rightarrow> ('a \<times> nat) list" where
  "bfs adj admit cap b S =
     map (\<lambda>s. (s, b)) S @ levels adj admit cap (map (\<lambda>s. (s, b)) S) (set S)"

text \<open>A path of \<open>n\<close> edges is within the bound when the depth of its last edge's source is not capped.\<close>

definition within :: "nat option \<Rightarrow> nat \<Rightarrow> nat \<Rightarrow> bool" where
  "within cap b n = (n = 0 \<or> \<not> capped cap (b + n - 1))"

lemma within_None [simp]: "within None b n"
  by (simp add: within_def)

lemma within_Some: "within (Some k) b n \<longleftrightarrow> n = 0 \<or> b + n \<le> k"
  by (auto simp: within_def)

lemma within_mono: "within cap b n \<Longrightarrow> m \<le> n \<Longrightarrow> within cap b m"
  by (cases cap) (auto simp: within_Some)

lemma bfs_final:
  assumes "distinct S"
  obtains V where "walk_inv (succ_rel adj admit) cap (set S) b [] V (bfs adj admit cap b S)"
  using levels_inv [OF walk_inv_init [OF assms]] unfolding bfs_def by blast

lemma bfs_distinct: "distinct S \<Longrightarrow> distinct (map fst (bfs adj admit cap b S))"
  by (erule bfs_final [of S adj admit cap b]) (simp add: walk_inv_def)

lemma bfs_sound:
  assumes "distinct S" "(v, d) \<in> set (bfs adj admit cap b S)"
  shows "b \<le> d" "within cap b (d - b)" "\<exists>s \<in> set S. (s, v) \<in> succ_rel adj admit ^^ (d - b)"
proof -
  obtain V where inv: "walk_inv (succ_rel adj admit) cap (set S) b [] V (bfs adj admit cap b S)"
    using bfs_final [OF assms(1)] .
  note inv' = inv [unfolded walk_inv_def]
  from inv' assms(2) show bd: "b \<le> d" by blast
  from inv' assms(2) show "\<exists>s \<in> set S. (s, v) \<in> succ_rel adj admit ^^ (d - b)" by blast
  from inv' assms(2) have "d = b \<or> \<not> capped cap (d - 1)" by blast
  with bd show "within cap b (d - b)" by (auto simp: within_def)
qed

lemma bfs_complete:
  assumes "distinct S" "s \<in> set S" "(s, v) \<in> succ_rel adj admit ^^ n" "within cap b n"
  shows "\<exists>d \<le> b + n. (v, d) \<in> set (bfs adj admit cap b S)"
proof -
  let ?R = "bfs adj admit cap b S"
  obtain V where inv: "walk_inv (succ_rel adj admit) cap (set S) b [] V ?R"
    using bfs_final [OF assms(1)] .
  note inv' = inv [unfolded walk_inv_def]
  from assms(3,4) show ?thesis
  proof (induction n arbitrary: v)
    case 0
    with inv' assms(2) have "(v, b) \<in> set ?R" by simp
    then show ?case by auto
  next
    case (Suc n)
    then obtain u where u: "(s, u) \<in> succ_rel adj admit ^^ n" "(u, v) \<in> succ_rel adj admit"
      by (auto simp del: succ_rel_iff)
    from Suc.prems(2) have "within cap b n" by (rule within_mono) simp
    with Suc.IH u(1) obtain d where d: "d \<le> b + n" "(u, d) \<in> set ?R" by blast
    have "\<not> capped cap d"
      using Suc.prems(2) d(1) by (cases cap) (auto simp: within_Some)
    with inv' d(2) u(2) obtain d' where "d' \<le> Suc d" "(v, d') \<in> set ?R"
      by (metis empty_iff list.set(1))
    with d(1) show ?case by (metis add_Suc_right le_trans Suc_le_mono)
  qed
qed

text \<open>The nodes the walk lists, and the depth it tags them with.\<close>

lemma bfs_nodes:
  assumes "distinct S"
  shows "fst ` set (bfs adj admit cap b S) =
    {v. \<exists>s \<in> set S. \<exists>n. within cap b n \<and> (s, v) \<in> succ_rel adj admit ^^ n}" (is "?L = ?R")
proof
  show "?L \<subseteq> ?R"
  proof
    fix v assume "v \<in> ?L"
    then obtain d where "(v, d) \<in> set (bfs adj admit cap b S)" by force
    from bfs_sound(2,3) [OF assms this] show "v \<in> ?R" by blast
  qed
  show "?R \<subseteq> ?L"
  proof
    fix v assume "v \<in> ?R"
    then obtain s n where "s \<in> set S" "within cap b n" "(s, v) \<in> succ_rel adj admit ^^ n" by blast
    from bfs_complete [OF assms this(1,3,2)] show "v \<in> ?L" by (metis fst_conv image_eqI)
  qed
qed

lemma bfs_shortest:
  assumes "distinct S" "(v, d) \<in> set (bfs adj admit cap b S)"
    and "s \<in> set S" "(s, v) \<in> succ_rel adj admit ^^ n"
  shows "d \<le> b + n"
proof (cases "within cap b n")
  case True
  with bfs_complete [OF assms(1,3,4)] obtain d' where d': "d' \<le> b + n" "(v, d') \<in> set (bfs adj admit cap b S)"
    by blast
  with assms(2) bfs_distinct [OF assms(1)] have "d' = d" by (metis eq_key_imp_eq_value)
  with d' show ?thesis by simp
next
  case False
  with bfs_sound(1,2) [OF assms(1,2)] show ?thesis
    by (cases cap) (auto simp: within_Some)
qed

lemma relpow_succ_rtrancl: "(\<exists>n. (s, v) \<in> r ^^ n) \<longleftrightarrow> (s, v) \<in> r\<^sup>*"
  by (simp add: rtrancl_power)

lemma bfs_reachable:
  assumes "distinct S"
  shows "fst ` set (bfs adj admit None b S) = (succ_rel adj admit)\<^sup>* `` set S"
  unfolding bfs_nodes [OF assms] Image_def rtrancl_power by auto

end
