(* ===== verification/RoleResolver.thy ===== *)
theory RoleResolver
  imports Entities GraphWalk
begin

text \<open>
  Model of \<open>proxy/src/role_resolver.rs\<close>: which roles a user has through memberships and
  inheritance, the cycle and depth checks behind adding an inheritance edge, which policy
  assignments and data source grants apply to a user, and which users a role reaches (used to
  invalidate caches). Every function reads the admin database through a connection and returns a
  database error or a value. The loops keep the queue, the visited set and the depth tags of the
  code; they are proved to be instances of the reference walk of \<open>GraphWalk\<close>, and the
  functions are characterised by reachability over the rows of the database.
\<close>

section \<open>Loops\<close>

definition MAX_INHERITANCE_DEPTH :: nat where
  "MAX_INHERITANCE_DEPTH = 10"

type_synonym adjacency = "uuid \<rightharpoonup> uuid list"

function user_roles_loop ::
  "adjacency \<Rightarrow> (uuid \<Rightarrow> bool) \<Rightarrow> (uuid \<times> nat) list \<Rightarrow> uuid set \<Rightarrow> uuid list \<Rightarrow> uuid list"
where
  "user_roles_loop parent_map active [] visited res = res"
| "user_roles_loop parent_map active ((current, depth) # queue) visited res =
     (if MAX_INHERITANCE_DEPTH \<le> depth then user_roles_loop parent_map active queue visited res
      else case parent_map current of
        None \<Rightarrow> user_roles_loop parent_map active queue visited res
      | Some parents \<Rightarrow>
          (case visit active visited parents of (visited', new) \<Rightarrow>
             user_roles_loop parent_map active (queue @ map (\<lambda>p. (p, depth + 1)) new) visited' (res @ new)))"
  by pat_completeness auto

function walk_loop :: "adjacency \<Rightarrow> uuid list \<Rightarrow> uuid set \<Rightarrow> uuid list \<Rightarrow> uuid list" where
  "walk_loop adj_map [] visited res = res"
| "walk_loop adj_map (current # queue) visited res =
     (case adj_map current of
        None \<Rightarrow> walk_loop adj_map queue visited res
      | Some ns \<Rightarrow>
          (case visit (\<lambda>_. True) visited ns of (visited', new) \<Rightarrow>
             walk_loop adj_map (queue @ new) visited' (res @ new)))"
  by pat_completeness auto

function reach_loop :: "adjacency \<Rightarrow> uuid list \<Rightarrow> uuid set \<Rightarrow> uuid set" where
  "reach_loop adj_map [] visited = visited"
| "reach_loop adj_map (current # queue) visited =
     (case adj_map current of
        None \<Rightarrow> reach_loop adj_map queue visited
      | Some ns \<Rightarrow>
          (case visit (\<lambda>_. True) visited ns of (visited', new) \<Rightarrow>
             reach_loop adj_map (queue @ new) visited'))"
  by pat_completeness auto

function depth_loop :: "adjacency \<Rightarrow> (uuid \<times> nat) list \<Rightarrow> uuid set \<Rightarrow> nat \<Rightarrow> nat" where
  "depth_loop adj_map [] visited max_depth = max_depth"
| "depth_loop adj_map ((current, depth) # queue) visited max_depth =
     (case adj_map current of
        None \<Rightarrow> depth_loop adj_map queue visited (max max_depth depth)
      | Some ns \<Rightarrow>
          (case visit (\<lambda>_. True) visited ns of (visited', new) \<Rightarrow>
             depth_loop adj_map (queue @ map (\<lambda>p. (p, depth + 1)) new) visited' (max max_depth depth)))"
  by pat_completeness auto

function detect_loop :: "adjacency \<Rightarrow> uuid \<Rightarrow> uuid list \<Rightarrow> uuid set \<Rightarrow> bool" where
  "detect_loop parent_map child_id [] visited = False"
| "detect_loop parent_map child_id (current # queue) visited =
     (case parent_map current of
        None \<Rightarrow> detect_loop parent_map child_id queue visited
      | Some parents \<Rightarrow>
          (if child_id \<in> set parents then True
           else case visit (\<lambda>_. True) visited parents of (visited', new) \<Rightarrow>
             detect_loop parent_map child_id (queue @ new) visited'))"
  by pat_completeness auto

lemma visit_decreases:
  "visit admit V xs = (V', ns) \<Longrightarrow> unseen V' + length ns = unseen V"
  using visit_card [of admit V xs] by simp

termination user_roles_loop
  by (relation "measure (\<lambda>(pm, act, Q, V, res). unseen V + length Q)")
    (auto dest!: visit_decreases [OF sym] visit_decreases)

termination walk_loop
  by (relation "measure (\<lambda>(pm, Q, V, res). unseen V + length Q)")
    (auto dest!: visit_decreases [OF sym] visit_decreases)

termination reach_loop
  by (relation "measure (\<lambda>(pm, Q, V). unseen V + length Q)")
    (auto dest!: visit_decreases [OF sym] visit_decreases)

termination depth_loop
  by (relation "measure (\<lambda>(pm, Q, V, m). unseen V + length Q)")
    (auto dest!: visit_decreases [OF sym] visit_decreases)

termination detect_loop
  by (relation "measure (\<lambda>(pm, c, Q, V). unseen V + length Q)")
    (auto dest!: visit_decreases [OF sym] visit_decreases)

section \<open>The loops are instances of the reference walk\<close>

lemma bucket_simps:
  "m k = None \<Longrightarrow> bucket m k = []"
  "m k = Some xs \<Longrightarrow> bucket m k = xs"
  by (simp_all add: bucket_def)

lemmas level_simps = bucket_simps comp_def Let_def

lemma user_roles_loop_levels:
  "user_roles_loop pm act Q V res =
     res @ map fst (levels (bucket pm) act (Some MAX_INHERITANCE_DEPTH) Q V)"
proof (induction pm act Q V res rule: user_roles_loop.induct)
  case (2 pm act u d Q V res)
  then show ?case
    by (auto simp: level_simps split: option.splits prod.splits)
qed simp

lemma walk_loop_levels:
  "map fst Q = us \<Longrightarrow>
   walk_loop pm us V res = res @ map fst (levels (bucket pm) (\<lambda>_. True) None Q V)"
proof (induction pm us V res arbitrary: Q rule: walk_loop.induct)
  case (2 pm u us V res)
  then obtain d Q' where Q: "Q = (u, d) # Q'" "map fst Q' = us" by auto
  show ?case
  proof (cases "pm u")
    case None
    with 2 Q show ?thesis by (simp add: level_simps)
  next
    case (Some ns)
    obtain V' new where vis: "visit (\<lambda>_. True) V ns = (V', new)" by fastforce
    have "walk_loop pm (us @ new) V' (res @ new) =
        (res @ new) @ map fst (levels (bucket pm) (\<lambda>_. True) None (Q' @ map (\<lambda>x. (x, Suc d)) new) V')"
      using Q by (intro "2.IH"(2) [OF Some vis [symmetric]]) (simp_all add: comp_def)
    with Some vis Q show ?thesis by (simp add: level_simps)
  qed
qed simp

lemma reach_loop_levels:
  "map fst Q = us \<Longrightarrow>
   reach_loop pm us V = V \<union> fst ` set (levels (bucket pm) (\<lambda>_. True) None Q V)"
proof (induction pm us V arbitrary: Q rule: reach_loop.induct)
  case (2 pm u us V)
  then obtain d Q' where Q: "Q = (u, d) # Q'" "map fst Q' = us" by auto
  show ?case
  proof (cases "pm u")
    case None
    with 2 Q show ?thesis by (simp add: level_simps)
  next
    case (Some ns)
    obtain V' new where vis: "visit (\<lambda>_. True) V ns = (V', new)" by fastforce
    then have V': "V' = V \<union> set new"
      using visit_facts(1,2) [of "\<lambda>_. True" V ns] by auto
    have "reach_loop pm (us @ new) V' =
        V' \<union> fst ` set (levels (bucket pm) (\<lambda>_. True) None (Q' @ map (\<lambda>x. (x, Suc d)) new) V')"
      using Q by (intro "2.IH"(2) [OF Some vis [symmetric]]) (simp_all add: comp_def)
    with Some vis Q V' show ?thesis by (simp add: level_simps image_Un image_image Un_assoc)
  qed
qed simp

lemma depth_loop_levels:
  "depth_loop pm Q V m =
     foldl max m (map snd (Q @ levels (bucket pm) (\<lambda>_. True) None Q V))"
proof (induction pm Q V m rule: depth_loop.induct)
  case (2 pm u d Q V m)
  then show ?case
    by (auto simp: level_simps split: option.splits prod.splits)
qed simp

lemma detect_loop_levels:
  "map fst Q = us \<Longrightarrow>
   detect_loop pm c us V \<longleftrightarrow>
     (\<exists>u \<in> set us \<union> fst ` set (levels (bucket pm) (\<lambda>_. True) None Q V). c \<in> set (bucket pm u))"
proof (induction pm c us V arbitrary: Q rule: detect_loop.induct)
  case (2 pm c u us V)
  then obtain d Q' where Q: "Q = (u, d) # Q'" "map fst Q' = us" by auto
  show ?case
  proof (cases "pm u")
    case None
    with 2 Q show ?thesis by (simp add: level_simps)
  next
    case (Some ns)
    obtain V' new where vis: "visit (\<lambda>_. True) V ns = (V', new)" by fastforce
    show ?thesis
    proof (cases "c \<in> set ns")
      case True
      with Some Q show ?thesis by (auto simp: level_simps)
    next
      case False
      have "detect_loop pm c (us @ new) V' \<longleftrightarrow>
         (\<exists>u \<in> set (us @ new) \<union> fst ` set (levels (bucket pm) (\<lambda>_. True) None (Q' @ map (\<lambda>x. (x, Suc d)) new) V').
            c \<in> set (bucket pm u))"
        using Q by (intro "2.IH"(2) [OF Some False vis [symmetric]]) (simp_all add: comp_def)
      with Some vis Q False show ?thesis
        by (simp add: level_simps image_Un image_image bex_Un ac_simps)
    qed
  qed
qed simp

section \<open>The functions of the resolver\<close>

definition parent_map :: "role_inheritance_row list \<Rightarrow> adjacency" where
  "parent_map edges = group_pairs (map (\<lambda>e. (ri_child_role_id e, ri_parent_role_id e)) edges)"

definition child_map :: "role_inheritance_row list \<Rightarrow> adjacency" where
  "child_map edges = group_pairs (map (\<lambda>e. (ri_parent_role_id e, ri_child_role_id e)) edges)"

definition roles_by_id :: "role_row list \<Rightarrow> uuid \<rightharpoonup> role_row" where
  "roles_by_id rs = collect_map (map (\<lambda>r. (ro_id r, r)) rs)"

definition role_active :: "role_row list \<Rightarrow> uuid \<Rightarrow> bool" where
  "role_active rs i = (case roles_by_id rs i of None \<Rightarrow> False | Some r \<Rightarrow> ro_is_active r)"

definition resolve_user_roles :: "conn \<Rightarrow> uuid \<Rightarrow> (db_err, uuid list) result" where
  "resolve_user_roles db user_id =
     bind_result (q_role_member db) (\<lambda>members.
       let direct_role_ids = map rm_role_id (filter (\<lambda>m. rm_user_id m = user_id) members) in
       if direct_role_ids = [] then Inr []
       else
         bind_result (q_role db) (\<lambda>all_roles.
         bind_result (q_role_inheritance db) (\<lambda>all_edges.
           case visit (role_active all_roles) {} direct_role_ids of (visited, seeds) \<Rightarrow>
             Inr (user_roles_loop (parent_map all_edges) (role_active all_roles)
                    (map (\<lambda>r. (r, 1)) seeds) visited seeds))))"

definition detect_cycle :: "conn \<Rightarrow> uuid \<Rightarrow> uuid \<Rightarrow> (db_err, bool) result" where
  "detect_cycle db parent_id child_id =
     (if parent_id = child_id then Inr True
      else bind_result (q_role_inheritance db) (\<lambda>all_edges.
        Inr (detect_loop (parent_map all_edges) child_id [parent_id] {parent_id})))"

definition check_inheritance_depth :: "conn \<Rightarrow> uuid \<Rightarrow> (db_err, nat) result" where
  "check_inheritance_depth db role_id =
     bind_result (q_role_inheritance db) (\<lambda>all_edges.
       Inr (depth_loop (parent_map all_edges) [(role_id, 0)] {role_id} 0))"

definition check_inheritance_depth_down :: "conn \<Rightarrow> uuid \<Rightarrow> (db_err, nat) result" where
  "check_inheritance_depth_down db role_id =
     bind_result (q_role_inheritance db) (\<lambda>all_edges.
       Inr (depth_loop (child_map all_edges) [(role_id, 0)] {role_id} 0))"

definition resolve_ancestor_roles :: "conn \<Rightarrow> uuid \<Rightarrow> (db_err, uuid list) result" where
  "resolve_ancestor_roles db role_id =
     bind_result (q_role_inheritance db) (\<lambda>all_edges.
       case visit (\<lambda>_. True) {} (bucket (parent_map all_edges) role_id) of (visited, seeds) \<Rightarrow>
         Inr (walk_loop (parent_map all_edges) seeds visited seeds))"

definition assignment_matches :: "uuid \<Rightarrow> uuid set \<Rightarrow> policy_assignment_row \<Rightarrow> bool" where
  "assignment_matches user_id role_set a =
     (if pa_assignment_scope a = ''all'' then True
      else if pa_assignment_scope a = ''user'' then pa_user_id a = Some user_id
      else if pa_assignment_scope a = ''role'' then
        (case pa_role_id a of None \<Rightarrow> False | Some rid \<Rightarrow> rid \<in> role_set)
      else False)"

text \<open>
  The map from policy to its best assignment so far, as the list of its values in insertion
  order: \<open>entry(policy_id).and_modify(keep the lower priority).or_insert(a)\<close>.
\<close>

fun upsert_best :: "policy_assignment_row \<Rightarrow> policy_assignment_row list \<Rightarrow> policy_assignment_row list" where
  "upsert_best a [] = [a]"
| "upsert_best a (x # xs) =
     (if pa_policy_id x = pa_policy_id a
      then (if pa_priority a < pa_priority x then a else x) # xs
      else x # upsert_best a xs)"

definition best_by_policy ::
  "(policy_assignment_row \<Rightarrow> bool) \<Rightarrow> policy_assignment_row list \<Rightarrow> policy_assignment_row list" where
  "best_by_policy applies rows =
     fold (\<lambda>a best. if applies a then upsert_best a best else best) rows []"

definition resolve_effective_assignments ::
  "conn \<Rightarrow> uuid \<Rightarrow> uuid \<Rightarrow> (db_err, policy_assignment_row list) result" where
  "resolve_effective_assignments db user_id datasource_id =
     bind_result (resolve_user_roles db user_id) (\<lambda>user_roles.
     bind_result (q_policy_assignment db) (\<lambda>rows.
       Inr (best_by_policy (assignment_matches user_id (set user_roles))
              (filter (\<lambda>a. pa_data_source_id a = datasource_id) rows))))"

definition access_matches :: "uuid \<Rightarrow> uuid set \<Rightarrow> data_source_access_row \<Rightarrow> bool" where
  "access_matches user_id role_set a =
     (if dsa_assignment_scope a = ''all'' then True
      else if dsa_assignment_scope a = ''user'' then dsa_user_id a = Some user_id
      else if dsa_assignment_scope a = ''role'' then
        (case dsa_role_id a of None \<Rightarrow> False | Some rid \<Rightarrow> rid \<in> role_set)
      else False)"

definition resolve_datasource_access :: "conn \<Rightarrow> uuid \<Rightarrow> uuid \<Rightarrow> (db_err, bool) result" where
  "resolve_datasource_access db user_id datasource_id =
     bind_result (resolve_user_roles db user_id) (\<lambda>user_roles.
     bind_result (q_data_source_access db) (\<lambda>rows.
       Inr (list_ex (access_matches user_id (set user_roles))
              (filter (\<lambda>a. dsa_data_source_id a = datasource_id) rows))))"

definition resolve_all_role_members :: "conn \<Rightarrow> uuid \<Rightarrow> (db_err, uuid list) result" where
  "resolve_all_role_members db role_id =
     bind_result (q_role_inheritance db) (\<lambda>all_edges.
       let all_role_ids = reach_loop (child_map all_edges) [role_id] {role_id} in
       bind_result (q_role_member db) (\<lambda>members.
         Inr (remdups (map rm_user_id (filter (\<lambda>m. rm_role_id m \<in> all_role_ids) members)))))"

abbreviation quote :: string where
  "quote \<equiv> [CHR 0x27]"

record EffectivePolicyEntry =
  epe_policy_id :: uuid
  epe_policy_name :: string
  epe_policy_type :: string
  epe_datasource_name :: string
  epe_priority :: i32
  epe_source :: string
  epe_is_enabled :: bool

definition assignment_source ::
  "uuid \<Rightarrow> uuid set \<Rightarrow> uuid set \<Rightarrow> (uuid \<rightharpoonup> string) \<Rightarrow> policy_assignment_row \<Rightarrow> string option" where
  "assignment_source user_id role_set direct_role_ids roles a =
     (if pa_assignment_scope a = ''all'' then Some ''all users''
      else if pa_assignment_scope a = ''user'' \<and> pa_user_id a = Some user_id then Some ''direct''
      else if pa_assignment_scope a = ''role'' then
        (case pa_role_id a of
           None \<Rightarrow> None
         | Some rid \<Rightarrow>
             if rid \<in> role_set then
               (let role_name = unwrap_or (roles rid) [] in
                if rid \<in> direct_role_ids then Some (''role '' @ quote @ role_name @ quote)
                else Some (''inherited from '' @ quote @ role_name @ quote))
             else None)
      else None)"

definition resolve_effective_policies ::
  "conn \<Rightarrow> uuid \<Rightarrow> uuid \<Rightarrow> string \<Rightarrow> (db_err, EffectivePolicyEntry list) result" where
  "resolve_effective_policies db user_id datasource_id datasource_name =
     bind_result (resolve_user_roles db user_id) (\<lambda>user_roles.
     bind_result (q_policy_assignment db) (\<lambda>rows.
     let all_assignments = filter (\<lambda>a. pa_data_source_id a = datasource_id) rows in
     bind_result
       (if user_roles \<noteq> [] then
          bind_result (q_role db) (\<lambda>rs.
            Inr (collect_map (map (\<lambda>r. (ro_id r, ro_name r)) (filter (\<lambda>r. ro_id r \<in> set user_roles) rs))))
        else Inr Map.empty) (\<lambda>roles.
     bind_result (q_role_member db) (\<lambda>members.
     let direct_role_ids = set (map rm_role_id (filter (\<lambda>m. rm_user_id m = user_id) members));
         entries = List.map_filter (\<lambda>a. map_option (Pair a)
           (assignment_source user_id (set user_roles) direct_role_ids roles a)) all_assignments;
         policy_ids = map (\<lambda>(a, _). pa_policy_id a) entries in
     bind_result
       (if policy_ids \<noteq> [] then
          bind_result (q_policy db) (\<lambda>ps.
            Inr (collect_map (map (\<lambda>p. (po_id p, p)) (filter (\<lambda>p. po_id p \<in> set policy_ids) ps))))
        else Inr Map.empty) (\<lambda>policies.
     Inr (List.map_filter (\<lambda>(a, source). map_option (\<lambda>p.
            \<lparr> epe_policy_id = po_id p, epe_policy_name = po_name p, epe_policy_type = po_policy_type p,
              epe_datasource_name = datasource_name, epe_priority = pa_priority a,
              epe_source = source, epe_is_enabled = po_is_enabled p \<rparr>)
            (policies (pa_policy_id a))) entries))))))"

record EffectiveMemberEntry =
  eme_user_id :: uuid
  eme_username :: string
  eme_source :: string

text \<open>
  The map from user to entry, as the list of its values in insertion order:
  \<open>entry(user_id).and_modify(prefer "direct").or_insert(e)\<close>.
\<close>

fun upsert_member :: "EffectiveMemberEntry \<Rightarrow> EffectiveMemberEntry list \<Rightarrow> EffectiveMemberEntry list" where
  "upsert_member e [] = [e]"
| "upsert_member e (x # xs) =
     (if eme_user_id x = eme_user_id e
      then (if eme_source e = ''direct'' then x\<lparr>eme_source := ''direct''\<rparr> else x) # xs
      else x # upsert_member e xs)"

definition resolve_effective_members :: "conn \<Rightarrow> uuid \<Rightarrow> (db_err, EffectiveMemberEntry list) result" where
  "resolve_effective_members db role_id =
     bind_result (q_role_inheritance db) (\<lambda>all_edges.
     bind_result (q_role db) (\<lambda>rs.
     let all_roles = collect_map (map (\<lambda>r. (ro_id r, ro_name r)) rs) in
     case visit (\<lambda>_. True) {role_id} (bucket (child_map all_edges) role_id) of (visited, seeds) \<Rightarrow>
     let role_sources = (role_id, ''direct'') #
           map (\<lambda>c. (c, ''via role '' @ quote @ unwrap_or (all_roles c) [] @ quote))
             (walk_loop (child_map all_edges) seeds visited seeds);
         all_role_ids = map fst role_sources in
     bind_result (q_role_member db) (\<lambda>rows.
     let members = filter (\<lambda>m. rm_role_id m \<in> set all_role_ids) rows;
         role_source_map = collect_map role_sources;
         user_ids = remdups (map rm_user_id members) in
     bind_result
       (if user_ids \<noteq> [] then
          bind_result (q_proxy_user db) (\<lambda>us.
            Inr (collect_map (map (\<lambda>u. (pu_id u, pu_username u)) (filter (\<lambda>u. pu_id u \<in> set user_ids) us))))
        else Inr Map.empty) (\<lambda>users.
     Inr (fold (\<lambda>m. upsert_member
            \<lparr> eme_user_id = rm_user_id m, eme_username = unwrap_or (users (rm_user_id m)) [],
              eme_source = unwrap_or (role_source_map (rm_role_id m)) [] \<rparr>) members [])))))"

text \<open>
  \<open>build_cycle_path\<close>: one pass over the parents of \<open>current\<close> stops at the child; otherwise
  it records where each new node was reached from. The result is whether the child was met, the
  record, and the nodes queued.
\<close>

fun path_visit ::
  "uuid \<Rightarrow> uuid \<Rightarrow> uuid list \<Rightarrow> (uuid \<rightharpoonup> uuid) \<Rightarrow> bool \<times> (uuid \<rightharpoonup> uuid) \<times> uuid list" where
  "path_visit child_id current [] visited = (False, visited, [])"
| "path_visit child_id current (pid # pids) visited =
     (if pid = child_id then (True, visited, [])
      else if visited pid = None then
        (case path_visit child_id current pids (visited(pid \<mapsto> current)) of
           (found, visited', new) \<Rightarrow> (found, visited', pid # new))
      else path_visit child_id current pids visited)"

function path_loop ::
  "adjacency \<Rightarrow> uuid \<Rightarrow> uuid list \<Rightarrow> (uuid \<rightharpoonup> uuid) \<Rightarrow> (uuid \<times> (uuid \<rightharpoonup> uuid)) option" where
  "path_loop pm child_id [] visited = None"
| "path_loop pm child_id (current # queue) visited =
     (case pm current of
        None \<Rightarrow> path_loop pm child_id queue visited
      | Some parents \<Rightarrow>
          (case path_visit child_id current parents visited of
             (found, visited', new) \<Rightarrow>
               if found then Some (current, visited')
               else path_loop pm child_id (queue @ new) visited'))"
  by pat_completeness auto

lemma path_visit_decreases:
  "path_visit c u ps M = (f, M', new) \<Longrightarrow> unseen (dom M') + length new = unseen (dom M)"
proof (induction c u ps M arbitrary: f M' new rule: path_visit.induct)
  case (2 c u p ps M)
  show ?case
  proof (cases "p \<noteq> c \<and> M p = None")
    case True
    obtain f' M'' new' where rec: "path_visit c u ps (M(p \<mapsto> u)) = (f', M'', new')"
      by (metis prod.exhaust)
    from True have "Suc (unseen (dom (M(p \<mapsto> u)))) = unseen (dom M)"
      using unseen_insert [of p "dom M"] by auto
    moreover from True rec 2(1) have "unseen (dom M'') + length new' = unseen (dom (M(p \<mapsto> u)))" by blast
    ultimately show ?thesis using 2(3) True rec by auto
  next
    case False
    with 2 show ?thesis by (auto split: if_splits)
  qed
qed auto

termination path_loop
  by (relation "measure (\<lambda>(pm, c, queue, visited). unseen (dom visited) + length queue)")
    (auto dest!: path_visit_decreases [OF sym])

text \<open>
  The path is rebuilt backwards from the record until the parent is met or no predecessor is
  recorded. The loop of the source has no other exit, so it is a partial function here.
\<close>

partial_function (option) rebuild ::
  "(uuid \<rightharpoonup> uuid) \<Rightarrow> uuid \<Rightarrow> uuid \<Rightarrow> uuid list \<Rightarrow> uuid list option" where
  "rebuild visited parent_id node path =
     (if node \<noteq> parent_id then
        (case visited node of
           Some prev \<Rightarrow> rebuild visited parent_id prev (path @ [prev])
         | None \<Rightarrow> Some path)
      else Some path)"

declare rebuild.simps [code]

text \<open>The separator is the arrow of the message, in UTF-8, between spaces.\<close>

definition arrow :: string where
  "arrow = [CHR 0x20, CHR 0xE2, CHR 0x86, CHR 0x92, CHR 0x20]"

definition cycle_path :: "role_inheritance_row list \<Rightarrow> uuid \<Rightarrow> uuid \<Rightarrow> uuid list option option" where
  "cycle_path all_edges parent_id child_id =
     map_option (\<lambda>(current, visited).
         map_option (\<lambda>path. rev (path @ [child_id])) (rebuild visited parent_id current [child_id, current]))
       (path_loop (parent_map all_edges) child_id [parent_id] Map.empty)"

definition build_cycle_path ::
  "(uuid \<Rightarrow> string) \<Rightarrow> conn \<Rightarrow> uuid \<Rightarrow> uuid \<Rightarrow> (db_err, string) result option" where
  "build_cycle_path uuid_to_string db parent_id child_id =
     (case (q_role_inheritance db, q_role db) of
        (Inl e, _) \<Rightarrow> Some (Inl e)
      | (Inr _, Inl e) \<Rightarrow> Some (Inl e)
      | (Inr all_edges, Inr rs) \<Rightarrow>
          let all_roles = collect_map (map (\<lambda>r. (ro_id r, ro_name r)) rs);
              name = (\<lambda>i. unwrap_or (all_roles i) (uuid_to_string i)) in
          (case cycle_path all_edges parent_id child_id of
             Some path \<Rightarrow> map_option (\<lambda>ids. Inr (join arrow (map name ids))) path
           | None \<Rightarrow> Some (Inr (name child_id @ arrow @ name parent_id @ arrow @ name child_id))))"

section \<open>Reading the tables as relations\<close>

definition edge_rel :: "role_inheritance_row list \<Rightarrow> uuid rel" where
  "edge_rel es = (\<lambda>e. (ri_child_role_id e, ri_parent_role_id e)) ` set es"

definition parent_rel :: "admin_db \<Rightarrow> uuid rel" where
  "parent_rel d = edge_rel (t_role_inheritance d)"

definition active_parent_rel :: "admin_db \<Rightarrow> uuid rel" where
  "active_parent_rel d = {(c, p) \<in> parent_rel d. role_active (t_role d) p}"

definition member_of :: "admin_db \<Rightarrow> uuid \<Rightarrow> uuid \<Rightarrow> bool" where
  "member_of d u r \<longleftrightarrow> (\<exists>m \<in> set (t_role_member d). rm_user_id m = u \<and> rm_role_id m = r)"

text \<open>
  The roles a user has: an active role the user is a member of, and every role reached from one
  through at most nine inheritance edges into active roles.
\<close>

definition effective_roles :: "admin_db \<Rightarrow> uuid \<Rightarrow> uuid set" where
  "effective_roles d u =
     {r. \<exists>s n. member_of d u s \<and> role_active (t_role d) s \<and> n < MAX_INHERITANCE_DEPTH \<and>
            (s, r) \<in> active_parent_rel d ^^ n}"

lemma set_parent_bucket [simp]:
  "set (bucket (parent_map es) c) = {p. (c, p) \<in> edge_rel es}"
  by (auto simp: parent_map_def edge_rel_def image_iff)

lemma set_child_bucket [simp]:
  "set (bucket (child_map es) p) = {c. (c, p) \<in> edge_rel es}"
  by (auto simp: child_map_def edge_rel_def image_iff)

lemma succ_rel_parent_map:
  "succ_rel (bucket (parent_map es)) P = {(c, p) \<in> edge_rel es. P p}"
  by (auto simp: succ_rel_def)

lemma succ_rel_parent_map_True [simp]:
  "succ_rel (bucket (parent_map es)) (\<lambda>_. True) = edge_rel es"
  by (simp add: succ_rel_parent_map)

lemma succ_rel_child_map_True [simp]:
  "succ_rel (bucket (child_map es)) (\<lambda>_. True) = (edge_rel es)\<inverse>"
  by (auto simp: succ_rel_def)

lemma active_parent_rel_succ:
  "active_parent_rel d = succ_rel (bucket (parent_map (t_role_inheritance d))) (role_active (t_role d))"
  by (simp add: active_parent_rel_def parent_rel_def succ_rel_parent_map)

lemma active_parent_rel_sub: "active_parent_rel d \<subseteq> parent_rel d"
  by (auto simp: active_parent_rel_def)

section \<open>Correctness of the resolver\<close>

lemma seeded_loop_bfs:
  assumes "visit act {} xs = (V, seeds)"
  shows "distinct seeds" "V = set seeds" "set seeds = {x \<in> set xs. act x}"
    "user_roles_loop pm act (map (\<lambda>r. (r, 1)) seeds) V seeds =
       map fst (bfs (bucket pm) act (Some MAX_INHERITANCE_DEPTH) 1 seeds)"
    "act = (\<lambda>_. True) \<Longrightarrow> walk_loop pm seeds V seeds = map fst (bfs (bucket pm) act None b seeds)"
proof -
  show d: "distinct seeds" and V: "V = set seeds" and "set seeds = {x \<in> set xs. act x}"
    using visit_facts [of act "{}" xs] assms by auto
  show "user_roles_loop pm act (map (\<lambda>r. (r, 1)) seeds) V seeds =
       map fst (bfs (bucket pm) act (Some MAX_INHERITANCE_DEPTH) 1 seeds)"
    by (simp add: user_roles_loop_levels bfs_def V comp_def)
  show "walk_loop pm seeds V seeds = map fst (bfs (bucket pm) act None b seeds)" if "act = (\<lambda>_. True)"
    using walk_loop_levels [of "map (\<lambda>s. (s, b)) seeds" seeds pm V seeds] that
    by (simp add: bfs_def V comp_def)
qed

lemma reach_loop_bfs:
  "reach_loop pm [r] {r} = fst ` set (bfs (bucket pm) (\<lambda>_. True) None 0 [r])"
  using reach_loop_levels [of "[(r, 0)]" "[r]" pm "{r}"] by (simp add: bfs_def)

lemma resolve_user_roles_total:
  obtains rs where "resolve_user_roles (open_conn d) u = Inr rs" "distinct rs"
    "set rs = effective_roles d u"
proof -
  define direct where "direct = map rm_role_id (filter (\<lambda>m. rm_user_id m = u) (t_role_member d))"
  have direct: "set direct = {r. member_of d u r}"
    by (auto simp: direct_def member_of_def)
  show thesis
  proof (cases "direct = []")
    case True
    then have "resolve_user_roles (open_conn d) u = Inr []"
      by (simp add: resolve_user_roles_def direct_def Let_def)
    moreover have "effective_roles d u = {}"
      using True direct by (auto simp: effective_roles_def)
    ultimately show thesis using that [of "[]"] by simp
  next
    case False
    obtain V seeds where vis: "visit (role_active (t_role d)) {} direct = (V, seeds)" by fastforce
    let ?act = "role_active (t_role d)" and ?adj = "bucket (parent_map (t_role_inheritance d))"
    let ?rs = "map fst (bfs ?adj ?act (Some MAX_INHERITANCE_DEPTH) 1 seeds)"
    have "resolve_user_roles (open_conn d) u = Inr ?rs"
      using False vis seeded_loop_bfs(4) [OF vis]
      by (simp add: resolve_user_roles_def direct_def Let_def)
    moreover have "distinct ?rs"
      by (rule bfs_distinct) (rule seeded_loop_bfs(1) [OF vis])
    moreover have "set ?rs = effective_roles d u"
    proof -
      have "n = 0 \<or> 1 + n \<le> MAX_INHERITANCE_DEPTH \<longleftrightarrow> n < MAX_INHERITANCE_DEPTH" for n
        by (auto simp: MAX_INHERITANCE_DEPTH_def)
      then show ?thesis
        using bfs_nodes [OF seeded_loop_bfs(1) [OF vis], of ?adj ?act "Some MAX_INHERITANCE_DEPTH" 1]
          seeded_loop_bfs(3) [OF vis] direct
        by (auto simp: effective_roles_def active_parent_rel_succ within_Some)
    qed
    ultimately show thesis by (rule that)
  qed
qed

lemma detect_cycle_eq:
  "detect_cycle (open_conn d) p c = Inr ((p, c) \<in> (parent_rel d)\<^sup>*)"
proof (cases "p = c")
  case False
  let ?R = "edge_rel (t_role_inheritance d)"
  have "fst ` set (bfs (bucket (parent_map (t_role_inheritance d))) (\<lambda>_. True) None 0 [p]) = ?R\<^sup>* `` {p}"
    by (subst bfs_reachable) simp_all
  then have seen: "insert p (fst ` set (levels (bucket (parent_map (t_role_inheritance d)))
      (\<lambda>_. True) None [(p, 0)] {p})) = ?R\<^sup>* `` {p}"
    by (simp add: bfs_def)
  have "detect_loop (parent_map (t_role_inheritance d)) c [p] {p} \<longleftrightarrow> (\<exists>u \<in> ?R\<^sup>* `` {p}. (u, c) \<in> ?R)"
    unfolding seen [symmetric] by (subst detect_loop_levels [of "[(p, 0)]"]) simp_all
  also have "\<dots> \<longleftrightarrow> (p, c) \<in> ?R\<^sup>+"
    by (auto dest: rtrancl_into_trancl1 tranclD2)
  also have "\<dots> \<longleftrightarrow> (p, c) \<in> ?R\<^sup>*"
    using False by (simp add: rtrancl_eq_or_trancl)
  finally show ?thesis
    using False by (simp add: detect_cycle_def parent_rel_def)
qed (simp add: detect_cycle_def)

text \<open>
  The depth a walk reports is the eccentricity of its start: every reachable node is within that
  many edges, and one of them needs that many.
\<close>

definition eccentricity :: "uuid rel \<Rightarrow> uuid \<Rightarrow> nat \<Rightarrow> bool" where
  "eccentricity R r n \<longleftrightarrow>
     (\<forall>v. (r, v) \<in> R\<^sup>* \<longrightarrow> (\<exists>m \<le> n. (r, v) \<in> R ^^ m)) \<and>
     (\<exists>v. (r, v) \<in> R ^^ n \<and> (\<forall>m < n. (r, v) \<notin> R ^^ m))"

lemma foldl_max_Max: "foldl max (m::nat) xs = Max (insert m (set xs))"
proof (induction xs arbitrary: m)
  case (Cons x xs)
  then show ?case by (cases "xs = []") (simp_all add: max.assoc)
qed simp

lemma depth_loop_eccentricity:
  assumes R: "R = succ_rel (bucket pm) (\<lambda>_. True)"
  shows "eccentricity R r (depth_loop pm [(r, 0)] {r} 0)"
proof -
  let ?B = "bfs (bucket pm) (\<lambda>_. True) None 0 [r]"
  let ?n = "depth_loop pm [(r, 0)] {r} 0"
  have n: "?n = Max (snd ` set ?B)"
    unfolding depth_loop_levels foldl_max_Max bfs_def
    by (simp del: levels.simps depth_loop.simps add: image_Un)
  have "snd ` set ?B \<noteq> {}" by (simp add: bfs_def)
  then have "Max (snd ` set ?B) \<in> snd ` set ?B" by (intro Max_in) simp_all
  then obtain v where v: "(v, ?n) \<in> set ?B" unfolding n by force
  have le: "d \<le> ?n" if "(w, d) \<in> set ?B" for w d
    unfolding n using that by (intro Max_ge) force+
  have "(r, v) \<in> R ^^ ?n"
    using bfs_sound(3) [OF _ v] unfolding R by simp
  moreover have "\<forall>m < ?n. (r, v) \<notin> R ^^ m"
    using bfs_shortest [OF _ v, of r] unfolding R by force
  moreover have "\<exists>m \<le> ?n. (r, w) \<in> R ^^ m" if w: "(r, w) \<in> R\<^sup>*" for w
  proof -
    obtain k where "(r, w) \<in> R ^^ k" using w by (auto simp: rtrancl_power)
    then obtain d where d: "(w, d) \<in> set ?B"
      using bfs_complete [where S = "[r]" and s = r and cap = None and b = 0] R by fastforce
    with bfs_sound(3) [OF _ d] le [OF d] show ?thesis unfolding R by auto
  qed
  ultimately show ?thesis unfolding eccentricity_def by blast
qed

lemma check_inheritance_depth_ecc:
  obtains n where "check_inheritance_depth (open_conn d) r = Inr n" "eccentricity (parent_rel d) r n"
  using depth_loop_eccentricity [of "parent_rel d" "parent_map (t_role_inheritance d)" r]
  by (simp add: check_inheritance_depth_def parent_rel_def)

lemma check_inheritance_depth_down_ecc:
  obtains n where "check_inheritance_depth_down (open_conn d) r = Inr n"
    "eccentricity ((parent_rel d)\<inverse>) r n"
  using depth_loop_eccentricity [of "(parent_rel d)\<inverse>" "child_map (t_role_inheritance d)" r]
  by (simp add: check_inheritance_depth_down_def parent_rel_def)

lemma resolve_ancestor_roles_total:
  obtains rs where "resolve_ancestor_roles (open_conn d) r = Inr rs" "distinct rs"
    "set rs = (parent_rel d)\<^sup>+ `` {r}"
proof -
  let ?es = "t_role_inheritance d"
  obtain V seeds where vis: "visit (\<lambda>_. True) {} (bucket (parent_map ?es) r) = (V, seeds)" by fastforce
  let ?rs = "map fst (bfs (bucket (parent_map ?es)) (\<lambda>_. True) None 0 seeds)"
  have "resolve_ancestor_roles (open_conn d) r = Inr ?rs"
    using vis seeded_loop_bfs(5) [OF vis, of "parent_map ?es" 0] by (simp add: resolve_ancestor_roles_def)
  moreover have "distinct ?rs"
    by (rule bfs_distinct) (rule seeded_loop_bfs(1) [OF vis])
  moreover have "set ?rs = (parent_rel d)\<^sup>+ `` {r}"
    using bfs_reachable [OF seeded_loop_bfs(1) [OF vis], of "bucket (parent_map ?es)" "\<lambda>_. True" 0]
      seeded_loop_bfs(3) [OF vis]
    by (auto simp: parent_rel_def trancl_unfold_left)
  ultimately show thesis by (rule that)
qed

lemma reach_loop_child:
  "reach_loop (child_map es) [r] {r} = {c. (c, r) \<in> (edge_rel es)\<^sup>*}"
  by (subst reach_loop_bfs, subst bfs_reachable) (auto simp: rtrancl_converse)

lemma resolve_all_role_members_total:
  obtains us where "resolve_all_role_members (open_conn d) r = Inr us" "distinct us"
    "set us = {u. \<exists>s. member_of d u s \<and> (s, r) \<in> (parent_rel d)\<^sup>*}"
proof -
  let ?us = "remdups (map rm_user_id (filter (\<lambda>m. rm_role_id m \<in>
      reach_loop (child_map (t_role_inheritance d)) [r] {r}) (t_role_member d)))"
  have "resolve_all_role_members (open_conn d) r = Inr ?us"
    by (simp add: resolve_all_role_members_def Let_def)
  moreover have "set ?us = {u. \<exists>s. member_of d u s \<and> (s, r) \<in> (parent_rel d)\<^sup>*}"
    by (auto simp: reach_loop_child member_of_def parent_rel_def simp del: reach_loop.simps)
  ultimately show thesis using that distinct_remdups by blast
qed

lemma effective_roles_reach:
  assumes "r \<in> effective_roles d u"
  obtains s where "member_of d u s" "(s, r) \<in> (parent_rel d)\<^sup>*"
proof -
  from assms obtain s n where s: "member_of d u s" "(s, r) \<in> active_parent_rel d ^^ n"
    by (auto simp: effective_roles_def)
  then have "(s, r) \<in> (active_parent_rel d)\<^sup>*" by (auto simp: rtrancl_power)
  then have "(s, r) \<in> (parent_rel d)\<^sup>*"
    using rtrancl_mono [OF active_parent_rel_sub] by blast
  with s(1) show thesis by (rule that)
qed

section \<open>Assignments and access\<close>

definition applicable :: "admin_db \<Rightarrow> uuid \<Rightarrow> uuid \<Rightarrow> policy_assignment_row \<Rightarrow> bool" where
  "applicable d u ds a \<longleftrightarrow>
     a \<in> set (t_policy_assignment d) \<and> pa_data_source_id a = ds \<and>
     (pa_assignment_scope a = ''all'' \<or>
      pa_assignment_scope a = ''user'' \<and> pa_user_id a = Some u \<or>
      pa_assignment_scope a = ''role'' \<and> pa_role_id a \<in> Some ` effective_roles d u)"

definition best_inv ::
  "policy_assignment_row set \<Rightarrow> policy_assignment_row list \<Rightarrow> bool" where
  "best_inv A bs \<longleftrightarrow>
     distinct (map pa_policy_id bs) \<and> set bs \<subseteq> A \<and>
     (\<forall>a \<in> A. \<exists>b \<in> set bs. pa_policy_id b = pa_policy_id a \<and> pa_priority b \<le> pa_priority a)"

lemma upsert_best_keys:
  "pa_policy_id ` set (upsert_best a bs) = insert (pa_policy_id a) (pa_policy_id ` set bs)"
  by (induction bs) auto

lemma upsert_best_inv:
  assumes "distinct (map pa_policy_id bs)"
  shows "distinct (map pa_policy_id (upsert_best a bs))"
    and "set (upsert_best a bs) \<subseteq> insert a (set bs)"
    and "b \<in> insert a (set bs) \<Longrightarrow>
      \<exists>b' \<in> set (upsert_best a bs). pa_policy_id b' = pa_policy_id b \<and> pa_priority b' \<le> pa_priority b"
  using assms
proof (induction bs)
  case (Cons x bs)
  {
    case 1
    with Cons.IH(1) show ?case
      using upsert_best_keys [of a bs] by (auto simp: image_iff)
  next
    case 2
    with Cons.IH(2) show ?case by auto
  next
    case 3
    with Cons.IH(3) show ?case by auto
  }
qed auto

lemma best_inv_upsert:
  assumes "best_inv A bs"
  shows "best_inv (insert a A) (upsert_best a bs)"
proof -
  have d: "distinct (map pa_policy_id bs)" using assms by (simp add: best_inv_def)
  have "\<exists>b' \<in> set (upsert_best a bs). pa_policy_id b' = pa_policy_id c \<and> pa_priority b' \<le> pa_priority c"
    if c: "c \<in> insert a A" for c
  proof -
    obtain b where b: "b \<in> insert a (set bs)" "pa_policy_id b = pa_policy_id c" "pa_priority b \<le> pa_priority c"
      using c assms unfolding best_inv_def by fastforce
    from upsert_best_inv(3) [OF d b(1)] b(2,3) show ?thesis by fastforce
  qed
  with assms upsert_best_inv(1,2) [OF d, of a] show ?thesis
    unfolding best_inv_def by blast
qed

lemma best_by_policy_inv: "best_inv {a \<in> set rows. applies a} (best_by_policy applies rows)"
proof -
  have "best_inv A bs \<Longrightarrow>
      best_inv (A \<union> {a \<in> set rows. applies a})
        (fold (\<lambda>a best. if applies a then upsert_best a best else best) rows bs)" for A bs
  proof (induction rows arbitrary: A bs)
    case (Cons a rows)
    show ?case
    proof (cases "applies a")
      case True
      then have "A \<union> {x \<in> set (a # rows). applies x} = insert a A \<union> {x \<in> set rows. applies x}" by auto
      with True Cons.IH [OF best_inv_upsert [OF Cons.prems, of a]] show ?thesis by simp
    next
      case False
      then have "{x \<in> set (a # rows). applies x} = {x \<in> set rows. applies x}" by auto
      with False Cons.IH [OF Cons.prems] show ?thesis by simp
    qed
  qed simp
  from this [of "{}" "[]"] show ?thesis by (simp add: best_by_policy_def best_inv_def)
qed

lemma assignment_matches_applicable:
  "a \<in> set (t_policy_assignment d) \<Longrightarrow> pa_data_source_id a = ds \<Longrightarrow>
   assignment_matches u (effective_roles d u) a \<longleftrightarrow> applicable d u ds a"
  by (cases "pa_role_id a") (auto simp: assignment_matches_def applicable_def)

lemma resolve_effective_assignments_total:
  obtains bs where "resolve_effective_assignments (open_conn d) u ds = Inr bs"
    "best_inv {a. applicable d u ds a} bs"
proof -
  obtain rs where rs: "resolve_user_roles (open_conn d) u = Inr rs" "set rs = effective_roles d u"
    by (rule resolve_user_roles_total)
  let ?rows = "filter (\<lambda>a. pa_data_source_id a = ds) (t_policy_assignment d)"
  let ?applies = "assignment_matches u (effective_roles d u)"
  have "{a \<in> set ?rows. ?applies a} = {a. applicable d u ds a}"
    using assignment_matches_applicable [of _ d ds u] by (auto simp: applicable_def)
  with best_by_policy_inv [of ?rows ?applies] rs show thesis
    by (intro that [of "best_by_policy ?applies ?rows"]) (simp_all add: resolve_effective_assignments_def)
qed

definition has_access :: "admin_db \<Rightarrow> uuid \<Rightarrow> uuid \<Rightarrow> bool" where
  "has_access d u ds \<longleftrightarrow>
     (\<exists>a \<in> set (t_data_source_access d). dsa_data_source_id a = ds \<and>
        (dsa_assignment_scope a = ''all'' \<or>
         dsa_assignment_scope a = ''user'' \<and> dsa_user_id a = Some u \<or>
         dsa_assignment_scope a = ''role'' \<and> dsa_role_id a \<in> Some ` effective_roles d u))"

lemma resolve_datasource_access_eq:
  "resolve_datasource_access (open_conn d) u ds = Inr (has_access d u ds)"
proof -
  obtain rs where rs: "resolve_user_roles (open_conn d) u = Inr rs" "set rs = effective_roles d u"
    by (rule resolve_user_roles_total)
  have "access_matches u (effective_roles d u) a \<longleftrightarrow>
      dsa_assignment_scope a = ''all'' \<or>
      dsa_assignment_scope a = ''user'' \<and> dsa_user_id a = Some u \<or>
      dsa_assignment_scope a = ''role'' \<and> dsa_role_id a \<in> Some ` effective_roles d u" for a
    by (cases "dsa_role_id a") (auto simp: access_matches_def)
  with rs show ?thesis
    by (auto simp: resolve_datasource_access_def has_access_def list_ex_iff)
qed

section \<open>The two reports\<close>

lemma upsert_member_users:
  "eme_user_id ` set (upsert_member e xs) = insert (eme_user_id e) (eme_user_id ` set xs)"
  by (induction xs) auto

lemma upsert_member_distinct:
  "distinct (map eme_user_id xs) \<Longrightarrow> distinct (map eme_user_id (upsert_member e xs))"
  using upsert_member_users [of e] by (induction xs) (auto simp: image_iff)

lemma upsert_member_direct:
  "distinct (map eme_user_id xs) \<Longrightarrow>
   (\<exists>x \<in> set (upsert_member e xs). eme_user_id x = u \<and> eme_source x = ''direct'') \<longleftrightarrow>
   (eme_user_id e = u \<and> eme_source e = ''direct'') \<or>
   (\<exists>x \<in> set xs. eme_user_id x = u \<and> eme_source x = ''direct'')"
  by (induction xs) auto

lemma fold_upsert_member:
  assumes "distinct (map eme_user_id xs)"
  shows "distinct (map eme_user_id (fold upsert_member es xs))"
    "eme_user_id ` set (fold upsert_member es xs) = eme_user_id ` (set es \<union> set xs)"
    "(\<exists>x \<in> set (fold upsert_member es xs). eme_user_id x = u \<and> eme_source x = ''direct'') \<longleftrightarrow>
     (\<exists>x \<in> set es \<union> set xs. eme_user_id x = u \<and> eme_source x = ''direct'')"
  using assms
  by (induction es arbitrary: xs)
    (simp_all add: upsert_member_distinct upsert_member_users upsert_member_direct image_Un bex_Un ac_simps)

lemma role_source_direct:
  assumes "r \<in> insert r0 (set cs)" "r0 \<notin> set cs"
  shows "unwrap_or (collect_map ((r0, ''direct'') # map (\<lambda>c. (c, ''via role '' @ f c)) cs) r) [] = ''direct''
    \<longleftrightarrow> r = r0"
proof (cases "r = r0")
  case True
  with assms(2) show ?thesis by (auto simp: collect_map_def map_add_def split: option.splits dest!: map_of_SomeD)
next
  case False
  with assms(1) have "r \<in> fst ` set (map (\<lambda>c. (c, ''via role '' @ f c)) cs)" by force
  then have "map_of (rev (map (\<lambda>c. (c, ''via role '' @ f c)) cs)) r \<noteq> None"
    by (simp add: map_of_eq_None_iff)
  then obtain s where s: "map_of (rev (map (\<lambda>c. (c, ''via role '' @ f c)) cs)) r = Some s" by blast
  from map_of_SomeD [OF this] have "s \<noteq> ''direct''" by auto
  with s False show ?thesis by (simp add: collect_map_def map_add_def)
qed

lemma child_walk:
  assumes "visit (\<lambda>_. True) {r} (bucket (child_map es) r) = (V, seeds)"
  shows "insert r (set (walk_loop (child_map es) seeds V seeds)) = {c. (c, r) \<in> (edge_rel es)\<^sup>*}"
    "r \<notin> set (walk_loop (child_map es) seeds V seeds)"
proof -
  let ?adj = "bucket (child_map es)"
  have B: "map fst (bfs ?adj (\<lambda>_. True) None 0 [r]) = r # walk_loop (child_map es) seeds V seeds"
    using assms walk_loop_levels [of "map (\<lambda>x. (x, Suc 0)) seeds" seeds "child_map es" V seeds]
    by (simp add: bfs_def Let_def comp_def)
  from bfs_distinct [of "[r]" ?adj "\<lambda>_. True" None 0] show "r \<notin> set (walk_loop (child_map es) seeds V seeds)"
    unfolding B by simp
  have "set (r # walk_loop (child_map es) seeds V seeds) = fst ` set (bfs ?adj (\<lambda>_. True) None 0 [r])"
    unfolding B [symmetric] by simp
  also have "\<dots> = {c. (c, r) \<in> (edge_rel es)\<^sup>*}"
    by (subst bfs_reachable) (auto simp: rtrancl_converse)
  finally show "insert r (set (walk_loop (child_map es) seeds V seeds)) = {c. (c, r) \<in> (edge_rel es)\<^sup>*}"
    by simp
qed

lemma image_Collect_conj: "{f e | e. e \<in> S \<and> P e} = {u. \<exists>e \<in> S. f e = u \<and> P e}"
  by auto

lemma resolve_effective_members_total:
  obtains es where "resolve_effective_members (open_conn d) r = Inr es"
    "distinct (map eme_user_id es)"
    "eme_user_id ` set es = {u. \<exists>s. member_of d u s \<and> (s, r) \<in> (parent_rel d)\<^sup>*}"
    "{eme_user_id e | e. e \<in> set es \<and> eme_source e = ''direct''} = {u. member_of d u r}"
proof -
  let ?ed = "t_role_inheritance d"
  obtain V seeds where vis: "visit (\<lambda>_. True) {r} (bucket (child_map ?ed) r) = (V, seeds)" by fastforce
  let ?cs = "walk_loop (child_map ?ed) seeds V seeds"
  define names where "names = collect_map (map (\<lambda>r. (ro_id r, ro_name r)) (t_role d))"
  define src where "src = collect_map ((r, ''direct'') #
    map (\<lambda>c. (c, ''via role '' @ quote @ unwrap_or (names c) [] @ quote)) ?cs)"
  define ms where "ms = filter (\<lambda>m. rm_role_id m \<in> insert r (set ?cs)) (t_role_member d)"
  have src: "unwrap_or (src x) [] = ''direct'' \<longleftrightarrow> x = r" if "x \<in> insert r (set ?cs)" for x
    unfolding src_def by (rule role_source_direct [OF that child_walk(2) [OF vis]])
  obtain users where res: "resolve_effective_members (open_conn d) r = Inr (fold upsert_member
      (map (\<lambda>m. \<lparr> eme_user_id = rm_user_id m, eme_username = unwrap_or (users (rm_user_id m)) [],
         eme_source = unwrap_or (src (rm_role_id m)) [] \<rparr>) ms) [])"
    using vis by (cases "ms = []")
      (auto simp: resolve_effective_members_def names_def [symmetric] src_def ms_def fold_map comp_def image_image Let_def)
  let ?es = "map (\<lambda>m. \<lparr> eme_user_id = rm_user_id m, eme_username = unwrap_or (users (rm_user_id m)) [],
         eme_source = unwrap_or (src (rm_role_id m)) [] \<rparr>) ms"
  have ms: "set ms = {m \<in> set (t_role_member d). (rm_role_id m, r) \<in> (parent_rel d)\<^sup>*}"
    unfolding ms_def parent_rel_def child_walk(1) [OF vis] by simp
  show thesis
  proof (rule that [OF res])
    show "distinct (map eme_user_id (fold upsert_member ?es []))"
      by (rule fold_upsert_member) simp
    show "eme_user_id ` set (fold upsert_member ?es []) = {u. \<exists>s. member_of d u s \<and> (s, r) \<in> (parent_rel d)\<^sup>*}"
      by (subst fold_upsert_member(2)) (auto simp: ms member_of_def image_image)
    have "(\<exists>e \<in> set (fold upsert_member ?es []). eme_user_id e = u \<and> eme_source e = ''direct'') \<longleftrightarrow> member_of d u r" for u
      using src by (subst fold_upsert_member(3)) (auto simp: member_of_def ms_def)
    then show "{eme_user_id e | e. e \<in> set (fold upsert_member ?es []) \<and> eme_source e = ''direct''} =
      {u. member_of d u r}" by (simp only: image_Collect_conj)
  qed
qed

lemma assignment_source_applicable:
  "a \<in> set (t_policy_assignment d) \<Longrightarrow> pa_data_source_id a = ds \<Longrightarrow>
   assignment_source u (effective_roles d u) D roles a = None \<longleftrightarrow> \<not> applicable d u ds a"
  by (cases "pa_role_id a") (auto simp: assignment_source_def applicable_def Let_def)

lemma applicable_row: "applicable d u ds a \<Longrightarrow> a \<in> set (t_policy_assignment d) \<and> pa_data_source_id a = ds"
  by (simp add: applicable_def)

lemma collect_map_by_key:
  "collect_map (map (\<lambda>x. (key x, x)) xs) k = Some x \<Longrightarrow> x \<in> set xs \<and> key x = k"
  "(\<exists>x. collect_map (map (\<lambda>x. (key x, x)) xs) k = Some x) \<longleftrightarrow> k \<in> key ` set xs"
proof -
  show "collect_map (map (\<lambda>x. (key x, x)) xs) k = Some x \<Longrightarrow> x \<in> set xs \<and> key x = k"
    by (drule collect_map_Some_in) auto
  have "collect_map (map (\<lambda>x. (key x, x)) xs) k = None \<longleftrightarrow> k \<notin> key ` set xs"
    by (simp add: collect_map_None image_image)
  then show "(\<exists>x. collect_map (map (\<lambda>x. (key x, x)) xs) k = Some x) \<longleftrightarrow> k \<in> key ` set xs"
    by (cases "collect_map (map (\<lambda>x. (key x, x)) xs) k") auto
qed

lemma set_map_filter: "set (List.map_filter f xs) = {y. \<exists>x \<in> set xs. f x = Some y}"
  by (force simp: List.map_filter_def)

lemma fst_map_filter:
  "fst ` set (List.map_filter (\<lambda>a. map_option (Pair a) (f a)) xs) = {a \<in> set xs. f a \<noteq> None}"
  by (induction xs) (auto simp: map_filter_simps split: option.splits)

lemma bind_result_if: "bind_result (if c then Inr x else Inr y) f = f (if c then x else y)"
  by simp

lemma resolve_effective_policies_total:
  obtains es where "resolve_effective_policies (open_conn d) u ds nm = Inr es"
    "(\<lambda>e. (epe_policy_id e, epe_priority e)) ` set es =
       {(pa_policy_id a, pa_priority a) | a. applicable d u ds a \<and> pa_policy_id a \<in> po_id ` set (t_policy d)}"
proof -
  obtain rs where rs: "resolve_user_roles (open_conn d) u = Inr rs" "set rs = effective_roles d u"
    by (rule resolve_user_roles_total)
  let ?as = "filter (\<lambda>a. pa_data_source_id a = ds) (t_policy_assignment d)"
  define D where "D = set (map rm_role_id (filter (\<lambda>m. rm_user_id m = u) (t_role_member d)))"
  define roles where "roles = (if rs \<noteq> [] then
      collect_map (map (\<lambda>r. (ro_id r, ro_name r)) (filter (\<lambda>r. ro_id r \<in> set rs) (t_role d))) else Map.empty)"
  define en where "en = List.map_filter (\<lambda>a. map_option (Pair a)
      (assignment_source u (effective_roles d u) D roles a)) ?as"
  define pids where "pids = set (map (\<lambda>(a, _). pa_policy_id a) en)"
  define pol where "pol = (if en \<noteq> [] then
      collect_map (map (\<lambda>p. (po_id p, p)) (filter (\<lambda>p. po_id p \<in> pids) (t_policy d))) else Map.empty)"
  let ?entry = "\<lambda>a source p. \<lparr> epe_policy_id = po_id p, epe_policy_name = po_name p,
      epe_policy_type = po_policy_type p, epe_datasource_name = nm, epe_priority = pa_priority a,
      epe_source = source, epe_is_enabled = po_is_enabled p \<rparr>"
  let ?es = "List.map_filter (\<lambda>(a, source). map_option (?entry a source) (pol (pa_policy_id a))) en"
  have res: "resolve_effective_policies (open_conn d) u ds nm = Inr ?es"
    using rs by (simp add: resolve_effective_policies_def Let_def roles_def D_def en_def pol_def pids_def
        bind_result_if split del: if_split cong: if_cong)
  have en: "fst ` set en = {a. applicable d u ds a}"
  proof -
    have "x \<in> set ?as \<and> assignment_source u (effective_roles d u) D roles x \<noteq> None \<longleftrightarrow> applicable d u ds x" for x
      using assignment_source_applicable [of x d ds u D roles] applicable_row [of d u ds x] by auto
    then show ?thesis unfolding en_def fst_map_filter by blast
  qed
  have pol: "pol k = Some p \<Longrightarrow> po_id p = k" for k p
    by (auto simp: pol_def dest: collect_map_by_key(1) split: if_splits)
  have dom: "(\<exists>p. pol (pa_policy_id a) = Some p) \<longleftrightarrow> pa_policy_id a \<in> po_id ` set (t_policy d)"
    if "(a, s) \<in> set en" for a s
  proof -
    have "en \<noteq> []" "pa_policy_id a \<in> pids" using that by (auto simp: pids_def)
    then show ?thesis by (auto simp: pol_def collect_map_by_key(2))
  qed
  have "(\<lambda>e. (epe_policy_id e, epe_priority e)) ` set ?es =
      {(pa_policy_id a, pa_priority a) | a s. (a, s) \<in> set en \<and> (\<exists>p. pol (pa_policy_id a) = Some p)}"
    (is "_ = ?R")
  proof
    show "(\<lambda>e. (epe_policy_id e, epe_priority e)) ` set ?es \<subseteq> ?R"
    proof
      fix k assume "k \<in> (\<lambda>e. (epe_policy_id e, epe_priority e)) ` set ?es"
      then obtain a s p where k: "(a, s) \<in> set en" "pol (pa_policy_id a) = Some p" "k = (po_id p, pa_priority a)"
        by (auto simp: set_map_filter)
      with pol [OF k(2)] show "k \<in> ?R" by blast
    qed
    show "?R \<subseteq> (\<lambda>e. (epe_policy_id e, epe_priority e)) ` set ?es"
    proof clarify
      fix a s p assume *: "(a, s) \<in> set en" "pol (pa_policy_id a) = Some p"
      then have "?entry a s p \<in> set ?es" by (auto simp: set_map_filter intro!: bexI [of _ "(a, s)"])
      with pol [OF *(2)] show "(pa_policy_id a, pa_priority a) \<in> (\<lambda>e. (epe_policy_id e, epe_priority e)) ` set ?es"
        by (intro image_eqI) simp_all
    qed
  qed
  also have "\<dots> = {(pa_policy_id a, pa_priority a) | a. a \<in> fst ` set en \<and> pa_policy_id a \<in> po_id ` set (t_policy d)}"
  proof -
    have "(\<exists>s. (a, s) \<in> set en \<and> (\<exists>p. pol (pa_policy_id a) = Some p)) \<longleftrightarrow>
        a \<in> fst ` set en \<and> pa_policy_id a \<in> po_id ` set (t_policy d)" for a
    proof -
      have "a \<in> fst ` set en \<longleftrightarrow> (\<exists>s. (a, s) \<in> set en)" by force
      with dom [of a] show ?thesis by blast
    qed
    then show ?thesis by blast
  qed
  finally show thesis using res unfolding en mem_Collect_eq by (intro that)
qed

section \<open>The cycle message\<close>

text \<open>The nodes met when following the record from a node back to the start.\<close>

inductive trace :: "(uuid \<rightharpoonup> uuid) \<Rightarrow> uuid \<Rightarrow> uuid \<Rightarrow> uuid list \<Rightarrow> bool" for M p where
  trace_start: "trace M p p []"
| trace_step: "x \<noteq> p \<Longrightarrow> M x = Some y \<Longrightarrow> trace M p y ys \<Longrightarrow> trace M p x (y # ys)"

lemma rebuild_trace: "trace M p x ys \<Longrightarrow> rebuild M p x path = Some (path @ ys)"
  by (induction arbitrary: path rule: trace.induct) (simp_all add: rebuild.simps)

lemma trace_extend:
  assumes "trace M p x ys" "M n = None"
  shows "trace (M(n \<mapsto> u)) p x ys"
  using assms
proof (induction rule: trace.induct)
  case (trace_step x y ys)
  then show ?case by (intro trace.trace_step) auto
qed (rule trace_start)

lemma trace_path:
  assumes "trace M p x ys" "\<And>x y. M x = Some y \<Longrightarrow> (y, x) \<in> E"
  shows "successively (\<lambda>a b. (b, a) \<in> E) (x # ys)" "last (x # ys) = p"
  using assms by (induction rule: trace.induct) auto

definition path_inv :: "uuid rel \<Rightarrow> uuid \<Rightarrow> uuid set \<Rightarrow> (uuid \<rightharpoonup> uuid) \<Rightarrow> bool" where
  "path_inv E p Q M \<longleftrightarrow>
     (\<forall>x \<in> Q \<union> dom M. \<exists>ys. trace M p x ys) \<and> (\<forall>x y. M x = Some y \<longrightarrow> (y, x) \<in> E)"

lemma path_visit_inv:
  assumes "path_visit c u ps M = (f, M', new)" "path_inv E p Q M" "u \<in> Q" "\<forall>n \<in> set ps. (u, n) \<in> E"
  shows "path_inv E p (Q \<union> set new) M'"
  using assms
proof (induction c u ps M arbitrary: f M' new Q rule: path_visit.induct)
  case (2 c u n ps M)
  show ?case
  proof (cases "n \<noteq> c \<and> M n = None")
    case True
    obtain f' M'' new' where rec: "path_visit c u ps (M(n \<mapsto> u)) = (f', M'', new')"
      by (metis prod.exhaust)
    have ext: "\<exists>ys. trace (M(n \<mapsto> u)) p x ys" if "x \<in> Q \<union> dom M" for x
      using 2(4) that True trace_extend unfolding path_inv_def by blast
    have n: "\<exists>ys. trace (M(n \<mapsto> u)) p n ys"
      using ext [of u] 2(5) trace_start trace_step [of n p "M(n \<mapsto> u)" u] by (cases "n = p") auto
    have "path_inv E p (insert n Q) (M(n \<mapsto> u))"
      using 2(4,6) ext n unfolding path_inv_def by auto
    moreover have "u \<in> insert n Q" "\<forall>n \<in> set ps. (u, n) \<in> E" using 2(5,6) by auto
    ultimately have "path_inv E p (insert n Q \<union> set new') M''"
      by (rule 2(1) [OF conjunct1 [OF True] conjunct2 [OF True] rec])
    with True rec 2(3) show ?thesis by (auto simp: insert_commute)
  next
    case False
    with 2 show ?thesis by (auto split: if_splits)
  qed
qed simp

lemma path_visit_notfound:
  "path_visit c u ps M = (False, M', new) \<Longrightarrow>
     c \<notin> set ps \<and> set ps \<subseteq> dom M' \<and> dom M \<subseteq> dom M' \<and> dom M' - dom M \<subseteq> set new"
proof (induction c u ps M arbitrary: M' new rule: path_visit.induct)
  case (2 c u n ps M)
  show ?case
  proof (cases "n \<noteq> c \<and> M n = None")
    case True
    obtain f' M'' new' where rec: "path_visit c u ps (M(n \<mapsto> u)) = (f', M'', new')"
      by (metis prod.exhaust)
    with True 2(3) have *: "\<not> f'" "M'' = M'" "new = n # new'" by auto
    with rec have rec': "path_visit c u ps (M(n \<mapsto> u)) = (False, M', new')" by simp
    have "c \<notin> set ps \<and> set ps \<subseteq> dom M' \<and> dom (M(n \<mapsto> u)) \<subseteq> dom M' \<and> dom M' - dom (M(n \<mapsto> u)) \<subseteq> set new'"
      by (rule 2(1) [OF conjunct1 [OF True] conjunct2 [OF True] rec'])
    with True *(3) show ?thesis by auto
  next
    case False
    with 2 show ?thesis by (auto split: if_splits)
  qed
qed simp

lemma path_visit_found: "path_visit c u ps M = (True, M', new) \<Longrightarrow> c \<in> set ps"
  by (induction c u ps M arbitrary: M' new rule: path_visit.induct) (auto split: if_splits prod.splits)

lemma path_loop_found:
  assumes "path_loop pm c Q M = Some (u, M')" "path_inv E p (set Q) M"
    "succ_rel (bucket pm) (\<lambda>_. True) \<subseteq> E"
  obtains Q' where "path_inv E p Q' M'" "u \<in> Q'" "c \<in> set (bucket pm u)"
proof -
  have "\<exists>Q'. path_inv E p Q' M' \<and> u \<in> Q' \<and> c \<in> set (bucket pm u)"
    using assms
  proof (induction pm c Q M rule: path_loop.induct)
    case (2 pm c cur Q M)
    have tail: "path_inv E p (set Q) M" using 2(4) by (auto simp: path_inv_def)
    show ?case
    proof (cases "pm cur")
      case None
      with 2(3) have "path_loop pm c Q M = Some (u, M')" by simp
      from 2(1) [OF None this tail 2(5)] show ?thesis .
    next
      case (Some ps)
      obtain f V new where vis: "path_visit c cur ps M = (f, V, new)" by (metis prod.exhaust)
      have ps: "bucket pm cur = ps" using Some by (simp add: bucket_def)
      have "(cur, n) \<in> succ_rel (bucket pm) (\<lambda>_. True)" if "n \<in> set ps" for n
        using that ps by simp
      then have "\<forall>n \<in> set ps. (cur, n) \<in> E" using 2(5) by blast
      with 2(4) have inv: "path_inv E p (set (cur # Q) \<union> set new) V"
        by (intro path_visit_inv [OF vis]) simp_all
      show ?thesis
      proof (cases f)
        case True
        with Some vis 2(3) have "u = cur" "M' = V" by auto
        moreover have "c \<in> set (bucket pm cur)"
          using path_visit_found [of c cur ps M V new] vis True ps by simp
        ultimately show ?thesis using inv by (intro exI [of _ "set (cur # Q) \<union> set new"]) simp
      next
        case False
        with Some vis 2(3) have res: "path_loop pm c (Q @ new) V = Some (u, M')" by simp
        have "path_inv E p (set (Q @ new)) V" using inv by (auto simp: path_inv_def)
        from 2(2) [OF Some vis [symmetric] refl False res this 2(5)] show ?thesis .
      qed
    qed
  qed simp
  then show thesis using that by blast
qed

lemma path_loop_none:
  assumes "path_loop pm c Q M = None"
  obtains W where "dom M \<subseteq> W"
    "\<forall>x \<in> set Q \<union> (W - dom M). set (bucket pm x) \<subseteq> W \<and> c \<notin> set (bucket pm x)"
proof -
  have "\<exists>W. dom M \<subseteq> W \<and> (\<forall>x \<in> set Q \<union> (W - dom M). set (bucket pm x) \<subseteq> W \<and> c \<notin> set (bucket pm x))"
    using assms
  proof (induction pm c Q M rule: path_loop.induct)
    case (2 pm c cur Q M)
    show ?case
    proof (cases "pm cur")
      case None
      then have "bucket pm cur = []" by (simp add: bucket_def)
      with 2(1) [OF None] 2(3) None show ?thesis by simp
    next
      case (Some ps)
      obtain f V new where vis: "path_visit c cur ps M = (f, V, new)" by (metis prod.exhaust)
      have ps: "bucket pm cur = ps" using Some by (simp add: bucket_def)
      from Some vis 2(3) have f: "\<not> f" and res: "path_loop pm c (Q @ new) V = None" by (auto split: if_splits)
      from 2(2) [OF Some vis [symmetric] refl f res] obtain W where W: "dom V \<subseteq> W"
        "\<forall>x \<in> set (Q @ new) \<union> (W - dom V). set (bucket pm x) \<subseteq> W \<and> c \<notin> set (bucket pm x)" by blast
      have v: "c \<notin> set ps" "set ps \<subseteq> dom V" "dom M \<subseteq> dom V" "dom V - dom M \<subseteq> set new"
        using path_visit_notfound [of c cur ps M V new] vis f by simp_all
      have "set (bucket pm x) \<subseteq> W \<and> c \<notin> set (bucket pm x)" if "x \<in> set (cur # Q) \<union> (W - dom M)" for x
      proof (cases "x = cur")
        case True
        with ps v(1,2) W(1) show ?thesis by auto
      next
        case False
        with that v(4) have "x \<in> set (Q @ new) \<union> (W - dom V)" by auto
        with W(2) show ?thesis by blast
      qed
      moreover have "dom M \<subseteq> W" using W(1) v(3) by (rule order_trans [rotated])
      ultimately show ?thesis by (intro exI [of _ W]) simp
    qed
  next
    case (1 pm c M)
    show ?case by (rule exI [of _ "dom M"]) simp
  qed
  then show thesis using that by blast
qed

lemma cycle_path_None:
  assumes "cycle_path es p c = None"
  shows "(p, c) \<notin> (edge_rel es)\<^sup>+"
proof
  assume reach: "(p, c) \<in> (edge_rel es)\<^sup>+"
  have "path_loop (parent_map es) c [p] Map.empty = None"
    using assms by (simp add: cycle_path_def del: path_loop.simps)
  then obtain W where "dom (Map.empty :: uuid \<rightharpoonup> uuid) \<subseteq> W"
    and *: "\<forall>x \<in> set [p] \<union> (W - dom (Map.empty :: uuid \<rightharpoonup> uuid)).
      set (bucket (parent_map es) x) \<subseteq> W \<and> c \<notin> set (bucket (parent_map es) x)"
    by (rule path_loop_none)
  have W: "{n. (x, n) \<in> edge_rel es} \<subseteq> W \<and> (x, c) \<notin> edge_rel es" if "x = p \<or> x \<in> W" for x
    using bspec [OF *, of x] that by simp
  have "x \<in> W \<and> x \<noteq> c" if "(p, x) \<in> (edge_rel es)\<^sup>+" for x
    using that
  proof (induction rule: trancl_induct)
    case (base y)
    with W [of p] show ?case by blast
  next
    case (step y z)
    with W [of y] show ?case by blast
  qed
  with reach show False by blast
qed

lemma cycle_path_Some:
  assumes "cycle_path es p c = Some r"
  obtains mid where "r = Some (c # mid @ [c])" "mid \<noteq> []" "hd mid = p"
    "successively (\<lambda>a b. (a, b) \<in> edge_rel es) (mid @ [c])"
proof -
  obtain u M where loop: "path_loop (parent_map es) c [p] Map.empty = Some (u, M)"
    and r: "r = map_option (\<lambda>path. rev (path @ [c])) (rebuild M p u [c, u])"
    using assms by (auto simp: cycle_path_def simp del: path_loop.simps)
  have "path_inv (edge_rel es) p (set [p]) Map.empty"
    by (auto simp: path_inv_def intro: trace_start)
  from path_loop_found [OF loop this] obtain Q where
    inv: "path_inv (edge_rel es) p Q M" and u: "u \<in> Q" "(u, c) \<in> edge_rel es" by auto
  then obtain ys where ys: "trace M p u ys" unfolding path_inv_def by blast
  have E: "\<And>x y. M x = Some y \<Longrightarrow> (y, x) \<in> edge_rel es" using inv by (simp add: path_inv_def)
  let ?mid = "rev (u # ys)"
  have "r = Some (c # ?mid @ [c])" by (simp add: r rebuild_trace [OF ys])
  moreover have "hd ?mid = p" using trace_path(2) [OF ys E] by (metis hd_rev)
  moreover have "successively (\<lambda>a b. (a, b) \<in> edge_rel es) (?mid @ [c])"
    using trace_path(1) [OF ys E] u(2)
    unfolding successively_append_iff successively_rev by (simp del: rev.simps add: last_rev)
  ultimately show thesis using that by simp
qed

section \<open>Properties\<close>

text \<open>
  C21. Role resolution is exact: on a healthy database \<open>resolve_user_roles\<close> returns, without
  repetition, exactly the active roles the user is a member of and the roles reached from one of
  these through at most nine inheritance edges into active roles.
\<close>

theorem resolve_user_roles_exact:
  "\<exists>rs. resolve_user_roles (open_conn d) u = Inr rs \<and> distinct rs \<and> set rs = effective_roles d u"
  by (rule resolve_user_roles_total) blast

text \<open>
  \<open>detect_cycle\<close> decides whether the new edge would close a cycle: it answers true exactly
  when the child is the parent itself or an ancestor of the parent, at any distance.
\<close>

theorem detect_cycle_exact:
  "detect_cycle (open_conn d) parent_id child_id = Inr ((parent_id, child_id) \<in> (parent_rel d)\<^sup>*)"
  by (rule detect_cycle_eq)

text \<open>
  C22. Effective assignments: every assignment returned applies to the user on this data source, no
  policy is returned twice, and for every assignment that applies the list has one of the same
  policy whose priority number is not larger, so the lowest number wins.
\<close>

theorem effective_assignments_best:
  "\<exists>bs. resolve_effective_assignments (open_conn d) u ds = Inr bs \<and>
     distinct (map pa_policy_id bs) \<and> set bs \<subseteq> {a. applicable d u ds a} \<and>
     (\<forall>a. applicable d u ds a \<longrightarrow>
        (\<exists>b \<in> set bs. pa_policy_id b = pa_policy_id a \<and> pa_priority b \<le> pa_priority a))"
  by (rule resolve_effective_assignments_total [of d u ds]) (auto simp: best_inv_def)

text \<open>
  C26. Connection-time access: \<open>resolve_datasource_access\<close> answers true exactly when some access
  row of this data source is for everyone, for this user, or for one of the user's effective roles.
\<close>

theorem datasource_access_exact:
  "resolve_datasource_access (open_conn d) u ds = Inr (has_access d u ds)"
  by (rule resolve_datasource_access_eq)

text \<open>
  Invalidation reaches everyone a role affects: the users \<open>resolve_all_role_members\<close> returns
  for a role include every user who has that role effectively.
\<close>

theorem role_members_cover_effective:
  "\<exists>us. resolve_all_role_members (open_conn d) r = Inr us \<and> distinct us \<and>
     {u. r \<in> effective_roles d u} \<subseteq> set us"
proof -
  obtain us where us: "resolve_all_role_members (open_conn d) r = Inr us" "distinct us"
    "set us = {u. \<exists>s. member_of d u s \<and> (s, r) \<in> (parent_rel d)\<^sup>*}"
    by (rule resolve_all_role_members_total)
  have "u \<in> set us" if "r \<in> effective_roles d u" for u
    using effective_roles_reach [OF that] us(3) by blast
  with us(1,2) show ?thesis by (intro exI [of _ us] conjI) auto
qed

text \<open>
  The depth checks measure the inheritance graph: the number \<open>check_inheritance_depth\<close>
  returns bounds the distance to every ancestor and is reached by one of them; the same for
  \<open>check_inheritance_depth_down\<close> and the descendants.
\<close>

theorem inheritance_depth_eccentricity:
  "\<exists>up down. check_inheritance_depth (open_conn d) r = Inr up \<and> eccentricity (parent_rel d) r up \<and>
     check_inheritance_depth_down (open_conn d) r = Inr down \<and> eccentricity ((parent_rel d)\<inverse>) r down"
  by (rule check_inheritance_depth_ecc [of d r], rule check_inheritance_depth_down_ecc [of d r])
    (intro exI conjI)

text \<open>
  The member report: \<open>resolve_effective_members\<close> lists each user once, exactly the members
  of the role and of its descendants, and marks a user as direct exactly when the user is a member
  of the role itself, whatever the order of the rows.
\<close>

theorem effective_members_report:
  "\<exists>es. resolve_effective_members (open_conn d) r = Inr es \<and> distinct (map eme_user_id es) \<and>
     eme_user_id ` set es = {u. \<exists>s. member_of d u s \<and> (s, r) \<in> (parent_rel d)\<^sup>*} \<and>
     {eme_user_id e | e. e \<in> set es \<and> eme_source e = ''direct''} = {u. member_of d u r}"
  by (rule resolve_effective_members_total [of d r]) (intro exI conjI)

text \<open>
  The policy report agrees with enforcement: the policies \<open>resolve_effective_policies\<close> lists
  for a user on a data source are exactly the existing policies whose assignment
  \<open>resolve_effective_assignments\<close> selects for that user there.
\<close>

theorem effective_policies_report:
  "\<exists>es bs. resolve_effective_policies (open_conn d) u ds nm = Inr es \<and>
     resolve_effective_assignments (open_conn d) u ds = Inr bs \<and>
     epe_policy_id ` set es = pa_policy_id ` set bs \<inter> po_id ` set (t_policy d)"
proof -
  obtain es where es: "resolve_effective_policies (open_conn d) u ds nm = Inr es"
    "(\<lambda>e. (epe_policy_id e, epe_priority e)) ` set es =
       {(pa_policy_id a, pa_priority a) | a. applicable d u ds a \<and> pa_policy_id a \<in> po_id ` set (t_policy d)}"
    by (rule resolve_effective_policies_total)
  obtain bs where bs: "resolve_effective_assignments (open_conn d) u ds = Inr bs"
    "best_inv {a. applicable d u ds a} bs"
    by (rule resolve_effective_assignments_total)
  have "epe_policy_id ` set es = fst ` (\<lambda>e. (epe_policy_id e, epe_priority e)) ` set es"
    by (simp add: image_image)
  also have "\<dots> = pa_policy_id ` {a. applicable d u ds a} \<inter> po_id ` set (t_policy d)"
    unfolding es(2) by force
  also have "pa_policy_id ` {a. applicable d u ds a} = pa_policy_id ` set bs"
  proof
    show "pa_policy_id ` set bs \<subseteq> pa_policy_id ` {a. applicable d u ds a}"
      using bs(2) unfolding best_inv_def by (intro image_mono) simp
    show "pa_policy_id ` {a. applicable d u ds a} \<subseteq> pa_policy_id ` set bs"
      using bs(2) unfolding best_inv_def by (metis (no_types, lifting) image_eqI image_subsetI)
  qed
  finally show ?thesis using es(1) bs(1) by blast
qed

text \<open>
  C27. The cycle message shows a cycle: when the child is a proper ancestor of the parent,
  \<open>build_cycle_path\<close> returns, and the roles it names start and end with the child, go to the
  parent first and then only along existing inheritance edges.
\<close>

theorem cycle_message_is_cycle:
  assumes "(parent_id, child_id) \<in> (parent_rel d)\<^sup>+"
  shows "\<exists>mid. cycle_path (t_role_inheritance d) parent_id child_id = Some (Some (child_id # mid @ [child_id])) \<and>
     mid \<noteq> [] \<and> hd mid = parent_id \<and>
     successively (\<lambda>a b. (a, b) \<in> parent_rel d) (mid @ [child_id])"
proof (cases "cycle_path (t_role_inheritance d) parent_id child_id")
  case None
  with assms cycle_path_None show ?thesis by (auto simp: parent_rel_def)
next
  case (Some r)
  obtain mid where "r = Some (child_id # mid @ [child_id])" "mid \<noteq> []" "hd mid = parent_id"
    "successively (\<lambda>a b. (a, b) \<in> edge_rel (t_role_inheritance d)) (mid @ [child_id])"
    using cycle_path_Some [OF Some] .
  with Some show ?thesis by (intro exI [of _ mid]) (simp add: parent_rel_def)
qed

section \<open>A sample database\<close>

text \<open>
  Role 1 inherits from role 2 and role 2 from role 3; user 100 is a member of role 1. Policy 50 is
  assigned on data source 7 to everyone with priority 100 and to role 3 with priority 10.
\<close>

definition sample_db :: admin_db where
  "sample_db =
     \<lparr> t_role = map (\<lambda>(i, n). \<lparr> ro_id = i, ro_name = n, ro_description = None, ro_is_active = True,
                    ro_created_at = 0, ro_updated_at = 0 \<rparr>)
                [(1, ''analyst''), (2, ''staff''), (3, ''everyone'')],
       t_role_member = [\<lparr> rm_id = 11, rm_role_id = 1, rm_user_id = 100, rm_created_at = 0 \<rparr>],
       t_role_inheritance =
         [\<lparr> ri_id = 21, ri_parent_role_id = 2, ri_child_role_id = 1, ri_created_at = 0 \<rparr>,
          \<lparr> ri_id = 22, ri_parent_role_id = 3, ri_child_role_id = 2, ri_created_at = 0 \<rparr>],
       t_policy_assignment =
         [\<lparr> pa_id = 31, pa_policy_id = 50, pa_data_source_id = 7, pa_user_id = None, pa_role_id = None,
            pa_assignment_scope = ''all'', pa_priority = 100, pa_created_at = 0, pa_updated_at = 0 \<rparr>,
          \<lparr> pa_id = 32, pa_policy_id = 50, pa_data_source_id = 7, pa_user_id = None, pa_role_id = Some 3,
            pa_assignment_scope = ''role'', pa_priority = 10, pa_created_at = 0, pa_updated_at = 0 \<rparr>],
       t_data_source_access =
         [\<lparr> dsa_id = 41, dsa_user_id = None, dsa_role_id = Some 2, dsa_data_source_id = 7,
            dsa_assignment_scope = ''role'', dsa_created_at = 0 \<rparr>],
       t_policy = [], t_proxy_user = [], t_data_source = [], t_policy_version = [],
       t_catalog = \<lparr> t_attribute_definition = [], t_decision_function = [], t_discovered_schema = [], t_discovered_table = [],
         t_discovered_column = [], t_table_relationship = [], t_column_anchor = [] \<rparr> \<rparr>"

theorem effective_assignments_best_witness:
  "map_sum id (map pa_id) (resolve_effective_assignments (open_conn sample_db) 100 7) = Inr [32] \<and>
   (\<exists>bs. resolve_effective_assignments (open_conn sample_db) 100 7 = Inr bs \<and>
     distinct (map pa_policy_id bs) \<and> set bs \<subseteq> {a. applicable sample_db 100 7 a} \<and>
     (\<forall>a. applicable sample_db 100 7 a \<longrightarrow>
        (\<exists>b \<in> set bs. pa_policy_id b = pa_policy_id a \<and> pa_priority b \<le> pa_priority a)))"
proof
  show "map_sum id (map pa_id) (resolve_effective_assignments (open_conn sample_db) 100 7) = Inr [32]"
    by code_simp
qed (rule effective_assignments_best)

theorem cycle_message_is_cycle_witness:
  "cycle_path (t_role_inheritance sample_db) 1 3 = Some (Some [3, 1, 2, 3]) \<and>
   (\<exists>mid. cycle_path (t_role_inheritance sample_db) 1 3 = Some (Some (3 # mid @ [3])) \<and>
     mid \<noteq> [] \<and> hd mid = 1 \<and> successively (\<lambda>a b. (a, b) \<in> parent_rel sample_db) (mid @ [3]))"
proof
  show "cycle_path (t_role_inheritance sample_db) 1 3 = Some (Some [3, 1, 2, 3])"
    by code_simp
  have "(1, 2) \<in> parent_rel sample_db" "(2, 3) \<in> parent_rel sample_db"
    by (simp_all add: parent_rel_def edge_rel_def sample_db_def)
  then have "(1, 3) \<in> (parent_rel sample_db)\<^sup>+" by (meson trancl.simps)
  then show "\<exists>mid. cycle_path (t_role_inheritance sample_db) 1 3 = Some (Some (3 # mid @ [3])) \<and>
     mid \<noteq> [] \<and> hd mid = 1 \<and> successively (\<lambda>a b. (a, b) \<in> parent_rel sample_db) (mid @ [3])"
    by (rule cycle_message_is_cycle)
qed

end
