(* ===== verification/AdminTxn.thy ===== *)
theory AdminTxn
  imports RoleResolver
begin

text \<open>
  What the handlers of the admin API share: the error type of \<open>proxy/src/admin/mod.rs\<close>, the audited
  transaction of \<open>proxy/src/admin/admin_audit.rs\<close>, the statements on the admin database with the
  constraints the migrations declare, and the world a handler runs in.

  The world holds the committed tables and audit log, the effects outside the database in the order
  they happen (\<open>admin_event\<close>), and what the coming database statements will do: each statement
  consumes one entry of \<open>w_faults\<close>, where \<open>Some e\<close> makes it fail with \<open>e\<close> and \<open>None\<close>, or the end
  of the list, lets it run. A statement of an open transaction works on the transaction's copy of the
  tables; only \<open>commit\<close> makes it the committed state, and dropping the transaction forgets it.
\<close>

section \<open>Errors\<close>

datatype status_code =
    NO_CONTENT | CREATED | OK_200 | ACCEPTED | BAD_REQUEST | UNAUTHORIZED | FORBIDDEN | NOT_FOUND | CONFLICT
  | UNPROCESSABLE_ENTITY | INTERNAL_SERVER_ERROR

datatype api_err = ApiErr (ae_status: status_code) (ae_message: string)

definition internal :: "db_err \<Rightarrow> api_err" where
  "internal e = ApiErr INTERNAL_SERVER_ERROR e"

definition not_found :: "string \<Rightarrow> api_err" where
  "not_found msg = ApiErr NOT_FOUND msg"

definition conflict :: "string \<Rightarrow> api_err" where
  "conflict msg = ApiErr CONFLICT msg"

text \<open>The handlers recognise a violated unique constraint by the text of the error.\<close>

definition is_unique_err :: "db_err \<Rightarrow> bool" where
  "is_unique_err msg = (str_contains msg ''UNIQUE'' \<or> str_contains msg ''unique'')"

definition conflict_or_internal :: "string \<Rightarrow> db_err \<Rightarrow> api_err" where
  "conflict_or_internal msg e = (if is_unique_err e then conflict msg else internal e)"

section \<open>The audit log\<close>

datatype AuditAction =
    Create | Update | Delete | Deactivate | Reactivate | AddMember | RemoveMember
  | AddInheritance | RemoveInheritance | Assign | Unassign

fun action_str :: "AuditAction \<Rightarrow> string" where
  "action_str Create = ''create''"
| "action_str Update = ''update''"
| "action_str Delete = ''delete''"
| "action_str Deactivate = ''deactivate''"
| "action_str Reactivate = ''reactivate''"
| "action_str AddMember = ''add_member''"
| "action_str RemoveMember = ''remove_member''"
| "action_str AddInheritance = ''add_inheritance''"
| "action_str RemoveInheritance = ''remove_inheritance''"
| "action_str Assign = ''assign''"
| "action_str Unassign = ''unassign''"

record audit_entry =
  en_resource_type :: string
  en_resource_id :: uuid
  en_action :: AuditAction
  en_actor_id :: uuid
  en_changes :: json

text \<open>A row of \<open>admin_audit_log\<close>; its generated id is left out and the changes are kept as a value.\<close>

record audit_row =
  aa_resource_type :: string
  aa_resource_id :: uuid
  aa_action :: string
  aa_actor_id :: uuid
  aa_changes :: "json option"
  aa_created_at :: datetime

section \<open>The world of a handler\<close>

datatype admin_event =
    Committed
  | InvalidateUser uuid
  | InvalidateDatasource string
  | RebuildDatasource string
  | InvalidateEngine string

record world =
  w_db :: admin_db
  w_audit :: "audit_row list"
  w_events :: "admin_event list"
  w_faults :: "db_err option list"

text \<open>
  What a handler takes from its environment: the time, the identifiers \<open>Uuid::now_v7\<close> will
  return, one after the other, and the text form of an identifier.
\<close>

record env =
  e_now :: datetime
  e_ids :: "nat \<Rightarrow> uuid"
  e_uuid_str :: "uuid \<Rightarrow> string"

record txn =
  tx_db :: admin_db
  tx_entries :: "audit_entry list"

type_synonym 'a adm = "world \<Rightarrow> (api_err, 'a) result \<times> world"

definition ret :: "'a \<Rightarrow> 'a adm" where
  "ret x w = (Inr x, w)"

definition fail :: "api_err \<Rightarrow> 'a adm" where
  "fail e w = (Inl e, w)"

definition bind_adm :: "'a adm \<Rightarrow> ('a \<Rightarrow> 'b adm) \<Rightarrow> 'b adm" where
  "bind_adm m f w = (case m w of (Inl e, w') \<Rightarrow> (Inl e, w') | (Inr x, w') \<Rightarrow> f x w')"

definition from_result :: "(api_err, 'a) result \<Rightarrow> 'a adm" where
  "from_result r w = (r, w)"

text \<open>What the next statement will do, and the world after asking.\<close>

definition next_fault :: "world \<Rightarrow> db_err option \<times> world" where
  "next_fault w = (case w_faults w of [] \<Rightarrow> (None, w) | f # fs \<Rightarrow> (f, w\<lparr>w_faults := fs\<rparr>))"

text \<open>A read of the committed tables, a call of the resolver on them, and an effect outside the database.\<close>

definition query :: "(db_err \<Rightarrow> api_err) \<Rightarrow> (admin_db \<Rightarrow> 'a) \<Rightarrow> 'a adm" where
  "query conv q w = (case next_fault w of
     (Some e, w') \<Rightarrow> (Inl (conv e), w')
   | (None, w') \<Rightarrow> (Inr (q (w_db w')), w'))"

definition call :: "(db_err \<Rightarrow> api_err) \<Rightarrow> (conn \<Rightarrow> (db_err, 'a) result) \<Rightarrow> admin_db \<Rightarrow> 'a adm" where
  "call conv f d w = (case next_fault w of
     (Some e, w') \<Rightarrow> (Inl (conv e), w')
   | (None, w') \<Rightarrow> (map_err conv (f (open_conn d)), w'))"

definition emit :: "admin_event \<Rightarrow> unit adm" where
  "emit e w = (Inr (), w\<lparr>w_events := w_events w @ [e]\<rparr>)"

fun for_each :: "('a \<Rightarrow> unit adm) \<Rightarrow> 'a list \<Rightarrow> unit adm" where
  "for_each f [] = ret ()"
| "for_each f (x # xs) = bind_adm (f x) (\<lambda>_. for_each f xs)"

section \<open>Transactions\<close>

definition begin_txn :: "txn adm" where
  "begin_txn w = (case next_fault w of
     (Some e, w') \<Rightarrow> (Inl (internal e), w')
   | (None, w') \<Rightarrow> (Inr \<lparr> tx_db = w_db w', tx_entries = [] \<rparr>, w'))"

definition exec ::
  "(db_err \<Rightarrow> api_err) \<Rightarrow> txn \<Rightarrow> (admin_db \<Rightarrow> (db_err, admin_db) result) \<Rightarrow> txn adm" where
  "exec conv t op w = (case next_fault w of
     (Some e, w') \<Rightarrow> (Inl (conv e), w')
   | (None, w') \<Rightarrow>
       (case op (tx_db t) of
          Inl e \<Rightarrow> (Inl (conv e), w')
        | Inr d \<Rightarrow> (Inr (t\<lparr>tx_db := d\<rparr>), w')))"

definition tx_query :: "(db_err \<Rightarrow> api_err) \<Rightarrow> txn \<Rightarrow> (admin_db \<Rightarrow> 'a) \<Rightarrow> 'a adm" where
  "tx_query conv t q w = (case next_fault w of
     (Some e, w') \<Rightarrow> (Inl (conv e), w')
   | (None, w') \<Rightarrow> (Inr (q (tx_db t)), w'))"

definition audit :: "txn \<Rightarrow> string \<Rightarrow> uuid \<Rightarrow> AuditAction \<Rightarrow> uuid \<Rightarrow> json \<Rightarrow> txn" where
  "audit t resource_type resource_id action actor_id changes =
     t\<lparr>tx_entries := tx_entries t @
       [\<lparr> en_resource_type = resource_type, en_resource_id = resource_id, en_action = action,
          en_actor_id = actor_id, en_changes = changes \<rparr>]\<rparr>"

definition audit_log :: "env \<Rightarrow> audit_entry \<Rightarrow> audit_row" where
  "audit_log ev en =
     \<lparr> aa_resource_type = en_resource_type en, aa_resource_id = en_resource_id en,
       aa_action = action_str (en_action en), aa_actor_id = en_actor_id en,
       aa_changes = Some (en_changes en), aa_created_at = e_now ev \<rparr>"

text \<open>One insert per queued entry, each of which may fail; the rows become visible with the commit.\<close>

fun write_entries :: "env \<Rightarrow> audit_entry list \<Rightarrow> audit_row list adm" where
  "write_entries ev [] w = (Inr [], w)"
| "write_entries ev (en # es) w = (case next_fault w of
     (Some e, w') \<Rightarrow> (Inl (internal e), w')
   | (None, w') \<Rightarrow>
       (case write_entries ev es w' of
          (Inl e, w'') \<Rightarrow> (Inl e, w'')
        | (Inr rows, w'') \<Rightarrow> (Inr (audit_log ev en # rows), w'')))"

definition commit :: "env \<Rightarrow> txn \<Rightarrow> unit adm" where
  "commit ev t =
     (if tx_entries t = [] then fail (internal ''AuditedTxn::commit() called with no audit entries queued'')
      else bind_adm (write_entries ev (tx_entries t)) (\<lambda>rows w.
        case next_fault w of
          (Some e, w') \<Rightarrow> (Inl (internal e), w')
        | (None, w') \<Rightarrow> (Inr (), w'\<lparr>w_db := tx_db t, w_audit := w_audit w' @ rows,
                                 w_events := w_events w' @ [Committed]\<rparr>)))"

section \<open>Reasoning about handlers\<close>

text \<open>
  \<open>wp m Q E w\<close>: run in world \<open>w\<close>, the handler ends with a value and world satisfying \<open>Q\<close>, or
  with an error in a world satisfying \<open>E\<close>. The rules below leave open which statements fail, so what
  is proved with them holds for every \<open>w_faults\<close>.
\<close>

definition wp :: "'a adm \<Rightarrow> ('a \<Rightarrow> world \<Rightarrow> bool) \<Rightarrow> (world \<Rightarrow> bool) \<Rightarrow> world \<Rightarrow> bool" where
  "wp m Q E w = (case m w of (Inr x, w') \<Rightarrow> Q x w' | (Inl e, w') \<Rightarrow> E w')"

text \<open>Two worlds that differ at most in the statements to come.\<close>

definition same :: "world \<Rightarrow> world \<Rightarrow> bool" where
  "same w w' \<longleftrightarrow> w_db w' = w_db w \<and> w_audit w' = w_audit w \<and> w_events w' = w_events w"

lemma same_refl [simp]: "same w w"
  by (simp add: same_def)

lemma same_trans [trans]: "same w w' \<Longrightarrow> same w' w'' \<Longrightarrow> same w w''"
  by (simp add: same_def)

named_theorems wp_intros

lemma wp_snd:
  assumes "wp m (\<lambda>_. P) P w"
  shows "P (snd (m w))"
  using assms by (cases "m w") (auto simp: wp_def split: sum.splits)

lemma wp_conseq:
  assumes "wp m Q' E' w" "\<And>x w'. Q' x w' \<Longrightarrow> Q x w'" "\<And>w'. E' w' \<Longrightarrow> E w'"
  shows "wp m Q E w"
  using assms by (auto simp: wp_def split: sum.splits prod.splits)

lemma wp_bind [wp_intros]: "wp m (\<lambda>x. wp (f x) Q E) E w \<Longrightarrow> wp (bind_adm m f) Q E w"
  by (auto simp: wp_def bind_adm_def split: sum.splits prod.splits)

lemma wp_ret [wp_intros]: "Q x w \<Longrightarrow> wp (ret x) Q E w"
  by (simp add: wp_def ret_def)

lemma wp_fail [wp_intros]: "E w \<Longrightarrow> wp (fail e) Q E w"
  by (simp add: wp_def fail_def)

lemma wp_from_result [wp_intros]:
  "(\<And>x. r = Inr x \<Longrightarrow> Q x w) \<Longrightarrow> E w \<Longrightarrow> wp (from_result r) Q E w"
  by (auto simp: wp_def from_result_def split: sum.splits)

lemma wp_emit [wp_intros]: "Q () (w\<lparr>w_events := w_events w @ [e]\<rparr>) \<Longrightarrow> wp (emit e) Q E w"
  by (simp add: wp_def emit_def)

lemma next_fault_same: "next_fault w = (f, w') \<Longrightarrow> same w w'"
  by (auto simp: next_fault_def same_def split: list.splits)

lemma wp_query [wp_intros]:
  assumes "\<And>w'. same w w' \<Longrightarrow> Q (q (w_db w)) w'" "\<And>w'. same w w' \<Longrightarrow> E w'"
  shows "wp (query conv q) Q E w"
proof -
  obtain f w' where nf: "next_fault w = (f, w')" by fastforce
  with next_fault_same [OF nf] assms show ?thesis
    by (cases f) (auto simp: wp_def query_def same_def)
qed

lemma wp_call [wp_intros]:
  assumes "\<And>x w'. f (open_conn d) = Inr x \<Longrightarrow> same w w' \<Longrightarrow> Q x w'" "\<And>w'. same w w' \<Longrightarrow> E w'"
  shows "wp (call conv f d) Q E w"
proof -
  obtain g w' where nf: "next_fault w = (g, w')" by fastforce
  with next_fault_same [OF nf] assms show ?thesis
    by (cases g; cases "f (open_conn d)") (auto simp: wp_def call_def)
qed

lemma wp_call_db [wp_intros]:
  assumes "\<And>x w'. f (open_conn (w_db w)) = Inr x \<Longrightarrow> same w w' \<Longrightarrow> Q x w'" "\<And>w'. same w w' \<Longrightarrow> E w'"
  shows "wp (\<lambda>w. call conv f (w_db w) w) Q E w"
  using wp_call [of f "w_db w" w Q E conv] assms by (simp add: wp_def)

lemma wp_tx_query [wp_intros]:
  assumes "\<And>w'. same w w' \<Longrightarrow> Q (q (tx_db t)) w'" "\<And>w'. same w w' \<Longrightarrow> E w'"
  shows "wp (tx_query conv t q) Q E w"
proof -
  obtain f w' where nf: "next_fault w = (f, w')" by fastforce
  with next_fault_same [OF nf] assms show ?thesis
    by (cases f) (auto simp: wp_def tx_query_def)
qed

lemma wp_begin [wp_intros]:
  assumes "\<And>w'. same w w' \<Longrightarrow> Q \<lparr> tx_db = w_db w, tx_entries = [] \<rparr> w'" "\<And>w'. same w w' \<Longrightarrow> E w'"
  shows "wp begin_txn Q E w"
proof -
  obtain f w' where nf: "next_fault w = (f, w')" by fastforce
  with next_fault_same [OF nf] assms show ?thesis
    by (cases f) (auto simp: wp_def begin_txn_def same_def)
qed

lemma wp_exec [wp_intros]:
  assumes "\<And>d w'. op (tx_db t) = Inr d \<Longrightarrow> same w w' \<Longrightarrow> Q (t\<lparr>tx_db := d\<rparr>) w'" "\<And>w'. same w w' \<Longrightarrow> E w'"
  shows "wp (exec conv t op) Q E w"
proof -
  obtain f w' where nf: "next_fault w = (f, w')" by fastforce
  with next_fault_same [OF nf] assms show ?thesis
    by (cases f; cases "op (tx_db t)") (auto simp: wp_def exec_def)
qed

lemma write_entries_same:
  "write_entries ev es w = (r, w') \<Longrightarrow> same w w' \<and> (\<forall>rows. r = Inr rows \<longrightarrow> rows = map (audit_log ev) es)"
proof (induction ev es w arbitrary: r w' rule: write_entries.induct)
  case (2 ev en es w)
  obtain f w1 where nf: "next_fault w = (f, w1)" by fastforce
  show ?case
  proof (cases f)
    case None
    obtain r2 w2 where rec: "write_entries ev es w1 = (r2, w2)" by fastforce
    from 2(1) [OF nf [symmetric] None rec] have "same w1 w2" "\<forall>rows. r2 = Inr rows \<longrightarrow> rows = map (audit_log ev) es"
      by auto
    with next_fault_same [OF nf] 2(2) nf None rec show ?thesis
      by (cases r2) (auto intro: same_trans)
  qed (use 2 nf next_fault_same [OF nf] in auto)
qed simp

lemma wp_commit [wp_intros]:
  assumes "\<And>w'. tx_entries t \<noteq> [] \<Longrightarrow>
      w_db w' = tx_db t \<Longrightarrow> w_audit w' = w_audit w @ map (audit_log ev) (tx_entries t) \<Longrightarrow>
      w_events w' = w_events w @ [Committed] \<Longrightarrow> Q () w'"
    and "\<And>w'. same w w' \<Longrightarrow> E w'"
  shows "wp (commit ev t) Q E w"
proof (cases "tx_entries t = []")
  case True
  with assms(2) show ?thesis by (simp add: wp_def commit_def fail_def)
next
  case False
  obtain r w1 where wr: "write_entries ev (tx_entries t) w = (r, w1)" by fastforce
  obtain f w2 where nf: "next_fault w1 = (f, w2)" by fastforce
  from write_entries_same [OF wr] next_fault_same [OF nf]
  have s: "same w w1" "same w w2" "r = Inr rows \<Longrightarrow> rows = map (audit_log ev) (tx_entries t)" for rows
    by (auto intro: same_trans)
  show ?thesis
  proof (cases "\<exists>rows. r = Inr rows \<and> f = None")
    case True
    then obtain rows where "r = Inr rows" "f = None" by blast
    with False wr nf s show ?thesis
      by (auto simp: wp_def commit_def bind_adm_def same_def intro!: assms(1))
  next
    case no: False
    with False wr nf s(1,2) assms(2) show ?thesis
      by (cases r; cases f) (auto simp: wp_def commit_def bind_adm_def)
  qed
qed

lemma wp_if [wp_intros]: "(c \<Longrightarrow> wp m Q E w) \<Longrightarrow> (\<not> c \<Longrightarrow> wp n Q E w) \<Longrightarrow> wp (if c then m else n) Q E w"
  by simp

lemma wp_case_option [wp_intros]:
  "(x = None \<Longrightarrow> wp m Q E w) \<Longrightarrow> (\<And>y. x = Some y \<Longrightarrow> wp (n y) Q E w) \<Longrightarrow>
   wp (case x of None \<Rightarrow> m | Some y \<Rightarrow> n y) Q E w"
  by (cases x) simp_all

lemma wp_let [wp_intros]: "(\<And>y. y = x \<Longrightarrow> wp (f y) Q E w) \<Longrightarrow> wp (let y = x in f y) Q E w"
  by simp

lemma wp_for_each:
  assumes "I w" "\<And>x w. x \<in> set xs \<Longrightarrow> I w \<Longrightarrow> wp (f x) (\<lambda>_. I) E w" "\<And>w. I w \<Longrightarrow> Q () w"
  shows "wp (for_each f xs) Q E w"
  using assms(1,2)
proof (induction xs arbitrary: w)
  case Nil
  with assms(3) show ?case by (simp add: wp_ret)
next
  case (Cons x xs)
  have "wp (f x) (\<lambda>_. I) E w" using Cons.prems by simp
  moreover have "wp (for_each f xs) Q E w'" if "I w'" for w'
    using that Cons.prems(2) by (intro Cons.IH) simp_all
  ultimately have "wp (f x) (\<lambda>_. wp (for_each f xs) Q E) E w"
    by (rule wp_conseq)
  then show ?case by (simp add: wp_bind)
qed

text \<open>The tables move only together with the audit log, and every new audit row names the actor.\<close>

definition audited :: "uuid \<Rightarrow> world \<Rightarrow> world \<Rightarrow> bool" where
  "audited actor w w' \<longleftrightarrow>
     (\<exists>rows. w_audit w' = w_audit w @ rows \<and> (\<forall>r \<in> set rows. aa_actor_id r = actor) \<and>
        (rows = [] \<longrightarrow> w_db w' = w_db w))"

definition by_actor :: "uuid \<Rightarrow> txn \<Rightarrow> bool" where
  "by_actor actor t \<longleftrightarrow> (\<forall>e \<in> set (tx_entries t). en_actor_id e = actor)"

lemma by_actor_simps [simp]:
  "by_actor actor \<lparr> tx_db = d, tx_entries = [] \<rparr>"
  "by_actor actor (t\<lparr>tx_db := d\<rparr>) = by_actor actor t"
  "by_actor actor (audit t rt ri ac actor ch) = by_actor actor t"
  by (auto simp: by_actor_def audit_def)

lemma audit_simps [simp]:
  "tx_db (audit t rt ri ac actor ch) = tx_db t"
  "tx_entries (audit t rt ri ac actor ch) \<noteq> []"
  by (simp_all add: audit_def)

text \<open>
  What a handler may do to the committed state: nothing, or move the tables along \<open>R\<close> under an audited
  commit. Events may be added at any time.
\<close>

definition step_ok :: "(admin_db \<Rightarrow> admin_db \<Rightarrow> bool) \<Rightarrow> uuid \<Rightarrow> world \<Rightarrow> world \<Rightarrow> bool" where
  "step_ok R actor w w' \<longleftrightarrow> R (w_db w) (w_db w') \<and> audited actor w w'"

definition quiet :: "world \<Rightarrow> world \<Rightarrow> bool" where
  "quiet w w' \<longleftrightarrow> w_db w' = w_db w \<and> w_audit w' = w_audit w"

lemma quiet_refl [simp]: "quiet w w"
  by (simp add: quiet_def)

lemma same_quiet: "same w w' \<Longrightarrow> quiet w w'"
  by (simp add: same_def quiet_def)

lemma quiet_trans: "quiet w w' \<Longrightarrow> quiet w' w'' \<Longrightarrow> quiet w w''"
  by (simp add: quiet_def)

lemma quiet_events [simp]: "quiet w (w'\<lparr>w_events := es\<rparr>) = quiet w w'"
  by (simp add: quiet_def)

lemma step_ok_quiet: "reflp R \<Longrightarrow> quiet w w' \<Longrightarrow> step_ok R actor w w'"
  by (auto simp: step_ok_def quiet_def audited_def reflp_def)

lemma step_ok_then_quiet: "step_ok R actor w w' \<Longrightarrow> quiet w' w'' \<Longrightarrow> step_ok R actor w w''"
  by (auto simp: step_ok_def quiet_def audited_def)

lemma step_ok_commit:
  assumes "quiet w w1" "R (w_db w) (tx_db t)" "by_actor actor t" "tx_entries t \<noteq> []"
    "w_db w' = tx_db t" "w_audit w' = w_audit w1 @ map (audit_log ev) (tx_entries t)"
  shows "step_ok R actor w w'"
  using assms by (auto simp: step_ok_def audited_def quiet_def by_actor_def audit_log_def)

end
