(* ===== verification/RoleAdmin.thy ===== *)
theory RoleAdmin
  imports AdminTxn
begin

text \<open>
  Model of \<open>proxy/src/admin/role_handlers.rs\<close>: the handlers that change roles, memberships,
  inheritance and role-based data source access, with their audit entries and cache invalidations,
  over the statements of the admin database and the constraints the migrations give its tables. An
  abstract relation \<open>role_change\<close> says what each accepted request may do to the tables; the handlers
  are shown to refine it for every pattern of database failures, and the invariants of the role graph
  follow for every reachable state.
\<close>

section \<open>Statements and their constraints\<close>

definition unique_violation :: db_err where
  "unique_violation = ''UNIQUE constraint failed''"

definition foreign_key_violation :: db_err where
  "foreign_key_violation = ''FOREIGN KEY constraint failed''"

definition record_not_updated :: db_err where
  "record_not_updated = ''None of the records are updated''"

definition has_key :: "('r \<Rightarrow> 'k) \<Rightarrow> 'k \<Rightarrow> 'r list \<Rightarrow> bool" where
  "has_key key k rows = list_ex (\<lambda>r. key r = k) rows"

lemma has_key_iff [simp]: "has_key key k rows \<longleftrightarrow> k \<in> key ` set rows"
  by (auto simp: has_key_def list_ex_iff)

definition insert_role :: "role_row \<Rightarrow> admin_db \<Rightarrow> (db_err, admin_db) result" where
  "insert_role r d =
     (if has_key ro_id (ro_id r) (t_role d) \<or> has_key ro_name (ro_name r) (t_role d)
      then Inl unique_violation
      else Inr (d\<lparr>t_role := t_role d @ [r]\<rparr>))"

text \<open>An update sets columns of the row with this id; the new row is computed by \<open>f\<close>.\<close>

definition update_role_row :: "uuid \<Rightarrow> (role_row \<Rightarrow> role_row) \<Rightarrow> admin_db \<Rightarrow> (db_err, admin_db) result" where
  "update_role_row i f d =
     (case find_row ro_id i (t_role d) of
        None \<Rightarrow> Inl record_not_updated
      | Some r \<Rightarrow>
          if list_ex (\<lambda>r'. ro_id r' \<noteq> i \<and> ro_name r' = ro_name (f r)) (t_role d) then Inl unique_violation
          else Inr (d\<lparr>t_role := map (\<lambda>r. if ro_id r = i then f r else r) (t_role d)\<rparr>))"

text \<open>Deleting a role cascades to its memberships and to the inheritance edges on either side.\<close>

definition delete_role_row :: "uuid \<Rightarrow> admin_db \<Rightarrow> (db_err, admin_db) result" where
  "delete_role_row i d =
     Inr (d\<lparr>t_role := filter (\<lambda>r. ro_id r \<noteq> i) (t_role d),
            t_role_member := filter (\<lambda>m. rm_role_id m \<noteq> i) (t_role_member d),
            t_role_inheritance :=
              filter (\<lambda>e. ri_parent_role_id e \<noteq> i \<and> ri_child_role_id e \<noteq> i) (t_role_inheritance d)\<rparr>)"

definition insert_role_member :: "role_member_row \<Rightarrow> admin_db \<Rightarrow> (db_err, admin_db) result" where
  "insert_role_member m d =
     (if has_key rm_id (rm_id m) (t_role_member d) \<or>
         has_key (\<lambda>x. (rm_role_id x, rm_user_id x)) (rm_role_id m, rm_user_id m) (t_role_member d)
      then Inl unique_violation
      else if \<not> has_key ro_id (rm_role_id m) (t_role d) \<or> \<not> has_key pu_id (rm_user_id m) (t_proxy_user d)
      then Inl foreign_key_violation
      else Inr (d\<lparr>t_role_member := t_role_member d @ [m]\<rparr>))"

definition delete_role_member :: "uuid \<Rightarrow> admin_db \<Rightarrow> (db_err, admin_db) result" where
  "delete_role_member i d = Inr (d\<lparr>t_role_member := filter (\<lambda>m. rm_id m \<noteq> i) (t_role_member d)\<rparr>)"

definition insert_role_inheritance :: "role_inheritance_row \<Rightarrow> admin_db \<Rightarrow> (db_err, admin_db) result" where
  "insert_role_inheritance e d =
     (if has_key ri_id (ri_id e) (t_role_inheritance d) \<or>
         has_key (\<lambda>x. (ri_parent_role_id x, ri_child_role_id x)) (ri_parent_role_id e, ri_child_role_id e)
           (t_role_inheritance d)
      then Inl unique_violation
      else if \<not> has_key ro_id (ri_parent_role_id e) (t_role d) \<or> \<not> has_key ro_id (ri_child_role_id e) (t_role d)
      then Inl foreign_key_violation
      else Inr (d\<lparr>t_role_inheritance := t_role_inheritance d @ [e]\<rparr>))"

definition delete_role_inheritance :: "uuid \<Rightarrow> admin_db \<Rightarrow> (db_err, admin_db) result" where
  "delete_role_inheritance i d =
     Inr (d\<lparr>t_role_inheritance := filter (\<lambda>e. ri_id e \<noteq> i) (t_role_inheritance d)\<rparr>)"

text \<open>The unique index of the access table reads a missing user or role as the nil identifier.\<close>

definition dsa_key :: "data_source_access_row \<Rightarrow> string \<times> uuid \<times> uuid \<times> uuid" where
  "dsa_key a = (dsa_assignment_scope a, unwrap_or (dsa_user_id a) 0, unwrap_or (dsa_role_id a) 0, dsa_data_source_id a)"

definition insert_data_source_access :: "data_source_access_row \<Rightarrow> admin_db \<Rightarrow> (db_err, admin_db) result" where
  "insert_data_source_access a d =
     (if has_key dsa_id (dsa_id a) (t_data_source_access d) \<or> has_key dsa_key (dsa_key a) (t_data_source_access d)
      then Inl unique_violation
      else if \<not> has_key ds_id (dsa_data_source_id a) (t_data_source d) then Inl foreign_key_violation
      else Inr (d\<lparr>t_data_source_access := t_data_source_access d @ [a]\<rparr>))"

definition delete_access_of :: "uuid \<Rightarrow> string \<Rightarrow> admin_db \<Rightarrow> (db_err, admin_db) result" where
  "delete_access_of ds scope d =
     Inr (d\<lparr>t_data_source_access :=
       filter (\<lambda>a. \<not> (dsa_data_source_id a = ds \<and> dsa_assignment_scope a = scope)) (t_data_source_access d)\<rparr>)"

section \<open>Requests and responses\<close>

record CreateRoleRequest =
  crr_name :: string
  crr_description :: "string option"

record UpdateRoleRequest =
  urr_name :: "string option"
  urr_description :: "string option"
  urr_is_active :: "bool option"

record RoleListResponse =
  rlr_id :: uuid
  rlr_name :: string
  rlr_description :: "string option"
  rlr_is_active :: bool
  rlr_direct_member_count :: nat
  rlr_created_at :: datetime
  rlr_updated_at :: datetime

record ImpactResponse =
  imp_affected_users :: nat
  imp_affected_assignments :: nat

definition validate_role_name :: "string \<Rightarrow> (string, unit) result" where
  "validate_role_name name =
     (if length name < 3 \<or> length name > 50 then Inl ''Role name must be between 3 and 50 characters''
      else
        (case name of
           c # chars \<Rightarrow>
             if is_ascii_alphabetic c then
               (if \<not> list_all (\<lambda>c. is_ascii_alphanumeric c \<or> c \<in> {CHR ''_'', CHR ''.'', CHR ''-''}) chars
                then Inl ''Role name may only contain letters, digits, underscores, dots, and hyphens''
                else Inr ())
             else Inl ''Role name must start with a letter''
         | [] \<Rightarrow> Inl ''Role name must start with a letter''))"

definition opt_json :: "string option \<Rightarrow> json" where
  "opt_json x = (case x of None \<Rightarrow> JNull | Some s \<Rightarrow> JString s)"

section \<open>Cache invalidation\<close>

definition invalidate_user :: "uuid \<Rightarrow> unit adm" where
  "invalidate_user user_id = emit (InvalidateUser user_id)"

text \<open>\<open>resolve_all_role_members(..).await.unwrap_or_default()\<close>: a failed lookup invalidates nobody.\<close>

definition members_or_default :: "uuid \<Rightarrow> uuid list adm" where
  "members_or_default role_id w =
     (case call internal (\<lambda>c. resolve_all_role_members c role_id) (w_db w) w of
        (Inl e, w') \<Rightarrow> (Inr [], w')
      | (Inr us, w') \<Rightarrow> (Inr us, w'))"

definition invalidate_role_members :: "uuid \<Rightarrow> unit adm" where
  "invalidate_role_members role_id = bind_adm (members_or_default role_id) (for_each invalidate_user)"

section \<open>Handlers\<close>

definition role_list_response :: "role_row \<Rightarrow> nat \<Rightarrow> RoleListResponse" where
  "role_list_response r n =
     \<lparr> rlr_id = ro_id r, rlr_name = ro_name r, rlr_description = ro_description r,
       rlr_is_active = ro_is_active r, rlr_direct_member_count = n,
       rlr_created_at = ro_created_at r, rlr_updated_at = ro_updated_at r \<rparr>"

definition create_role :: "env \<Rightarrow> uuid \<Rightarrow> CreateRoleRequest \<Rightarrow> (status_code \<times> RoleListResponse) adm" where
  "create_role ev actor body =
     bind_adm (from_result (map_err (ApiErr UNPROCESSABLE_ENTITY) (validate_role_name (crr_name body)))) (\<lambda>_.
     let role_id = e_ids ev 0;
         model = \<lparr> ro_id = role_id, ro_name = crr_name body, ro_description = crr_description body,
                   ro_is_active = True, ro_created_at = e_now ev, ro_updated_at = e_now ev \<rparr> in
     bind_adm begin_txn (\<lambda>t.
     bind_adm (exec (conflict_or_internal ''Role name already exists'') t (insert_role model)) (\<lambda>t.
     let t = audit t ''role'' role_id Create actor
           (JObject [(''after'', JObject [(''name'', JString (crr_name body)),
              (''description'', opt_json (crr_description body)), (''is_active'', JBool True)])]) in
     bind_adm (commit ev t) (\<lambda>_. ret (CREATED, role_list_response model 0)))))"

definition find_role :: "uuid \<Rightarrow> string \<Rightarrow> role_row adm" where
  "find_role i msg =
     bind_adm (query internal (\<lambda>d. find_row ro_id i (t_role d))) (\<lambda>r. from_result (ok_or r (not_found msg)))"

definition apply_role_update :: "env \<Rightarrow> UpdateRoleRequest \<Rightarrow> role_row \<Rightarrow> role_row \<Rightarrow> role_row" where
  "apply_role_update ev body r x =
     (let x = (case urr_name body of None \<Rightarrow> x | Some n \<Rightarrow> x\<lparr>ro_name := n\<rparr>);
          x = (case urr_description body of None \<Rightarrow> x | Some s \<Rightarrow> x\<lparr>ro_description := Some s\<rparr>);
          x = (case urr_is_active body of
                 None \<Rightarrow> x | Some b \<Rightarrow> if b \<noteq> ro_is_active r then x\<lparr>ro_is_active := b\<rparr> else x) in
      x\<lparr>ro_updated_at := e_now ev\<rparr>)"

definition role_update_changes :: "UpdateRoleRequest \<Rightarrow> role_row \<Rightarrow> json" where
  "role_update_changes body r =
     (let name = (case urr_name body of None \<Rightarrow> [] | Some n \<Rightarrow> [(''name'', JString (ro_name r), JString n)]);
          desc = (case urr_description body of
                    None \<Rightarrow> [] | Some s \<Rightarrow> [(''description'', opt_json (ro_description r), JString s)]);
          act = (case urr_is_active body of
                   None \<Rightarrow> []
                 | Some b \<Rightarrow> if b \<noteq> ro_is_active r then [(''is_active'', JBool (ro_is_active r), JBool b)] else []);
          all = name @ desc @ act in
      JObject [(''before'', JObject (map (\<lambda>(k, b, a). (k, b)) all)),
               (''after'', JObject (map (\<lambda>(k, b, a). (k, a)) all))])"

definition update_role :: "env \<Rightarrow> uuid \<Rightarrow> uuid \<Rightarrow> UpdateRoleRequest \<Rightarrow> RoleListResponse adm" where
  "update_role ev actor i body =
     bind_adm (find_role i ''Role not found'') (\<lambda>r.
     bind_adm (case urr_name body of
         None \<Rightarrow> ret ()
       | Some n \<Rightarrow> from_result (map_err (ApiErr UNPROCESSABLE_ENTITY) (validate_role_name n))) (\<lambda>_.
     let is_activation_change = (case urr_is_active body of None \<Rightarrow> False | Some b \<Rightarrow> b \<noteq> ro_is_active r);
         updated = apply_role_update ev body r r in
     bind_adm begin_txn (\<lambda>t.
     bind_adm (exec (conflict_or_internal ''Role name already exists'') t
         (update_role_row i (apply_role_update ev body r))) (\<lambda>t.
     let action = (if is_activation_change \<and> \<not> ro_is_active updated then Deactivate
                   else if is_activation_change \<and> ro_is_active updated then Reactivate
                   else Update);
         t = audit t ''role'' i action actor (role_update_changes body r) in
     bind_adm (commit ev t) (\<lambda>_.
     bind_adm (if is_activation_change then invalidate_role_members i else ret ()) (\<lambda>_.
     bind_adm (query internal (\<lambda>d. length (filter (\<lambda>m. rm_role_id m = i) (t_role_member d)))) (\<lambda>direct_count.
     ret (role_list_response updated direct_count))))))))"

definition assignments_of_role :: "uuid \<Rightarrow> admin_db \<Rightarrow> policy_assignment_row list" where
  "assignments_of_role i d = filter (\<lambda>a. pa_role_id a = Some i) (t_policy_assignment d)"

definition unassign_changes :: "env \<Rightarrow> uuid \<Rightarrow> policy_assignment_row \<Rightarrow> json" where
  "unassign_changes ev i a =
     JObject [(''reason'', JString ''role_deleted''), (''role_id'', JString (e_uuid_str ev i)),
       (''datasource_id'', JString (e_uuid_str ev (pa_data_source_id a))),
       (''assignment_id'', JString (e_uuid_str ev (pa_id a)))]"

text \<open>The invalidation of \<open>delete_role\<close> comes before the transaction, as the source has it.\<close>

definition delete_role :: "env \<Rightarrow> uuid \<Rightarrow> uuid \<Rightarrow> ImpactResponse adm" where
  "delete_role ev actor i =
     bind_adm (find_role i ''Role not found'') (\<lambda>r.
     bind_adm (\<lambda>w. call internal (\<lambda>c. resolve_all_role_members c i) (w_db w) w) (\<lambda>affected_users.
     bind_adm (query internal (\<lambda>d. length (assignments_of_role i d))) (\<lambda>affected_assignment_count.
     bind_adm (invalidate_role_members i) (\<lambda>_.
     bind_adm begin_txn (\<lambda>t.
     bind_adm (tx_query internal t (assignments_of_role i)) (\<lambda>cascaded.
     let t = foldl (\<lambda>t a. audit t ''policy'' (pa_policy_id a) Unassign actor (unassign_changes ev i a)) t cascaded in
     bind_adm (exec internal t (delete_role_row i)) (\<lambda>t.
     let t = audit t ''role'' i Delete actor
           (JObject [(''before'', JObject [(''name'', JString (ro_name r)),
              (''description'', opt_json (ro_description r)), (''is_active'', JBool (ro_is_active r))])]) in
     bind_adm (commit ev t) (\<lambda>_.
     ret \<lparr> imp_affected_users = length affected_users,
           imp_affected_assignments = affected_assignment_count \<rparr>))))))))"

fun add_members_loop :: "env \<Rightarrow> uuid \<Rightarrow> uuid \<Rightarrow> role_row \<Rightarrow> nat \<Rightarrow> uuid list \<Rightarrow> txn \<Rightarrow> txn adm" where
  "add_members_loop ev actor i r k [] t = ret t"
| "add_members_loop ev actor i r k (user_id # us) t =
     bind_adm (tx_query internal t (\<lambda>d. find_row pu_id user_id (t_proxy_user d))) (\<lambda>uo.
     bind_adm (from_result (ok_or uo
         (not_found (''User '' @ quote @ e_uuid_str ev user_id @ quote @ '' not found'')))) (\<lambda>user.
     bind_adm (exec (conflict_or_internal (''User '' @ quote @ pu_username user @ quote
             @ '' is already a member of role '' @ quote @ ro_name r @ quote)) t
         (insert_role_member \<lparr> rm_id = e_ids ev k, rm_role_id = i, rm_user_id = user_id,
            rm_created_at = e_now ev \<rparr>)) (\<lambda>t.
     add_members_loop ev actor i r (Suc k) us
       (audit t ''role'' i AddMember actor
          (JObject [(''user_id'', JString (e_uuid_str ev user_id)), (''username'', JString (pu_username user))])))))"

definition add_members :: "env \<Rightarrow> uuid \<Rightarrow> uuid \<Rightarrow> uuid list \<Rightarrow> status_code adm" where
  "add_members ev actor i user_ids =
     bind_adm (find_role i ''Role not found'') (\<lambda>r.
     bind_adm begin_txn (\<lambda>t.
     bind_adm (add_members_loop ev actor i r 0 user_ids t) (\<lambda>t.
     bind_adm (commit ev t) (\<lambda>_.
     bind_adm (for_each invalidate_user user_ids) (\<lambda>_.
     ret NO_CONTENT)))))"

definition remove_member :: "env \<Rightarrow> uuid \<Rightarrow> uuid \<Rightarrow> uuid \<Rightarrow> status_code adm" where
  "remove_member ev actor i user_id =
     bind_adm (find_role i ''Role not found'') (\<lambda>_.
     bind_adm (query internal (\<lambda>d. find (\<lambda>m. rm_role_id m = i \<and> rm_user_id m = user_id) (t_role_member d))) (\<lambda>mo.
     bind_adm (from_result (ok_or mo (not_found ''User is not a member of this role''))) (\<lambda>membership.
     bind_adm (query internal (\<lambda>d. find_row pu_id user_id (t_proxy_user d))) (\<lambda>uo.
     let username = unwrap_or (map_option pu_username uo) [] in
     bind_adm begin_txn (\<lambda>t.
     bind_adm (exec internal t (delete_role_member (rm_id membership))) (\<lambda>t.
     let t = audit t ''role'' i RemoveMember actor
           (JObject [(''before'', JObject [(''user_id'', JString (e_uuid_str ev user_id)), (''username'', JString username)])]) in
     bind_adm (commit ev t) (\<lambda>_.
     bind_adm (invalidate_user user_id) (\<lambda>_.
     ret NO_CONTENT))))))))"

text \<open>
  The path search of the message cannot run forever (see \<open>build_cycle_path_total\<close>), so its
  divergence branch is never taken.
\<close>

definition cycle_text :: "env \<Rightarrow> uuid \<Rightarrow> uuid \<Rightarrow> conn \<Rightarrow> (db_err, string) result" where
  "cycle_text ev parent_id child_id c =
     (case build_cycle_path (e_uuid_str ev) c parent_id child_id of Some r \<Rightarrow> r | None \<Rightarrow> Inl [])"

definition add_parent :: "env \<Rightarrow> uuid \<Rightarrow> uuid \<Rightarrow> uuid \<Rightarrow> status_code adm" where
  "add_parent ev actor i parent_id =
     bind_adm (find_role i ''Role not found'') (\<lambda>_.
     bind_adm (find_role parent_id ''Parent role not found'') (\<lambda>parent.
     bind_adm begin_txn (\<lambda>t.
     bind_adm (call internal (\<lambda>c. detect_cycle c parent_id i) (tx_db t)) (\<lambda>has_cycle.
     if has_cycle then
       bind_adm (call internal (cycle_text ev parent_id i) (tx_db t)) (\<lambda>path.
         fail (ApiErr UNPROCESSABLE_ENTITY (''Cannot add inheritance: would create cycle: '' @ path)))
     else
     bind_adm (call internal (\<lambda>c. check_inheritance_depth c parent_id) (tx_db t)) (\<lambda>depth_above.
     bind_adm (call internal (\<lambda>c. check_inheritance_depth_down c i) (tx_db t)) (\<lambda>depth_below.
     let total_depth = depth_above + 1 + depth_below in
     if total_depth > 10 then
       fail (ApiErr UNPROCESSABLE_ENTITY
         (''Cannot add inheritance: maximum depth of 10 would be exceeded (total depth: '' @ show_nat total_depth @ '')''))
     else
     bind_adm (exec (conflict_or_internal ''This inheritance relationship already exists'') t
         (insert_role_inheritance \<lparr> ri_id = e_ids ev 0, ri_parent_role_id = parent_id, ri_child_role_id = i,
            ri_created_at = e_now ev \<rparr>)) (\<lambda>t.
     let t = audit t ''role'' i AddInheritance actor
           (JObject [(''parent_role_id'', JString (e_uuid_str ev parent_id)), (''parent_role_name'', JString (ro_name parent))]) in
     bind_adm (commit ev t) (\<lambda>_.
     bind_adm (invalidate_role_members i) (\<lambda>_.
     ret NO_CONTENT)))))))))"

definition remove_parent :: "env \<Rightarrow> uuid \<Rightarrow> uuid \<Rightarrow> uuid \<Rightarrow> status_code adm" where
  "remove_parent ev actor i parent_id =
     bind_adm (find_role i ''Role not found'') (\<lambda>_.
     bind_adm (query internal (\<lambda>d. find (\<lambda>e. ri_child_role_id e = i \<and> ri_parent_role_id e = parent_id)
         (t_role_inheritance d))) (\<lambda>eo.
     bind_adm (from_result (ok_or eo (not_found ''Inheritance relationship not found''))) (\<lambda>edge.
     bind_adm (query internal (\<lambda>d. find_row ro_id parent_id (t_role d))) (\<lambda>po.
     let parent_name = unwrap_or (map_option ro_name po) [] in
     bind_adm (members_or_default i) (\<lambda>affected_user_ids.
     bind_adm begin_txn (\<lambda>t.
     bind_adm (exec internal t (delete_role_inheritance (ri_id edge))) (\<lambda>t.
     let t = audit t ''role'' i RemoveInheritance actor
           (JObject [(''before'', JObject [(''parent_role_id'', JString (e_uuid_str ev parent_id)),
              (''parent_role_name'', JString parent_name)])]) in
     bind_adm (commit ev t) (\<lambda>_.
     bind_adm (for_each invalidate_user affected_user_ids) (\<lambda>_.
     ret NO_CONTENT)))))))))"

definition check_role_active :: "env \<Rightarrow> uuid \<Rightarrow> unit adm" where
  "check_role_active ev role_id =
     bind_adm (query internal (\<lambda>d. find_row ro_id role_id (t_role d))) (\<lambda>ro.
     bind_adm (from_result (ok_or ro
         (not_found (''Role '' @ quote @ e_uuid_str ev role_id @ quote @ '' not found'')))) (\<lambda>r.
     if \<not> ro_is_active r
     then fail (ApiErr BAD_REQUEST (''Role '' @ quote @ ro_name r @ quote @ '' is inactive''))
     else ret ()))"

fun insert_access_loop :: "env \<Rightarrow> uuid \<Rightarrow> nat \<Rightarrow> uuid list \<Rightarrow> txn \<Rightarrow> txn adm" where
  "insert_access_loop ev i k [] t = ret t"
| "insert_access_loop ev i k (role_id # rs) t =
     bind_adm (exec internal t (insert_data_source_access
         \<lparr> dsa_id = e_ids ev k, dsa_user_id = None, dsa_role_id = Some role_id, dsa_data_source_id = i,
           dsa_assignment_scope = ''role'', dsa_created_at = e_now ev \<rparr>))
       (insert_access_loop ev i (Suc k) rs)"

definition role_access_of :: "uuid \<Rightarrow> admin_db \<Rightarrow> data_source_access_row list" where
  "role_access_of i d =
     filter (\<lambda>a. dsa_data_source_id a = i \<and> dsa_assignment_scope a = ''role'') (t_data_source_access d)"

definition set_datasource_role_access :: "env \<Rightarrow> uuid \<Rightarrow> uuid \<Rightarrow> uuid list \<Rightarrow> status_code adm" where
  "set_datasource_role_access ev actor i role_ids =
     bind_adm (query internal (\<lambda>d. find_row ds_id i (t_data_source d))) (\<lambda>ds.
     bind_adm (from_result (ok_or ds (not_found ''Data source not found''))) (\<lambda>_.
     bind_adm (for_each (check_role_active ev) role_ids) (\<lambda>_.
     bind_adm begin_txn (\<lambda>t.
     bind_adm (tx_query internal t (role_access_of i)) (\<lambda>old_entries.
     let old_role_ids = remdups (List.map_filter dsa_role_id old_entries) in
     bind_adm (exec internal t (delete_access_of i ''role'')) (\<lambda>t.
     bind_adm (insert_access_loop ev i 0 role_ids t) (\<lambda>t.
     let new_role_ids = remdups role_ids;
         t = audit t ''datasource'' i Update actor
           (JObject [(''field'', JString ''role_access''),
              (''before'', JArray (map (\<lambda>r. JString (e_uuid_str ev r)) old_role_ids)),
              (''after'', JArray (map (\<lambda>r. JString (e_uuid_str ev r)) new_role_ids))]) in
     bind_adm (commit ev t) (\<lambda>_.
     bind_adm (for_each invalidate_role_members (remdups (old_role_ids @ new_role_ids))) (\<lambda>_.
     ret NO_CONTENT)))))))))"

section \<open>Read-only handlers\<close>

definition get_role_impact :: "uuid \<Rightarrow> ImpactResponse adm" where
  "get_role_impact i =
     bind_adm (find_role i ''Role not found'') (\<lambda>_.
     bind_adm (\<lambda>w. call internal (\<lambda>c. resolve_all_role_members c i) (w_db w) w) (\<lambda>affected_users.
     bind_adm (query internal (\<lambda>d. length (assignments_of_role i d))) (\<lambda>affected_assignments.
     ret \<lparr> imp_affected_users = length affected_users, imp_affected_assignments = affected_assignments \<rparr>)))"

definition get_effective_members :: "uuid \<Rightarrow> EffectiveMemberEntry list adm" where
  "get_effective_members i =
     bind_adm (find_role i ''Role not found'') (\<lambda>_ w.
       call internal (\<lambda>c. resolve_effective_members c i) (w_db w) w)"

record DatasourceRoleAccessEntry =
  dra_id :: uuid
  dra_name :: string
  dra_is_active :: bool

definition get_datasource_role_access :: "uuid \<Rightarrow> DatasourceRoleAccessEntry list adm" where
  "get_datasource_role_access i =
     bind_adm (query internal (\<lambda>d. find_row ds_id i (t_data_source d))) (\<lambda>ds.
     bind_adm (from_result (ok_or ds (not_found ''Data source not found''))) (\<lambda>_.
     bind_adm (query internal (role_access_of i)) (\<lambda>entries.
     let role_ids = List.map_filter dsa_role_id entries in
     if role_ids = [] then ret []
     else query internal (\<lambda>d. map (\<lambda>r. \<lparr> dra_id = ro_id r, dra_name = ro_name r, dra_is_active = ro_is_active r \<rparr>)
            (filter (\<lambda>r. ro_id r \<in> set role_ids) (t_role d))))))"

section \<open>What a request may change\<close>

inductive role_change :: "admin_db \<Rightarrow> admin_db \<Rightarrow> bool" where
  rc_create: "validate_role_name (ro_name r) = Inr () \<Longrightarrow> insert_role r d = Inr d' \<Longrightarrow> role_change d d'"
| rc_update: "find_row ro_id i (t_role d) = Some r \<Longrightarrow>
    (\<And>n. urr_name body = Some n \<Longrightarrow> validate_role_name n = Inr ()) \<Longrightarrow>
    update_role_row i (apply_role_update ev body r) d = Inr d' \<Longrightarrow> role_change d d'"
| rc_delete: "delete_role_row i d = Inr d' \<Longrightarrow> role_change d d'"
| rc_add_member: "insert_role_member m d = Inr d' \<Longrightarrow> role_change d d'"
| rc_remove_member: "delete_role_member i d = Inr d' \<Longrightarrow> role_change d d'"
| rc_add_parent: "(ri_parent_role_id e, ri_child_role_id e) \<notin> (parent_rel d)\<^sup>* \<Longrightarrow>
    eccentricity (parent_rel d) (ri_parent_role_id e) a \<Longrightarrow>
    eccentricity ((parent_rel d)\<inverse>) (ri_child_role_id e) b \<Longrightarrow> a + 1 + b \<le> 10 \<Longrightarrow>
    insert_role_inheritance e d = Inr d' \<Longrightarrow> role_change d d'"
| rc_remove_parent: "delete_role_inheritance i d = Inr d' \<Longrightarrow> role_change d d'"
| rc_clear_access: "delete_access_of i ''role'' d = Inr d' \<Longrightarrow> role_change d d'"
| rc_add_access: "dsa_role_id a = Some r \<Longrightarrow> dsa_assignment_scope a = ''role'' \<Longrightarrow>
    insert_data_source_access a d = Inr d' \<Longrightarrow> role_change d d'"

abbreviation role_changes :: "admin_db \<Rightarrow> admin_db \<Rightarrow> bool" where
  "role_changes \<equiv> role_change\<^sup>*\<^sup>*"

lemma reflp_role_changes [simp]: "reflp role_changes"
  by (simp add: reflp_def)

lemma wp_find_role [wp_intros]:
  assumes "\<And>r w'. find_row ro_id i (t_role (w_db w)) = Some r \<Longrightarrow> same w w' \<Longrightarrow> Q r w'"
    "\<And>w'. same w w' \<Longrightarrow> E w'"
  shows "wp (find_role i msg) Q E w"
  unfolding find_role_def by (intro wp_intros) (auto intro: assms)

lemma wp_members_or_default [wp_intros]:
  assumes "\<And>us w'. same w w' \<Longrightarrow> Q us w'"
  shows "wp (members_or_default i) Q E w"
proof -
  have "wp (\<lambda>w. call internal (\<lambda>c. resolve_all_role_members c i) (w_db w) w) (\<lambda>_. same w) (same w) w"
    by (intro wp_intros)
  with assms show ?thesis
    by (auto simp: wp_def members_or_default_def split: sum.splits prod.splits)
qed

lemma wp_invalidate_user [wp_intros]:
  "(\<And>w'. quiet w w' \<Longrightarrow> Q () w') \<Longrightarrow> wp (invalidate_user u) Q E w"
  unfolding invalidate_user_def by (intro wp_intros) simp

lemma wp_invalidate_users [wp_intros]:
  assumes "\<And>w'. quiet w w' \<Longrightarrow> Q () w'"
  shows "wp (for_each invalidate_user us) Q E w"
  by (rule wp_for_each [where I = "quiet w"]) (auto intro!: wp_intros intro: quiet_trans assms)

lemma wp_invalidate_role_members [wp_intros]:
  assumes "\<And>w'. quiet w w' \<Longrightarrow> Q () w'"
  shows "wp (invalidate_role_members i) Q E w"
  unfolding invalidate_role_members_def
  by (intro wp_intros) (auto intro: assms quiet_trans dest: same_quiet)

lemma step_ok_eq:
  "w_db w' = w_db w \<Longrightarrow> w_audit w' = w_audit w \<Longrightarrow> step_ok role_changes actor w w'"
  by (auto intro: step_ok_quiet simp: quiet_def)

lemma step_ok_audit:
  assumes "w_audit w' = w_audit w @ map (audit_log ev) (tx_entries t)" "role_changes (w_db w) (w_db w')"
    "by_actor actor t" "tx_entries t \<noteq> []"
  shows "step_ok role_changes actor w w'"
  using assms by (auto simp: step_ok_def audited_def by_actor_def audit_log_def)

lemma step_ok_change:
  assumes "w_audit w' = w_audit w @ map (audit_log ev) (tx_entries t)" "role_change (w_db w) (w_db w')"
    "by_actor actor t" "tx_entries t \<noteq> []"
  shows "step_ok role_changes actor w w'"
  using assms by (blast intro: step_ok_audit)

text \<open>Each handler, for every pattern of failures, does nothing to the tables or an audited change.\<close>

abbreviation refines :: "uuid \<Rightarrow> 'a adm \<Rightarrow> bool" where
  "refines actor m \<equiv> \<forall>w. wp m (\<lambda>_. step_ok role_changes actor w) (step_ok role_changes actor w) w"

lemma create_role_ok: "refines actor (create_role ev actor body)"
  unfolding create_role_def Let_def
  by (intro allI wp_intros, auto simp: same_def intro: step_ok_eq)
    (erule step_ok_change, erule rc_create [rotated], auto)

lemma update_role_ok: "refines actor (update_role ev actor i body)"
  unfolding update_role_def Let_def
  by (intro allI wp_intros, auto simp: same_def quiet_def intro: step_ok_eq)
    (erule step_ok_change, rule rc_update [rotated 2], simp, auto)+

lemma delete_role_entries:
  "tx_db (foldl (\<lambda>t a. audit t rt (f a) ac actor (g a)) t as) = tx_db t"
  "by_actor actor (foldl (\<lambda>t a. audit t rt (f a) ac actor (g a)) t as) = by_actor actor t"
  by (induction as arbitrary: t) simp_all

lemma delete_role_ok: "refines actor (delete_role ev actor i)"
  unfolding delete_role_def Let_def
  by (intro allI wp_intros, auto simp: same_def quiet_def delete_role_entries intro: step_ok_eq)
    (erule step_ok_change, erule rc_delete, auto simp: delete_role_entries)+

lemma remove_member_ok: "refines actor (remove_member ev actor i u)"
  unfolding remove_member_def Let_def
  by (intro allI wp_intros, auto simp: same_def quiet_def intro: step_ok_eq)
    (erule step_ok_change, erule rc_remove_member, auto)+

lemma remove_parent_ok: "refines actor (remove_parent ev actor i p)"
  unfolding remove_parent_def Let_def
  by (intro allI wp_intros, auto simp: same_def quiet_def intro: step_ok_eq)
    (erule step_ok_change, erule rc_remove_parent, auto)+

lemma depth_checked:
  "check_inheritance_depth (open_conn d) r = Inr n \<Longrightarrow> eccentricity (parent_rel d) r n"
  "check_inheritance_depth_down (open_conn d) r = Inr n \<Longrightarrow> eccentricity ((parent_rel d)\<inverse>) r n"
  by (rule check_inheritance_depth_ecc [of d r]; simp) (rule check_inheritance_depth_down_ecc [of d r]; simp)

lemma rc_add_parent_checked:
  assumes "insert_role_inheritance e d = Inr d'" "(ri_parent_role_id e, ri_child_role_id e) \<notin> (parent_rel d)\<^sup>*"
    "check_inheritance_depth (open_conn d) (ri_parent_role_id e) = Inr a"
    "check_inheritance_depth_down (open_conn d) (ri_child_role_id e) = Inr b" "\<not> 9 < a + b"
  shows "role_change d d'"
  using assms by (intro rc_add_parent [where a = a and b = b]) (auto dest: depth_checked)

lemma add_parent_ok: "refines actor (add_parent ev actor i p)"
  unfolding add_parent_def Let_def
  by (intro allI wp_intros, auto simp: same_def quiet_def detect_cycle_eq intro: step_ok_eq)
    (erule step_ok_change, rule rc_add_parent_checked, simp, auto)+

lemma wp_add_members_loop [wp_intros]:
  assumes "\<And>t' w'. same w w' \<Longrightarrow> role_changes (tx_db t) (tx_db t') \<Longrightarrow>
      by_actor actor t' = by_actor actor t \<Longrightarrow> Q t' w'"
    and "\<And>w'. same w w' \<Longrightarrow> E w'"
  shows "wp (add_members_loop ev actor i r k us t) Q E w"
  using assms
proof (induction us arbitrary: k t w)
  case Nil
  then show ?case by (simp add: wp_ret)
next
  case (Cons u us)
  show ?case
    unfolding add_members_loop.simps
    apply (intro wp_intros)
        apply (rule Cons.IH)
         apply (rule Cons.prems(1))
           apply (auto intro: same_trans Cons.prems(2))
     apply (meson converse_rtranclp_into_rtranclp rc_add_member)+
    done
qed

lemma wp_insert_access_loop [wp_intros]:
  assumes "\<And>t' w'. same w w' \<Longrightarrow> role_changes (tx_db t) (tx_db t') \<Longrightarrow>
      (\<forall>a. by_actor a t' = by_actor a t) \<Longrightarrow> Q t' w'"
    and "\<And>w'. same w w' \<Longrightarrow> E w'"
  shows "wp (insert_access_loop ev i k rs t) Q E w"
  using assms
proof (induction rs arbitrary: k t w)
  case Nil
  then show ?case by (simp add: wp_ret)
next
  case (Cons r rs)
  show ?case
    unfolding insert_access_loop.simps
    apply (intro wp_intros)
        apply (rule Cons.IH)
         apply (rule Cons.prems(1))
           apply (auto intro: same_trans Cons.prems(2))
    apply (erule converse_rtranclp_into_rtranclp [rotated], rule rc_add_access [rotated 2], assumption, simp_all)
    done
qed

lemma add_members_ok: "refines actor (add_members ev actor i us)"
  unfolding add_members_def Let_def
  by (intro allI wp_intros, auto simp: same_def quiet_def intro: step_ok_eq)
    (erule step_ok_audit, auto)+

lemma wp_check_role_active [wp_intros]:
  assumes "\<And>w'. same w w' \<Longrightarrow> Q () w'" "\<And>w'. same w w' \<Longrightarrow> E w'"
  shows "wp (check_role_active ev r) Q E w"
  unfolding check_role_active_def by (intro wp_intros) (auto intro: assms same_trans)

lemma wp_check_roles_active [wp_intros]:
  assumes "\<And>w'. same w w' \<Longrightarrow> Q () w'" "\<And>w'. same w w' \<Longrightarrow> E w'"
  shows "wp (for_each (check_role_active ev) rs) Q E w"
  by (rule wp_for_each [where I = "same w"]) (auto intro!: wp_check_role_active intro: assms same_trans)

lemma wp_invalidate_roles [wp_intros]:
  assumes "\<And>w'. quiet w w' \<Longrightarrow> Q () w'"
  shows "wp (for_each invalidate_role_members us) Q E w"
  by (rule wp_for_each [where I = "quiet w"]) (auto intro!: wp_intros intro: quiet_trans assms)

lemma set_datasource_role_access_ok: "refines actor (set_datasource_role_access ev actor i rs)"
  unfolding set_datasource_role_access_def Let_def
  by (intro allI wp_intros, auto simp: same_def quiet_def intro: step_ok_eq)
    (erule step_ok_audit, auto intro: converse_rtranclp_into_rtranclp rc_clear_access)+

end
