(* ===== verification/DfPlan.thy ===== *)
theory DfPlan
  imports PolicyMatch
begin

text \<open>
  The values the enforcement code exchanges with DataFusion: column references, expressions and
  logical plans, with one constructor per node the sources build or match on and one for every other
  node. The library's operations on them (building and validating a node, computing an output schema,
  the post-order rewrite) are not part of the program: they are the fields of \<open>df_ops\<close>, which the
  definitions take as an argument, and what the program relies on is the predicate \<open>df_laws\<close>, the
  documented behaviour of those operations.

  The second part gives plans their meaning, for stating what enforcement achieves: \<open>eval_plan\<close>
  computes the rows of a plan from the rows of the tables, where \<open>Other\<close> nodes may be any function
  of the rows of their inputs. A filter or projection whose expressions contain subqueries (\<open>IN\<close>,
  \<open>EXISTS\<close>, scalar subqueries) is a \<open>WithSubqueries\<close> node, with the plans of the subqueries apart
  from its input.
\<close>

section \<open>Expressions\<close>

record table_ref =
  tr_schema :: "string option"
  tr_table :: string

abbreviation bare :: "string \<Rightarrow> table_ref" where
  "bare t \<equiv> \<lparr> tr_schema = None, tr_table = t \<rparr>"

record column =
  c_relation :: "table_ref option"
  c_name :: string

abbreviation unqualified :: "string \<Rightarrow> column" where
  "unqualified n \<equiv> \<lparr> c_relation = None, c_name = n \<rparr>"

datatype scalar = SNull | SInt int | SFloat string | SBool bool | SStr string

datatype arrow_type = Utf8 | Int16 | Int32 | Int64 | Float32 | Float64 | Boolean

datatype binop = OpEq | OpNotEq | OpLt | OpGt | OpLtEq | OpGtEq | OpAnd | OpOr | OpStringConcat

datatype expr =
    Lit scalar
  | Col column
  | BinaryExpr binop expr expr
  | NotE expr
  | Negative expr
  | IsNullE expr
  | IsNotNullE expr
  | LikeE expr expr
  | InListE expr "expr list" bool
  | CastE expr arrow_type
  | CaseE "(expr \<times> expr) list" "expr option"
  | ScalarFn string "expr list"
  | AliasE expr "table_ref option" string

abbreviation lit_true :: expr where "lit_true \<equiv> Lit (SBool True)"
abbreviation lit_false :: expr where "lit_false \<equiv> Lit (SBool False)"
abbreviation and_expr :: "expr \<Rightarrow> expr \<Rightarrow> expr" where "and_expr \<equiv> BinaryExpr OpAnd"

text \<open>Every column an expression refers to, as the traversal \<open>Expr::apply\<close> meets it.\<close>

fun expr_cols :: "expr \<Rightarrow> column list" where
  "expr_cols (Lit s) = []"
| "expr_cols (Col c) = [c]"
| "expr_cols (BinaryExpr o' a b) = expr_cols a @ expr_cols b"
| "expr_cols (NotE a) = expr_cols a"
| "expr_cols (Negative a) = expr_cols a"
| "expr_cols (IsNullE a) = expr_cols a"
| "expr_cols (IsNotNullE a) = expr_cols a"
| "expr_cols (LikeE a b) = expr_cols a @ expr_cols b"
| "expr_cols (InListE a xs n) = expr_cols a @ concat (map expr_cols xs)"
| "expr_cols (CastE a t) = expr_cols a"
| "expr_cols (CaseE ws e) =
     concat (map (\<lambda>(c, r). expr_cols c @ expr_cols r) ws) @ (case e of None \<Rightarrow> [] | Some x \<Rightarrow> expr_cols x)"
| "expr_cols (ScalarFn f xs) = concat (map expr_cols xs)"
| "expr_cols (AliasE a q n) = expr_cols a"

text \<open>Replacing column references everywhere in an expression (\<open>Expr::transform\<close> on columns).\<close>

fun map_cols :: "(column \<Rightarrow> column) \<Rightarrow> expr \<Rightarrow> expr" where
  "map_cols f (Lit s) = Lit s"
| "map_cols f (Col c) = Col (f c)"
| "map_cols f (BinaryExpr o' a b) = BinaryExpr o' (map_cols f a) (map_cols f b)"
| "map_cols f (NotE a) = NotE (map_cols f a)"
| "map_cols f (Negative a) = Negative (map_cols f a)"
| "map_cols f (IsNullE a) = IsNullE (map_cols f a)"
| "map_cols f (IsNotNullE a) = IsNotNullE (map_cols f a)"
| "map_cols f (LikeE a b) = LikeE (map_cols f a) (map_cols f b)"
| "map_cols f (InListE a xs n) = InListE (map_cols f a) (map (map_cols f) xs) n"
| "map_cols f (CastE a t) = CastE (map_cols f a) t"
| "map_cols f (CaseE ws e) =
     CaseE (map (\<lambda>(c, r). (map_cols f c, map_cols f r)) ws) (map_option (map_cols f) e)"
| "map_cols f (ScalarFn g xs) = ScalarFn g (map (map_cols f) xs)"
| "map_cols f (AliasE a q n) = AliasE (map_cols f a) q n"

lemma expr_cols_map_cols: "expr_cols (map_cols f e) = map f (expr_cols e)"
  by (induction e rule: expr_cols.induct)
    (auto simp: map_concat comp_def split_def split: option.splits intro!: arg_cong [where f = concat])

section \<open>Plans\<close>

datatype plan =
    TableScan table_ref "string list"
  | Filter expr plan
  | Projection "expr list" plan
  | SubqueryAlias string plan
  | Join plan plan "expr list"
  | Aggregate string plan
  | WithSubqueries string "plan list" plan
  | Other string "plan list"

fun inputs :: "plan \<Rightarrow> plan list" where
  "inputs (TableScan r cs) = []"
| "inputs (Filter e p) = [p]"
| "inputs (Projection es p) = [p]"
| "inputs (SubqueryAlias a p) = [p]"
| "inputs (Join l r on) = [l, r]"
| "inputs (Aggregate g p) = [p]"
| "inputs (WithSubqueries k subs p) = [p]"
| "inputs (Other k ps) = ps"

lemma inputs_size: "q \<in> set (inputs p) \<Longrightarrow> size q < size p"
  by (cases p) (auto simp: less_Suc_eq_le intro: size_list_estimation')

type_synonym df_error = string

record df_ops =
  df_filter :: "plan \<Rightarrow> expr \<Rightarrow> (df_error, plan) result"
  df_project :: "plan \<Rightarrow> expr list \<Rightarrow> (df_error, plan) result"
  df_join_on :: "plan \<Rightarrow> plan \<Rightarrow> expr list \<Rightarrow> (df_error, plan) result"
  df_alias :: "plan \<Rightarrow> string \<Rightarrow> (df_error, plan) result"
  df_schema :: "plan \<Rightarrow> column list"
  df_transform_up :: "(plan \<Rightarrow> (df_error, plan) result) \<Rightarrow> plan \<Rightarrow> (df_error, plan) result"

text \<open>
  The post-order rewrite: the inputs first, then the node over the rewritten inputs. Subqueries inside
  the expressions of a node are not inputs and are left alone; the library has separate traversals
  that enter them.
\<close>

fun rewrite_up :: "(plan \<Rightarrow> (df_error, plan) result) \<Rightarrow> plan \<Rightarrow> (df_error, plan) result" where
  "rewrite_up f (TableScan r cs) = f (TableScan r cs)"
| "rewrite_up f (Filter e p) = bind_result (rewrite_up f p) (\<lambda>p. f (Filter e p))"
| "rewrite_up f (Projection es p) = bind_result (rewrite_up f p) (\<lambda>p. f (Projection es p))"
| "rewrite_up f (SubqueryAlias a p) = bind_result (rewrite_up f p) (\<lambda>p. f (SubqueryAlias a p))"
| "rewrite_up f (Join l r on) = bind_result (rewrite_up f l) (\<lambda>l. bind_result (rewrite_up f r) (\<lambda>r. f (Join l r on)))"
| "rewrite_up f (Aggregate g p) = bind_result (rewrite_up f p) (\<lambda>p. f (Aggregate g p))"
| "rewrite_up f (WithSubqueries k subs p) = bind_result (rewrite_up f p) (\<lambda>p. f (WithSubqueries k subs p))"
| "rewrite_up f (Other k ps) = bind_result (collect_results (map (rewrite_up f) ps)) (\<lambda>ps. f (Other k ps))"

definition df_laws :: "df_ops \<Rightarrow> bool" where
  "df_laws df \<longleftrightarrow>
     (\<forall>p e q. df_filter df p e = Inr q \<longrightarrow> q = Filter e p) \<and>
     (\<forall>p es q. df_project df p es = Inr q \<longrightarrow> q = Projection es p) \<and>
     (\<forall>l r on q. df_join_on df l r on = Inr q \<longrightarrow> q = Join l r on) \<and>
     (\<forall>p a q. df_alias df p a = Inr q \<longrightarrow> q = SubqueryAlias a p) \<and>
     (\<forall>f p. df_transform_up df f p = rewrite_up f p)"

lemma df_laws_simps:
  assumes "df_laws df"
  shows "df_filter df p e = Inr q \<Longrightarrow> q = Filter e p"
    "df_project df p es = Inr q \<Longrightarrow> q = Projection es p"
    "df_join_on df l r on = Inr q \<Longrightarrow> q = Join l r on"
    "df_alias df p a = Inr q \<Longrightarrow> q = SubqueryAlias a p"
    "df_transform_up df f p = rewrite_up f p"
  using assms by (simp_all add: df_laws_def)

section \<open>What a plan computes\<close>

text \<open>
  A row is the list of its fields in schema order. \<open>ev\<close> evaluates an expression on a row; \<open>agg\<close>,
  \<open>subs\<close> and \<open>other\<close> are the remaining operators, which see nothing but the rows of their inputs and
  subqueries.
\<close>

type_synonym row = "(column \<times> scalar) list"

record sem =
  ev :: "expr \<Rightarrow> row \<Rightarrow> scalar"
  agg :: "string \<Rightarrow> row list \<Rightarrow> row list"
  subs :: "string \<Rightarrow> row list list \<Rightarrow> row list \<Rightarrow> row list"
  other :: "string \<Rightarrow> row list list \<Rightarrow> row list"

abbreviation holds :: "sem \<Rightarrow> expr \<Rightarrow> row \<Rightarrow> bool" where
  "holds s e row \<equiv> ev s e row = SBool True"

definition sem_laws :: "sem \<Rightarrow> bool" where
  "sem_laws s \<longleftrightarrow>
     (\<forall>x row. ev s (Lit x) row = x) \<and>
     (\<forall>a b row. holds s (and_expr a b) row \<longleftrightarrow> holds s a row \<and> holds s b row) \<and>
     (\<forall>e q n row. ev s (AliasE e q n) row = ev s e row) \<and>
     (\<forall>c v row. map_of row c = Some v \<longrightarrow> ev s (Col c) row = v)"

lemma sem_laws_simps:
  assumes "sem_laws s"
  shows "ev s (Lit x) row = x"
    "holds s (and_expr a b) row \<longleftrightarrow> holds s a row \<and> holds s b row"
    "ev s (AliasE e q n) row = ev s e row"
    "map_of row c = Some v \<Longrightarrow> ev s (Col c) row = v"
  using assms by (auto simp: sem_laws_def)

fun out_field :: "expr \<Rightarrow> column" where
  "out_field (Col c) = c"
| "out_field (AliasE e q n) = \<lparr> c_relation = q, c_name = n \<rparr>"
| "out_field e = unqualified ''?expr?''"

definition project_row :: "sem \<Rightarrow> expr list \<Rightarrow> row \<Rightarrow> row" where
  "project_row s es row = map (\<lambda>e. (out_field e, ev s e row)) es"

definition alias_row :: "string \<Rightarrow> row \<Rightarrow> row" where
  "alias_row a row = map (\<lambda>(c, v). (c\<lparr> c_relation := Some (bare a) \<rparr>, v)) row"

fun eval_over :: "sem \<Rightarrow> (table_ref \<Rightarrow> string list \<Rightarrow> row list) \<Rightarrow> plan \<Rightarrow> row list" where
  "eval_over s S (TableScan r cs) = S r cs"
| "eval_over s S (Filter e p) = filter (holds s e) (eval_over s S p)"
| "eval_over s S (Projection es p) = map (project_row s es) (eval_over s S p)"
| "eval_over s S (SubqueryAlias a p) = map (alias_row a) (eval_over s S p)"
| "eval_over s S (Join l r on) =
     [x @ y. x \<leftarrow> eval_over s S l, y \<leftarrow> eval_over s S r, list_all (\<lambda>e. holds s e (x @ y)) on]"
| "eval_over s S (Aggregate g p) = agg s g (eval_over s S p)"
| "eval_over s S (WithSubqueries k qs p) = subs s k (map (eval_over s S) qs) (eval_over s S p)"
| "eval_over s S (Other k ps) = other s k (map (eval_over s S) ps)"

definition scan_result ::
  "sem \<Rightarrow> (table_ref \<Rightarrow> string list \<Rightarrow> row list) \<Rightarrow> (plan \<Rightarrow> (df_error, plan) result)
    \<Rightarrow> table_ref \<Rightarrow> string list \<Rightarrow> row list" where
  "scan_result s S f r cs = (case f (TableScan r cs) of Inl _ \<Rightarrow> [] | Inr q \<Rightarrow> eval_over s S q)"

lemma scan_result_in:
  "row \<in> set (scan_result s S f r cs) \<Longrightarrow> \<exists>q. f (TableScan r cs) = Inr q \<and> row \<in> set (eval_over s S q)"
  by (cases "f (TableScan r cs)") (auto simp: scan_result_def)

fun no_subqueries :: "plan \<Rightarrow> bool" where
  "no_subqueries (TableScan r cs) \<longleftrightarrow> True"
| "no_subqueries (Filter e p) \<longleftrightarrow> no_subqueries p"
| "no_subqueries (Projection es p) \<longleftrightarrow> no_subqueries p"
| "no_subqueries (SubqueryAlias a p) \<longleftrightarrow> no_subqueries p"
| "no_subqueries (Join l r on) \<longleftrightarrow> no_subqueries l \<and> no_subqueries r"
| "no_subqueries (Aggregate g p) \<longleftrightarrow> no_subqueries p"
| "no_subqueries (WithSubqueries k qs p) \<longleftrightarrow> False"
| "no_subqueries (Other k ps) \<longleftrightarrow> list_all no_subqueries ps"

text \<open>The plans of the subqueries inside the expressions of a plan, and the plan without them.\<close>

fun expr_subqueries :: "plan \<Rightarrow> plan list" where
  "expr_subqueries (TableScan r cs) = []"
| "expr_subqueries (Filter e p) = expr_subqueries p"
| "expr_subqueries (Projection es p) = expr_subqueries p"
| "expr_subqueries (SubqueryAlias a p) = expr_subqueries p"
| "expr_subqueries (Join l r on) = expr_subqueries l @ expr_subqueries r"
| "expr_subqueries (Aggregate g p) = expr_subqueries p"
| "expr_subqueries (WithSubqueries k qs p) = qs @ expr_subqueries p"
| "expr_subqueries (Other k ps) = concat (map expr_subqueries ps)"

fun without_subqueries :: "plan \<Rightarrow> plan" where
  "without_subqueries (TableScan r cs) = TableScan r cs"
| "without_subqueries (Filter e p) = Filter e (without_subqueries p)"
| "without_subqueries (Projection es p) = Projection es (without_subqueries p)"
| "without_subqueries (SubqueryAlias a p) = SubqueryAlias a (without_subqueries p)"
| "without_subqueries (Join l r on) = Join (without_subqueries l) (without_subqueries r) on"
| "without_subqueries (Aggregate g p) = Aggregate g (without_subqueries p)"
| "without_subqueries (WithSubqueries k qs p) = WithSubqueries k [] (without_subqueries p)"
| "without_subqueries (Other k ps) = Other k (map without_subqueries ps)"

lemma rewrite_up_id: "rewrite_up Inr p = Inr p"
proof (induction p)
  case (Other k ps)
  have "map (rewrite_up Inr) ps = map Inr ps"
    using Other by simp
  then have "collect_results (map (rewrite_up Inr) ps) = Inr ps"
    by (simp only: collect_results_Inr)
  then show ?case by simp
qed auto

section \<open>Rewriting scans\<close>

text \<open>
  The interface between an enforcement step and the rewrite: a step that touches nothing but scans.
  Rewriting a plan with it is the same as running the original plan over the rewritten scans.
\<close>

locale scan_rewrite =
  fixes step :: "plan \<Rightarrow> (df_error, plan) result"
  assumes other_nodes: "(\<nexists>r cs. p = TableScan r cs) \<Longrightarrow> step p = Inr p"
begin

lemma node [simp]:
  "step (Filter e p) = Inr (Filter e p)" "step (Projection es p) = Inr (Projection es p)"
  "step (SubqueryAlias a p) = Inr (SubqueryAlias a p)" "step (Join l r on) = Inr (Join l r on)"
  "step (Aggregate g p) = Inr (Aggregate g p)" "step (WithSubqueries k qs p) = Inr (WithSubqueries k qs p)"
  "step (Other k ps) = Inr (Other k ps)"
  by (simp_all add: other_nodes)

lemma eval:
  "rewrite_up step p = Inr q \<Longrightarrow> no_subqueries p \<Longrightarrow> eval_over s S q = eval_over s (scan_result s S step) p"
proof (induction p arbitrary: q)
  case (TableScan r cs)
  then show ?case by (simp add: scan_result_def)
next
  case (Other k ps)
  then obtain qs where qs: "map (rewrite_up step) ps = map Inr qs" "q = Other k qs"
    by (auto simp: collect_results_Inr)
  have len: "length qs = length ps"
    using arg_cong [OF qs(1), of length] by simp
  have "rewrite_up step (ps ! i) = Inr (qs ! i)" if "i < length ps" for i
    using arg_cong [OF qs(1), of "\<lambda>xs. xs ! i"] that len by simp
  then have "eval_over s S (qs ! i) = eval_over s (scan_result s S step) (ps ! i)" if "i < length ps" for i
    using Other.IH Other.prems(2) that by (simp add: list_all_iff)
  then have "map (eval_over s S) qs = map (eval_over s (scan_result s S step)) ps"
    by (metis (no_types, lifting) len length_map nth_equalityI nth_map)
  then show ?case by (simp add: qs(2))
qed auto

lemma keeps_no_subqueries:
  assumes "\<forall>r cs q. step (TableScan r cs) = Inr q \<longrightarrow> no_subqueries q"
  shows "rewrite_up step p = Inr q \<Longrightarrow> no_subqueries p \<Longrightarrow> no_subqueries q"
proof (induction p arbitrary: q)
  case (Other k ps)
  then obtain qs where qs: "map (rewrite_up step) ps = map Inr qs" "q = Other k qs"
    by (auto simp: collect_results_Inr)
  have "no_subqueries x" if "x \<in> set qs" for x
  proof -
    have "Inr x \<in> set (map (rewrite_up step) ps)"
      using that by (simp only: qs(1)) auto
    then show ?thesis
      using Other by (auto simp: list_all_iff)
  qed
  then show ?case by (simp add: qs(2) list_all_iff)
qed (use assms in auto)

lemma keeps_expr_subqueries:
  "rewrite_up step p = Inr q \<Longrightarrow> set (expr_subqueries p) \<subseteq> set (expr_subqueries q)"
proof (induction p arbitrary: q)
  case (Other k ps)
  then obtain qs where qs: "map (rewrite_up step) ps = map Inr qs" "q = Other k qs"
    by (auto simp: collect_results_Inr)
  have "set (expr_subqueries p) \<subseteq> set (expr_subqueries q)" if "p \<in> set ps" for p
  proof -
    have "rewrite_up step p \<in> set (map Inr qs)" using that by (simp flip: qs(1))
    then obtain x where "x \<in> set qs" "rewrite_up step p = Inr x" by auto
    with Other.IH [OF that] show ?thesis by (auto simp: qs(2))
  qed
  then show ?case by auto
next
  case (WithSubqueries k qs p)
  then show ?case by fastforce
qed auto

end

section \<open>A reference instance\<close>

text \<open>
  Builders that accept every node and a small evaluator satisfy the laws; they stand for the library
  in concrete runs.
\<close>

fun plan_schema :: "plan \<Rightarrow> column list" where
  "plan_schema (TableScan r cs) = map (\<lambda>n. \<lparr> c_relation = Some r, c_name = n \<rparr>) cs"
| "plan_schema (Filter e p) = plan_schema p"
| "plan_schema (Projection es p) = map out_field es"
| "plan_schema (SubqueryAlias a p) = map (\<lambda>c. c\<lparr> c_relation := Some (bare a) \<rparr>) (plan_schema p)"
| "plan_schema (Join l r on) = plan_schema l @ plan_schema r"
| "plan_schema (Aggregate g p) = plan_schema p"
| "plan_schema (WithSubqueries k qs p) = plan_schema p"
| "plan_schema (Other k ps) = (case ps of [] \<Rightarrow> [] | p # _ \<Rightarrow> plan_schema p)"

definition plain_df :: df_ops where
  "plain_df = \<lparr> df_filter = (\<lambda>p e. Inr (Filter e p)), df_project = (\<lambda>p es. Inr (Projection es p)),
     df_join_on = (\<lambda>l r on. Inr (Join l r on)), df_alias = (\<lambda>p a. Inr (SubqueryAlias a p)),
     df_schema = plan_schema, df_transform_up = rewrite_up \<rparr>"

lemma plain_df_laws: "df_laws plain_df"
  by (simp add: df_laws_def plain_df_def)

definition column_value :: "row \<Rightarrow> column \<Rightarrow> scalar" where
  "column_value row c =
     (case map_of row c of
        Some v \<Rightarrow> v
      | None \<Rightarrow> (case find (\<lambda>(d, v). c_relation c = None \<and> c_name d = c_name c) row of
                   Some (_, v) \<Rightarrow> v
                 | None \<Rightarrow> SNull))"

fun plain_ev :: "expr \<Rightarrow> row \<Rightarrow> scalar" where
  "plain_ev (Lit x) row = x"
| "plain_ev (Col c) row = column_value row c"
| "plain_ev (BinaryExpr OpAnd a b) row =
     (if plain_ev a row = SBool True \<and> plain_ev b row = SBool True then SBool True
      else if plain_ev a row = SBool False \<or> plain_ev b row = SBool False then SBool False
      else SNull)"
| "plain_ev (BinaryExpr OpEq a b) row =
     (if plain_ev a row = SNull \<or> plain_ev b row = SNull then SNull
      else SBool (plain_ev a row = plain_ev b row))"
| "plain_ev (AliasE e q n) row = plain_ev e row"
| "plain_ev e row = SNull"

definition plain_sem :: sem where
  "plain_sem = \<lparr> ev = plain_ev, agg = (\<lambda>g rows. rows),
     subs = (\<lambda>k qs rows. rows @ concat qs), other = (\<lambda>k rss. concat rss) \<rparr>"

lemma plain_sem_laws: "sem_laws plain_sem"
  by (simp add: sem_laws_def plain_sem_def column_value_def)

end
