(* ===== verification/TemplateVars.thy ===== *)
theory TemplateVars
  imports DfPlan
begin

text \<open>
  Template variables of policy expressions (\<open>hooks/policy.rs\<close>): resolving a user's attributes against
  the attribute definitions, and replacing every \<open>{user.KEY}\<close> of a template by placeholder
  identifiers together with the typed values they stand for.

  A hash map that is only looked up is a map, one that is iterated is the list of its entries. The
  regular expression engine and the JSON reader are not part of the program: they are fields of
  \<open>expr_lib\<close>.
\<close>

section \<open>The third-party operations expression templates go through\<close>

datatype sql_value =
    Number string
  | SingleQuotedString string
  | DoubleQuotedString string
  | BooleanV bool
  | NullV
  | OtherValue string

datatype sql_binop =
    SqlEq | SqlNotEq | SqlLt | SqlGt | SqlLtEq | SqlGtEq | SqlAnd | SqlOr | SqlStringConcat
  | SqlOtherOp string

datatype sql_unop = SqlNot | SqlMinus | SqlOtherUnop string

datatype sql_type =
    Varchar | Text | Char | String | SmallInt | Integer | SqlInt | BigInt | Float | Float4 | Real | Double
  | DoublePrecision | Float8 | SqlFloat64 | SqlBoolean | OtherType string

datatype cast_kind = PlainCast | TryCast | SafeCast | DoubleColon

datatype name_part = IdentPart string | OtherPart

datatype sql_expr =
    Identifier string
  | CompoundIdentifier "string list"
  | Value sql_value
  | BinaryOp sql_expr sql_binop sql_expr
  | IsNull sql_expr
  | IsNotNull sql_expr
  | Nested sql_expr
  | UnaryOp sql_unop sql_expr
  | Between sql_expr bool sql_expr sql_expr
  | Like bool sql_expr sql_expr "string option"
  | InList sql_expr "sql_expr list" bool
  | Function "name_part list" sql_args
  | Cast cast_kind sql_expr sql_type
  | Case "sql_expr option" "(sql_expr \<times> sql_expr) list" "sql_expr option"
  | OtherSql string
and sql_args = ArgList "sql_arg list" | ArgNone | ArgOther string
and sql_arg = ArgExpr sql_expr | ArgUnsupported string

record expr_lib =
  el_captures :: "string \<Rightarrow> (string \<times> string) list"
  el_json_strings :: "string \<Rightarrow> string list option"
  el_parse :: "string \<Rightarrow> (string, sql_expr) result"
  el_f64 :: "string \<Rightarrow> string option"
  el_col :: "string \<Rightarrow> column"
  el_not :: "expr \<Rightarrow> expr"

section \<open>Attributes and their defaults\<close>

record typed_attribute =
  ta_value :: string
  ta_value_type :: string

record attr_def_info =
  ad_default_value :: "string option"
  ad_value_type :: string

type_synonym attributes = "string \<rightharpoonup> typed_attribute"

definition default_attribute :: "attr_def_info \<Rightarrow> typed_attribute" where
  "default_attribute def =
     (case ad_default_value def of
        Some v \<Rightarrow> \<lparr> ta_value = v, ta_value_type = ad_value_type def \<rparr>
      | None \<Rightarrow> \<lparr> ta_value = [], ta_value_type = ''null'' \<rparr>)"

fun resolve_user_attribute_defaults :: "attributes \<Rightarrow> (string \<times> attr_def_info) list \<Rightarrow> attributes" where
  "resolve_user_attribute_defaults result [] = result"
| "resolve_user_attribute_defaults result ((key, def) # defs) =
     resolve_user_attribute_defaults
       (if result key = None then result(key \<mapsto> default_attribute def) else result) defs"

lemma resolve_user_attribute_defaults_lookup:
  "resolve_user_attribute_defaults attrs defs key =
     (case attrs key of Some a \<Rightarrow> Some a | None \<Rightarrow> map_option default_attribute (map_of defs key))"
  by (induction attrs defs rule: resolve_user_attribute_defaults.induct) (auto split: option.splits)

record user_vars =
  uv_username :: string
  uv_user_id :: string
  uv_attributes :: attributes
  uv_attribute_defs :: "(string \<times> attr_def_info) list"

definition user_vars_get :: "user_vars \<Rightarrow> string \<Rightarrow> string option" where
  "user_vars_get vars key =
     (if key = ''user.username'' then Some (uv_username vars)
      else if key = ''user.id'' then Some (uv_user_id vars)
      else (case strip_prefix_str key ''user.'' of
              None \<Rightarrow> None
            | Some attr_key \<Rightarrow> map_option ta_value (uv_attributes vars attr_key)))"

definition resolved_attributes :: "user_vars \<Rightarrow> attributes" where
  "resolved_attributes vars =
     (if uv_attribute_defs vars = [] then uv_attributes vars
      else resolve_user_attribute_defaults (uv_attributes vars) (uv_attribute_defs vars))"

section \<open>Placeholders\<close>

record var_mapping =
  vm_placeholder :: string
  vm_value :: string
  vm_value_type :: string

type_synonym mangled = "string \<times> var_mapping list"

definition builtin_placeholder :: "string \<Rightarrow> string" where
  "builtin_placeholder key = ''__br_'' @ str_replace key ''.'' ''_'' @ ''__''"

definition scalar_placeholder :: "string \<Rightarrow> string" where
  "scalar_placeholder attr_key = ''__br_user_'' @ attr_key @ ''__''"

definition element_placeholder :: "string \<Rightarrow> nat \<Rightarrow> string" where
  "element_placeholder attr_key i = ''__br_user_'' @ attr_key @ ''_'' @ show_nat i @ ''__''"

definition mangle_builtin :: "user_vars \<Rightarrow> string \<Rightarrow> mangled \<Rightarrow> mangled" where
  "mangle_builtin vars key = (\<lambda>(result, mappings).
     let placeholder = builtin_placeholder key; needle = ''{'' @ key @ ''}'' in
     if str_contains result needle
     then (str_replace result needle placeholder,
           mappings @ [\<lparr> vm_placeholder = to_lowercase placeholder,
                         vm_value = unwrap_or (user_vars_get vars key) [],
                         vm_value_type = ''string'' \<rparr>])
     else (result, mappings))"

definition mangle_value :: "expr_lib \<Rightarrow> string \<Rightarrow> typed_attribute \<Rightarrow> string \<times> var_mapping list" where
  "mangle_value lib attr_key a =
     (if ta_value_type a = ''list'' then
        (let elements = unwrap_or (el_json_strings lib (ta_value a)) [] in
         if elements = [] then
           (element_placeholder attr_key 0,
            [\<lparr> vm_placeholder = to_lowercase (element_placeholder attr_key 0), vm_value = [],
               vm_value_type = ''null'' \<rparr>])
         else
           (join '', '' (map (element_placeholder attr_key) [0..<length elements]),
            map (\<lambda>(i, elem). \<lparr> vm_placeholder = to_lowercase (element_placeholder attr_key i),
                               vm_value = elem, vm_value_type = ''string'' \<rparr>)
              (zip [0..<length elements] elements)))
      else if ta_value_type a = ''null'' then
        (scalar_placeholder attr_key,
         [\<lparr> vm_placeholder = to_lowercase (scalar_placeholder attr_key), vm_value = [],
            vm_value_type = ''null'' \<rparr>])
      else
        (scalar_placeholder attr_key,
         [\<lparr> vm_placeholder = to_lowercase (scalar_placeholder attr_key), vm_value = ta_value a,
            vm_value_type = ta_value_type a \<rparr>]))"

definition mangle_lookup :: "user_vars \<Rightarrow> string \<Rightarrow> (string, typed_attribute) result" where
  "mangle_lookup vars attr_key =
     (case resolved_attributes vars attr_key of
        Some ta \<Rightarrow> Inr ta
      | None \<Rightarrow>
          if uv_attribute_defs vars = [] then Inr \<lparr> ta_value = [], ta_value_type = ''string'' \<rparr>
          else Inl (''Policy references undefined attribute '' @ [CHR 0x27] @ attr_key @ [CHR 0x27]))"

fun mangle_attributes ::
  "expr_lib \<Rightarrow> user_vars \<Rightarrow> (string \<times> string) list \<Rightarrow> mangled \<Rightarrow> (string, mangled) result" where
  "mangle_attributes lib vars [] st = Inr st"
| "mangle_attributes lib vars ((needle, attr_key) # caps) (result, mappings) =
     bind_result (mangle_lookup vars attr_key) (\<lambda>a.
       let (text, ms) = mangle_value lib attr_key a in
       mangle_attributes lib vars caps (str_replace result needle text, mappings @ ms))"

definition mangle_vars :: "expr_lib \<Rightarrow> string \<Rightarrow> user_vars \<Rightarrow> (string, mangled) result" where
  "mangle_vars lib template vars =
     (let st = mangle_builtin vars ''user.id'' (mangle_builtin vars ''user.username'' (template, [])) in
      mangle_attributes lib vars (el_captures lib (fst st)) st)"

section \<open>What mangling guarantees\<close>

lemma mangle_attributes_extends:
  "mangle_attributes lib vars caps st = Inr st' \<Longrightarrow> prefix (snd st) (snd st')"
proof (induction caps arbitrary: st)
  case (Cons cap caps)
  obtain needle k where cap: "cap = (needle, k)" by (cases cap)
  obtain r ms where st: "st = (r, ms)" by (cases st)
  obtain a where a: "mangle_lookup vars k = Inr a"
    using Cons.prems by (auto simp: cap st)
  show ?case
    using Cons.IH [of "(str_replace r needle (fst (mangle_value lib k a)), ms @ snd (mangle_value lib k a))"]
      Cons.prems by (auto simp: cap st a split_def Let_def dest: append_prefixD)
qed simp

lemma mangle_attributes_is_ok:
  "is_ok (mangle_attributes lib vars caps st) \<longleftrightarrow> (\<forall>(needle, k) \<in> set caps. is_ok (mangle_lookup vars k))"
proof (induction lib vars caps st rule: mangle_attributes.induct)
  case (2 lib vars needle attr_key caps result mappings)
  then show ?case
    by (cases "mangle_lookup vars attr_key") (auto simp: split_def Let_def)
qed simp

lemma mangle_lookup_is_ok:
  "is_ok (mangle_lookup vars k) \<longleftrightarrow>
     uv_attribute_defs vars = [] \<or> uv_attributes vars k \<noteq> None \<or> k \<in> fst ` set (uv_attribute_defs vars)"
  by (auto simp: mangle_lookup_def resolved_attributes_def resolve_user_attribute_defaults_lookup
      map_of_eq_None_iff domI dom_map_of_conv_image_fst [symmetric] split: option.splits)

text \<open>A mapping shadows every later mapping of the same placeholder.\<close>

abbreviation mapping_for :: "var_mapping list \<Rightarrow> string \<Rightarrow> var_mapping option" where
  "mapping_for ms name \<equiv> find (\<lambda>m. vm_placeholder m = name) ms"

lemma find_prefix: "prefix xs ys \<Longrightarrow> find P xs = Some x \<Longrightarrow> find P ys = Some x"
  by (induction xs arbitrary: ys) (auto simp: prefix_def split: if_splits)

lemma builtin_placeholders:
  "to_lowercase (builtin_placeholder ''user.username'') = ''__br_user_username__''"
  "to_lowercase (builtin_placeholder ''user.id'') = ''__br_user_id__''"
  by code_simp+

text \<open>Two users look alike to a template when their attributes differ in their values only.\<close>

definition element_count :: "expr_lib \<Rightarrow> typed_attribute \<Rightarrow> nat option" where
  "element_count lib a =
     (if ta_value_type a = ''list'' then Some (length (unwrap_or (el_json_strings lib (ta_value a)) [])) else None)"

definition alike :: "expr_lib \<Rightarrow> user_vars \<Rightarrow> user_vars \<Rightarrow> bool" where
  "alike lib v v' \<longleftrightarrow>
     (uv_attribute_defs v = [] \<longleftrightarrow> uv_attribute_defs v' = []) \<and>
     (\<forall>k. map_option (element_count lib) (resolved_attributes v k) =
          map_option (element_count lib) (resolved_attributes v' k))"

definition same_text :: "mangled \<Rightarrow> mangled \<Rightarrow> bool" where
  "same_text m m' \<longleftrightarrow> fst m = fst m' \<and> map vm_placeholder (snd m) = map vm_placeholder (snd m')"

lemma mangle_value_same_text:
  "element_count lib a = element_count lib a' \<Longrightarrow> same_text (mangle_value lib k a) (mangle_value lib k a')"
  by (auto simp: mangle_value_def same_text_def element_count_def Let_def split_def comp_def
      split: if_splits intro!: nth_equalityI)

lemma mangle_lookup_alike:
  assumes "alike lib v v'"
  shows "rel_sum (=) (\<lambda>a a'. element_count lib a = element_count lib a') (mangle_lookup v k) (mangle_lookup v' k)"
proof -
  have *: "map_option (element_count lib) (resolved_attributes v k) =
      map_option (element_count lib) (resolved_attributes v' k)"
    "uv_attribute_defs v = [] \<longleftrightarrow> uv_attribute_defs v' = []"
    using assms by (simp_all add: alike_def)
  then show ?thesis
    by (cases "resolved_attributes v k"; cases "resolved_attributes v' k") (auto simp: mangle_lookup_def)
qed

lemma mangle_builtin_same_text:
  "same_text st st' \<Longrightarrow> same_text (mangle_builtin v key st) (mangle_builtin v' key st')"
  by (cases st; cases st') (auto simp: mangle_builtin_def same_text_def Let_def)

lemma mangle_attributes_same_text:
  assumes "alike lib v v'"
  shows "same_text st st' \<Longrightarrow>
    rel_sum (=) same_text (mangle_attributes lib v caps st) (mangle_attributes lib v' caps st')"
proof (induction caps arbitrary: st st')
  case (Cons cap caps)
  obtain needle k where cap: "cap = (needle, k)" by (cases cap)
  obtain r ms where st: "st = (r, ms)" by (cases st)
  obtain r' ms' where st': "st' = (r', ms')" by (cases st')
  from mangle_lookup_alike [OF assms, of k] show ?case
  proof (cases rule: rel_sum.cases)
    case (2 a a')
    have "same_text (mangle_value lib k a) (mangle_value lib k a')"
      using 2 by (simp add: mangle_value_same_text)
    then show ?thesis
      using Cons by (auto simp: cap st st' 2 split_def Let_def same_text_def)
  qed (simp add: cap st st')
qed simp

lemma mangle_vars_same_text:
  assumes "alike lib v v'"
  shows "rel_sum (=) same_text (mangle_vars lib template v) (mangle_vars lib template v')"
proof -
  define st where "st u = mangle_builtin u ''user.id'' (mangle_builtin u ''user.username'' (template, []))" for u
  have "same_text (st v) (st v')"
    by (auto simp: st_def intro!: mangle_builtin_same_text) (simp add: same_text_def)
  then show ?thesis
    using mangle_attributes_same_text [OF assms, of "st v" "st v'"]
    by (simp add: mangle_vars_def st_def same_text_def Let_def)
qed

end
