(* ===== verification/SqlExpr.thy ===== *)
theory SqlExpr
  imports TemplateVars
begin

text \<open>
  Policy expressions (\<open>hooks/policy.rs\<close>): converting a parsed SQL fragment with placeholders into a
  DataFusion expression, and parsing the filter and mask templates of policies. The SQL parser, the
  function registry and the builders of a column and of a negation are the library's.
\<close>

section \<open>Literals, operators and types\<close>

definition typed_lit :: "string \<Rightarrow> string \<Rightarrow> expr" where
  "typed_lit value value_type =
     (if value_type = ''null'' then Lit SNull
      else if value_type = ''integer'' then
        (case parse_i64 value of Some n \<Rightarrow> Lit (SInt n) | None \<Rightarrow> Lit (SStr value))
      else if value_type = ''boolean'' then
        (if value = ''true'' then Lit (SBool True)
         else if value = ''false'' then Lit (SBool False)
         else Lit (SStr value))
      else Lit (SStr value))"

lemma typed_lit_is_literal: "\<exists>s. typed_lit v t = Lit s"
  by (auto simp: typed_lit_def split: option.splits)

definition identifier_expr :: "expr_lib \<Rightarrow> var_mapping list \<Rightarrow> string \<Rightarrow> expr" where
  "identifier_expr lib var_values ident =
     (case find (\<lambda>m. vm_placeholder m = to_lowercase ident) var_values of
        Some mapping \<Rightarrow> typed_lit (vm_value mapping) (vm_value_type mapping)
      | None \<Rightarrow> Col (el_col lib ident))"

fun value_expr :: "expr_lib \<Rightarrow> sql_value \<Rightarrow> (df_error, expr) result" where
  "value_expr lib (Number n) =
     Inr (case parse_i64 n of
            Some i \<Rightarrow> Lit (SInt i)
          | None \<Rightarrow> Lit (SFloat (unwrap_or (el_f64 lib n) ''0'')))"
| "value_expr lib (SingleQuotedString s) = Inr (Lit (SStr s))"
| "value_expr lib (DoubleQuotedString s) = Inr (Lit (SStr s))"
| "value_expr lib (BooleanV b) = Inr (Lit (SBool b))"
| "value_expr lib NullV = Inr (Lit SNull)"
| "value_expr lib (OtherValue d) = Inl (''Unsupported value in filter expression: '' @ d)"

fun binary_expr :: "expr \<Rightarrow> sql_binop \<Rightarrow> expr \<Rightarrow> (df_error, expr) result" where
  "binary_expr l SqlEq r = Inr (BinaryExpr OpEq l r)"
| "binary_expr l SqlNotEq r = Inr (BinaryExpr OpNotEq l r)"
| "binary_expr l SqlLt r = Inr (BinaryExpr OpLt l r)"
| "binary_expr l SqlGt r = Inr (BinaryExpr OpGt l r)"
| "binary_expr l SqlLtEq r = Inr (BinaryExpr OpLtEq l r)"
| "binary_expr l SqlGtEq r = Inr (BinaryExpr OpGtEq l r)"
| "binary_expr l SqlAnd r = Inr (BinaryExpr OpAnd l r)"
| "binary_expr l SqlOr r = Inr (BinaryExpr OpOr l r)"
| "binary_expr l SqlStringConcat r = Inr (BinaryExpr OpStringConcat l r)"
| "binary_expr l (SqlOtherOp d) r = Inl (''Unsupported operator in filter expression: '' @ d)"

fun unary_expr :: "expr_lib \<Rightarrow> sql_unop \<Rightarrow> expr \<Rightarrow> (df_error, expr) result" where
  "unary_expr lib SqlNot e = Inr (el_not lib e)"
| "unary_expr lib SqlMinus e = Inr (Negative e)"
| "unary_expr lib (SqlOtherUnop d) e = Inl (''Unsupported unary op: '' @ d)"

fun cast_type :: "sql_type \<Rightarrow> (df_error, arrow_type) result" where
  "cast_type Varchar = Inr Utf8"
| "cast_type Text = Inr Utf8"
| "cast_type Char = Inr Utf8"
| "cast_type String = Inr Utf8"
| "cast_type SmallInt = Inr Int16"
| "cast_type Integer = Inr Int32"
| "cast_type SqlInt = Inr Int32"
| "cast_type BigInt = Inr Int64"
| "cast_type Float = Inr Float32"
| "cast_type Float4 = Inr Float32"
| "cast_type Real = Inr Float32"
| "cast_type Double = Inr Float64"
| "cast_type DoublePrecision = Inr Float64"
| "cast_type Float8 = Inr Float64"
| "cast_type SqlFloat64 = Inr Float64"
| "cast_type SqlBoolean = Inr Boolean"
| "cast_type (OtherType d) = Inl (''Unsupported CAST target type in mask/filter expression: '' @ d)"

text \<open>A registry maps the lower-case name of a function to the function it registers.\<close>

type_synonym registry = "string \<rightharpoonup> string"

definition function_name :: "name_part list \<Rightarrow> string" where
  "function_name parts = join ''.'' (List.map_filter (\<lambda>p. case p of IdentPart i \<Rightarrow> Some i | OtherPart \<Rightarrow> None) parts)"

abbreviation sq :: "string \<Rightarrow> string" where
  "sq s \<equiv> [CHR 0x27] @ s @ [CHR 0x27]"

definition function_call :: "registry option \<Rightarrow> string \<Rightarrow> expr list \<Rightarrow> (df_error, expr) result" where
  "function_call reg func_name args =
     (case reg of
        Some udfs \<Rightarrow>
          (case udfs (to_lowercase func_name) of
             None \<Rightarrow> Inl (''Unknown function '' @ sq func_name @ '' in mask expression'')
           | Some udf \<Rightarrow> Inr (ScalarFn udf args))
      | None \<Rightarrow>
          if to_uppercase func_name = ''COALESCE'' then Inr (ScalarFn ''coalesce'' args)
          else Inl (''Function '' @ sq (to_uppercase func_name) @ '' in filter expressions is not supported. For complex expressions, use column masks instead.''))"

section \<open>The converter\<close>

fun transpose_result :: "('e, 'a) result option \<Rightarrow> ('e, 'a option) result" where
  "transpose_result None = Inr None"
| "transpose_result (Some r) = bind_result r (\<lambda>x. Inr (Some x))"

fun sql_ast_to_df_expr :: "expr_lib \<Rightarrow> var_mapping list \<Rightarrow> registry option \<Rightarrow> sql_expr \<Rightarrow> (df_error, expr) result"
and args_to_df :: "expr_lib \<Rightarrow> var_mapping list \<Rightarrow> registry option \<Rightarrow> sql_args \<Rightarrow> (df_error, expr list) result"
and arg_to_df :: "expr_lib \<Rightarrow> var_mapping list \<Rightarrow> registry option \<Rightarrow> sql_arg \<Rightarrow> (df_error, expr) result" where
  "sql_ast_to_df_expr lib vs reg (Identifier ident) = Inr (identifier_expr lib vs ident)"
| "sql_ast_to_df_expr lib vs reg (CompoundIdentifier parts) = Inr (Col (el_col lib (join ''.'' parts)))"
| "sql_ast_to_df_expr lib vs reg (Value v) = value_expr lib v"
| "sql_ast_to_df_expr lib vs reg (BinaryOp left op right) =
     bind_result (sql_ast_to_df_expr lib vs reg left) (\<lambda>l.
     bind_result (sql_ast_to_df_expr lib vs reg right) (\<lambda>r. binary_expr l op r))"
| "sql_ast_to_df_expr lib vs reg (IsNull inner) =
     bind_result (sql_ast_to_df_expr lib vs reg inner) (\<lambda>e. Inr (IsNullE e))"
| "sql_ast_to_df_expr lib vs reg (IsNotNull inner) =
     bind_result (sql_ast_to_df_expr lib vs reg inner) (\<lambda>e. Inr (IsNotNullE e))"
| "sql_ast_to_df_expr lib vs reg (Nested inner) = sql_ast_to_df_expr lib vs reg inner"
| "sql_ast_to_df_expr lib vs reg (UnaryOp op e) =
     bind_result (sql_ast_to_df_expr lib vs reg e) (\<lambda>inner. unary_expr lib op inner)"
| "sql_ast_to_df_expr lib vs reg (Between e negated low high) =
     bind_result (sql_ast_to_df_expr lib vs reg e) (\<lambda>e.
     bind_result (sql_ast_to_df_expr lib vs reg low) (\<lambda>lo.
     bind_result (sql_ast_to_df_expr lib vs reg high) (\<lambda>hi.
       let between = and_expr (BinaryExpr OpGtEq e lo) (BinaryExpr OpLtEq e hi) in
       Inr (if negated then el_not lib between else between))))"
| "sql_ast_to_df_expr lib vs reg (Like negated e pattern escape) =
     bind_result (sql_ast_to_df_expr lib vs reg e) (\<lambda>col_expr.
     bind_result (sql_ast_to_df_expr lib vs reg pattern) (\<lambda>pat_expr.
       let like_expr = LikeE col_expr pat_expr in
       Inr (if negated then el_not lib like_expr else like_expr)))"
| "sql_ast_to_df_expr lib vs reg (InList e xs negated) =
     bind_result (sql_ast_to_df_expr lib vs reg e) (\<lambda>col_expr.
     bind_result (collect_results (map (sql_ast_to_df_expr lib vs reg) xs)) (\<lambda>list_exprs.
       Inr (InListE col_expr list_exprs negated)))"
| "sql_ast_to_df_expr lib vs reg (Function name args) =
     bind_result (args_to_df lib vs reg args) (\<lambda>args. function_call reg (function_name name) args)"
| "sql_ast_to_df_expr lib vs reg (Cast kind e data_type) =
     bind_result (sql_ast_to_df_expr lib vs reg e) (\<lambda>inner.
     bind_result (cast_type data_type) (\<lambda>arrow. Inr (CastE inner arrow)))"
| "sql_ast_to_df_expr lib vs reg (Case operand conditions else_result) =
     bind_result (transpose_result (map_option (sql_ast_to_df_expr lib vs reg) operand)) (\<lambda>operand_expr.
     bind_result (collect_results (map (\<lambda>(condition, res).
         bind_result (sql_ast_to_df_expr lib vs reg condition) (\<lambda>cond.
         bind_result (sql_ast_to_df_expr lib vs reg res) (\<lambda>result.
           Inr (case operand_expr of Some op \<Rightarrow> (BinaryExpr OpEq op cond, result) | None \<Rightarrow> (cond, result)))))
         conditions)) (\<lambda>when_then.
     bind_result (transpose_result (map_option (sql_ast_to_df_expr lib vs reg) else_result)) (\<lambda>else_expr.
       Inr (CaseE when_then else_expr))))"
| "sql_ast_to_df_expr lib vs reg (OtherSql d) = Inl (''Unsupported expression type in filter: '' @ d)"
| "args_to_df lib vs reg (ArgList xs) = collect_results (map (arg_to_df lib vs reg) xs)"
| "args_to_df lib vs reg ArgNone = Inr []"
| "args_to_df lib vs reg (ArgOther d) =
     Inl (''Unsupported function arguments in mask/filter expression: '' @ d)"
| "arg_to_df lib vs reg (ArgExpr e) = sql_ast_to_df_expr lib vs reg e"
| "arg_to_df lib vs reg (ArgUnsupported d) = Inl (''Unsupported function arg: '' @ d)"

section \<open>Filter and mask templates\<close>

definition parse_filter_expr :: "expr_lib \<Rightarrow> string \<Rightarrow> user_vars \<Rightarrow> (df_error, expr) result" where
  "parse_filter_expr lib template vars =
     (let trimmed = trim template in
      if trimmed = ''1=1'' \<or> trimmed = ''true'' then Inr lit_true
      else if trimmed = ''1=0'' \<or> trimmed = ''false'' then Inr lit_false
      else
        bind_result (mangle_vars lib template vars) (\<lambda>(mangled, var_values).
        bind_result (map_err (\<lambda>e. ''Failed to parse filter expression '' @ sq mangled @ '': '' @ e)
                       (el_parse lib mangled)) (\<lambda>sql_expr.
          sql_ast_to_df_expr lib var_values None sql_expr)))"

definition parse_mask_expr ::
  "expr_lib \<Rightarrow> registry \<Rightarrow> string \<Rightarrow> string \<Rightarrow> user_vars \<Rightarrow> (df_error, expr) result" where
  "parse_mask_expr lib ctx column mask_template vars =
     bind_result (mangle_vars lib mask_template vars) (\<lambda>(mangled, var_values).
     bind_result (map_err (\<lambda>e. ''Failed to parse mask expression for column '' @ sq column @ '': '' @ e)
                    (el_parse lib mangled)) (\<lambda>sql_expr.
       sql_ast_to_df_expr lib var_values (Some ctx) sql_expr))"

definition dummy_vars :: "string \<Rightarrow> user_vars" where
  "dummy_vars name = \<lparr> uv_username = name, uv_user_id = name, uv_attributes = Map.empty, uv_attribute_defs = [] \<rparr>"

definition validate_expression :: "expr_lib \<Rightarrow> registry \<Rightarrow> string \<Rightarrow> bool \<Rightarrow> (string, unit) result" where
  "validate_expression lib builtins expression is_mask =
     (if is_mask then
        map_err (\<lambda>e. ''Invalid mask expression: '' @ e)
          (bind_result (parse_mask_expr lib builtins ''dummy_col'' expression (dummy_vars ''__validate__''))
             (\<lambda>_. Inr ()))
      else
        map_err (\<lambda>e. ''Invalid filter expression: '' @ e)
          (bind_result (parse_filter_expr lib expression (dummy_vars ''__validate__'')) (\<lambda>_. Inr ())))"

definition parse_filter_expr_for_admin :: "expr_lib \<Rightarrow> string \<Rightarrow> (df_error, expr) result" where
  "parse_filter_expr_for_admin lib expression = parse_filter_expr lib expression (dummy_vars ''__admin__'')"

section \<open>Values only ever become literals\<close>

text \<open>The shape of an expression forgets the literals and keeps everything else.\<close>

fun shape :: "expr \<Rightarrow> expr" where
  "shape (Lit s) = Lit SNull"
| "shape (Col c) = Col c"
| "shape (BinaryExpr o' a b) = BinaryExpr o' (shape a) (shape b)"
| "shape (NotE a) = NotE (shape a)"
| "shape (Negative a) = Negative (shape a)"
| "shape (IsNullE a) = IsNullE (shape a)"
| "shape (IsNotNullE a) = IsNotNullE (shape a)"
| "shape (LikeE a b) = LikeE (shape a) (shape b)"
| "shape (InListE a xs n) = InListE (shape a) (map shape xs) n"
| "shape (CastE a t) = CastE (shape a) t"
| "shape (CaseE ws e) = CaseE (map (\<lambda>(c, r). (shape c, shape r)) ws) (map_option shape e)"
| "shape (ScalarFn f xs) = ScalarFn f (map shape xs)"
| "shape (AliasE a q n) = AliasE (shape a) q n"

abbreviation same_shape :: "expr \<Rightarrow> expr \<Rightarrow> bool" where
  "same_shape a b \<equiv> shape a = shape b"

abbreviation same_result :: "(df_error, expr) result \<Rightarrow> (df_error, expr) result \<Rightarrow> bool" where
  "same_result \<equiv> rel_sum (=) same_shape"

definition not_uniform :: "expr_lib \<Rightarrow> bool" where
  "not_uniform lib \<longleftrightarrow> (\<forall>a b. same_shape a b \<longrightarrow> same_shape (el_not lib a) (el_not lib b))"

lemma not_uniformD: "not_uniform lib \<Longrightarrow> same_shape a b \<Longrightarrow> same_shape (el_not lib a) (el_not lib b)"
  unfolding not_uniform_def by blast

lemma shape_cols: "expr_cols (shape e) = expr_cols e"
  by (induction e rule: shape.induct)
    (auto simp: comp_def split_def split: option.splits intro!: arg_cong [where f = concat])

lemma same_shape_cols: "same_shape a b \<Longrightarrow> expr_cols a = expr_cols b"
  by (metis shape_cols)

lemma rel_bind_result:
  assumes "rel_sum (=) R x y" "\<And>a b. R a b \<Longrightarrow> rel_sum (=) Q (f a) (g b)"
  shows "rel_sum (=) Q (bind_result x f) (bind_result y g)"
  using assms by (cases rule: rel_sum.cases) auto

lemma rel_collect_results:
  "list_all2 (rel_sum (=) R) xs ys \<Longrightarrow> rel_sum (=) (list_all2 R) (collect_results xs) (collect_results ys)"
proof (induction rule: list_all2_induct)
  case (Cons x xs y ys)
  from Cons(1) show ?case
    by (cases rule: rel_sum.cases) (auto intro!: rel_bind_result [OF Cons(3)])
qed simp

lemma rel_transpose_result:
  "rel_option (rel_sum (=) R) x y \<Longrightarrow> rel_sum (=) (rel_option R) (transpose_result x) (transpose_result y)"
  by (cases x; cases y) (auto intro: rel_bind_result)

lemma find_placeholder_cong:
  "map vm_placeholder vs = map vm_placeholder vs' \<Longrightarrow>
     rel_option (\<lambda>_ _. True) (find (\<lambda>m. vm_placeholder m = n) vs) (find (\<lambda>m. vm_placeholder m = n) vs')"
  by (induction vs arbitrary: vs') (auto simp: map_eq_Cons_conv Cons_eq_map_conv)

lemma identifier_expr_shape:
  assumes "map vm_placeholder vs = map vm_placeholder vs'"
  shows "same_shape (identifier_expr lib vs i) (identifier_expr lib vs' i)"
proof -
  have lit: "shape (typed_lit v t) = Lit SNull" for v t
    using typed_lit_is_literal [of v t] by auto
  show ?thesis
    using find_placeholder_cong [OF assms, of "to_lowercase i"]
    by (auto simp: identifier_expr_def lit elim!: option.rel_cases)
qed

lemma shape_list_all2: "list_all2 same_shape xs ys \<longleftrightarrow> map shape xs = map shape ys"
  by (simp add: list.rel_map list_all2_eq [symmetric] list_all2_map1 list_all2_map2
      list.rel_eq [symmetric] del: list.rel_eq)

lemma binary_expr_shape:
  "same_shape a a' \<Longrightarrow> same_shape b b' \<Longrightarrow> same_result (binary_expr a op b) (binary_expr a' op b')"
  by (cases op) auto

lemma unary_expr_shape:
  "not_uniform lib \<Longrightarrow> same_shape a a' \<Longrightarrow> same_result (unary_expr lib op a) (unary_expr lib op a')"
  by (cases op) (auto intro: not_uniformD)

lemma function_call_shape:
  "list_all2 same_shape xs ys \<Longrightarrow> same_result (function_call reg n xs) (function_call reg n ys)"
  unfolding function_call_def shape_list_all2
  by (cases reg; cases "the reg (to_lowercase n)"; cases "to_uppercase n = ''COALESCE''") simp_all

lemma case_shape:
  assumes "rel_option same_shape a a'" "list_all2 (rel_prod same_shape same_shape) ws ws'"
  shows "same_shape (CaseE ws a) (CaseE ws' a')"
proof -
  have "map (\<lambda>(c, r). (shape c, shape r)) ws = map (\<lambda>(c, r). (shape c, shape r)) ws'"
    using assms(2) by (induction rule: list_all2_induct) auto
  moreover have "map_option shape a = map_option shape a'"
    using assms(1) by (cases rule: option.rel_cases) auto
  ultimately show ?thesis by simp
qed


definition case_branch where
  "case_branch lib vs reg op w =
     bind_result (sql_ast_to_df_expr lib vs reg (fst w)) (\<lambda>cond.
     bind_result (sql_ast_to_df_expr lib vs reg (snd w)) (\<lambda>result.
       Inr (case op of Some op \<Rightarrow> (BinaryExpr OpEq op cond, result) | None \<Rightarrow> (cond, result))))"

lemma case_branch_eq:
  "(\<lambda>(condition, res).
      bind_result (sql_ast_to_df_expr lib vs reg condition) (\<lambda>cond.
      bind_result (sql_ast_to_df_expr lib vs reg res) (\<lambda>result.
        Inr (case op of Some op \<Rightarrow> (BinaryExpr OpEq op cond, result) | None \<Rightarrow> (cond, result))))) =
   case_branch lib vs reg op"
  by (auto simp: case_branch_def fun_eq_iff)

lemma conversion_shape:
  assumes ph: "map vm_placeholder vs = map vm_placeholder vs'" and lib: "not_uniform lib"
  shows "same_result (sql_ast_to_df_expr lib vs reg e) (sql_ast_to_df_expr lib vs' reg e)"
    and "rel_sum (=) (list_all2 same_shape) (args_to_df lib vs reg as) (args_to_df lib vs' reg as)"
    and "same_result (arg_to_df lib vs reg a) (arg_to_df lib vs' reg a)"
proof (induction e and as and a rule: sql_expr.induct sql_args.induct sql_arg.induct)
  case (Identifier i)
  then show ?case by (simp add: identifier_expr_shape [OF ph])
next
  case (Value v)
  then show ?case by (cases v) auto
next
  case (BinaryOp l op r)
  then show ?case by (auto intro!: rel_bind_result binary_expr_shape)
next
  case (IsNull e)
  then show ?case by (auto intro!: rel_bind_result)
next
  case (IsNotNull e)
  then show ?case by (auto intro!: rel_bind_result)
next
  case (UnaryOp op e)
  then show ?case by (auto intro!: rel_bind_result unary_expr_shape lib)
next
  case (Between e n lo hi)
  then show ?case
    by (simp add: Let_def)
      (erule rel_bind_result, erule rel_bind_result, erule rel_bind_result, auto intro!: not_uniformD [OF lib])
next
  case (Like n e p esc)
  then show ?case
    by (simp add: Let_def)
      (erule rel_bind_result, erule rel_bind_result, auto intro!: not_uniformD [OF lib])
next
  case (InList e xs n)
  have "rel_sum (=) (list_all2 same_shape) (collect_results (map (sql_ast_to_df_expr lib vs reg) xs))
      (collect_results (map (sql_ast_to_df_expr lib vs' reg) xs))"
    using InList(2) by (intro rel_collect_results) (simp add: list_all2_map1 list_all2_map2 list.rel_refl_strong)
  then show ?case
    using InList(1) by (auto simp: shape_list_all2 intro!: rel_bind_result)
next
  case (Function name args)
  then show ?case by (auto intro!: rel_bind_result function_call_shape)
next
  case (Cast k e t)
  then show ?case
    by (cases "cast_type t") (auto intro!: rel_bind_result)
next
  case (Case operand conds els)
  have opt: "rel_sum (=) (rel_option same_shape)
      (transpose_result (map_option (sql_ast_to_df_expr lib vs reg) x))
      (transpose_result (map_option (sql_ast_to_df_expr lib vs' reg) x))" if "x = operand \<or> x = els" for x
    using that Case(1,4) by (intro rel_transpose_result) (auto simp: option.rel_map intro!: option.rel_refl_strong)
  have sub: "same_result (sql_ast_to_df_expr lib vs reg c) (sql_ast_to_df_expr lib vs' reg c)"
    "same_result (sql_ast_to_df_expr lib vs reg r) (sql_ast_to_df_expr lib vs' reg r)"
    if "(c, r) \<in> set conds" for c r
    using that Case(2) [of "(c, r)" c] Case(3) [of "(c, r)" r] by (auto simp: fsts.simps snds.simps)
  have branch: "rel_sum (=) (rel_prod same_shape same_shape)
      (case_branch lib vs reg op w) (case_branch lib vs' reg op' w)"
    if "w \<in> set conds" "rel_option same_shape op op'" for w op op'
    unfolding case_branch_def
    using sub [of "fst w" "snd w"] that
    by (intro rel_bind_result [where R = same_shape]) (auto elim!: option.rel_cases)
  have "rel_sum (=) (list_all2 (rel_prod same_shape same_shape))
      (collect_results (map (case_branch lib vs reg op) conds))
      (collect_results (map (case_branch lib vs' reg op') conds))" if "rel_option same_shape op op'" for op op'
    using branch that
    by (intro rel_collect_results) (simp add: list_all2_map1 list_all2_map2 list.rel_refl_strong)
  then show ?case
    unfolding sql_ast_to_df_expr.simps case_branch_eq
    by (intro rel_bind_result [OF opt] rel_bind_result [where R = "list_all2 (rel_prod same_shape same_shape)"])
      (simp_all add: case_shape del: shape.simps)
next
  case (ArgList xs)
  then show ?case
    by (simp, intro rel_collect_results) (simp add: list_all2_map1 list_all2_map2 list.rel_refl_strong)
qed auto

lemma same_result_if: "same_result y y' \<Longrightarrow> same_result (if b then Inr x else y) (if b then Inr x else y')"
  by simp

lemma parse_template_shape:
  assumes "not_uniform lib" "alike lib v v'"
  shows "same_result (parse_filter_expr lib t v) (parse_filter_expr lib t v')"
    and "same_result (parse_mask_expr lib ctx c t v) (parse_mask_expr lib ctx c t v')"
proof -
  have conv: "same_result
      (bind_result (mangle_vars lib t v) (\<lambda>(m, vs). bind_result (map_err (g m) (el_parse lib m))
        (\<lambda>e. sql_ast_to_df_expr lib vs reg e)))
      (bind_result (mangle_vars lib t v') (\<lambda>(m, vs). bind_result (map_err (g m) (el_parse lib m))
        (\<lambda>e. sql_ast_to_df_expr lib vs reg e)))" for g reg
  proof (rule rel_bind_result [OF mangle_vars_same_text [OF assms(2)]])
    fix a b
    assume "same_text a b"
    then show "same_result
        ((\<lambda>(m, vs). bind_result (map_err (g m) (el_parse lib m)) (sql_ast_to_df_expr lib vs reg)) a)
        ((\<lambda>(m, vs). bind_result (map_err (g m) (el_parse lib m)) (sql_ast_to_df_expr lib vs reg)) b)"
      using conversion_shape(1) [OF _ assms(1), of "snd a" "snd b" reg]
      by (cases "map_err (g (fst b)) (el_parse lib (fst b))") (auto simp: same_text_def split_def)
  qed
  show "same_result (parse_filter_expr lib t v) (parse_filter_expr lib t v')"
    using conv [of "\<lambda>m e. ''Failed to parse filter expression '' @ sq m @ '': '' @ e" None]
    unfolding parse_filter_expr_def Let_def by (intro same_result_if) simp_all
  show "same_result (parse_mask_expr lib ctx c t v) (parse_mask_expr lib ctx c t v')"
    using conv [of "\<lambda>m e. ''Failed to parse mask expression for column '' @ sq c @ '': '' @ e" "Some ctx"]
    unfolding parse_mask_expr_def .
qed

section \<open>Properties\<close>

text \<open>A concrete library for the examples: it knows one template and its parse.\<close>

definition tenant_lib :: expr_lib where
  "tenant_lib = \<lparr>
     el_captures = (\<lambda>s. if s = ''tenant = {user.tenant}'' then [(''{user.tenant}'', ''tenant'')] else []),
     el_json_strings = (\<lambda>s. None),
     el_parse = (\<lambda>s. if s = ''tenant = __br_user_tenant__''
                     then Inr (BinaryOp (Identifier ''tenant'') SqlEq (Identifier ''__br_user_tenant__''))
                     else Inl ''syntax error''),
     el_f64 = (\<lambda>s. None), el_col = unqualified, el_not = NotE \<rparr>"

definition tenant_vars :: "string \<Rightarrow> string \<Rightarrow> user_vars" where
  "tenant_vars u t = \<lparr> uv_username = u, uv_user_id = u,
     uv_attributes = Map.empty(''tenant'' \<mapsto> \<lparr> ta_value = t, ta_value_type = ''string'' \<rparr>),
     uv_attribute_defs = [(''tenant'', \<lparr> ad_default_value = None, ad_value_type = ''string'' \<rparr>)] \<rparr>"

text \<open>
  C19. No injection through user data: for two users whose attributes differ in their values only (same
  attributes, same list lengths), every filter and mask template either fails with the same error for
  both or gives expressions of the same shape over the same columns. The user's name, id and attribute
  values can change nothing but literals.
\<close>

theorem template_values_only_become_literals:
  assumes "not_uniform lib" "alike lib v v'"
  shows "rel_sum (=) (\<lambda>e e'. shape e = shape e' \<and> expr_cols e = expr_cols e')
           (parse_filter_expr lib t v) (parse_filter_expr lib t v')
       \<and> rel_sum (=) (\<lambda>e e'. shape e = shape e' \<and> expr_cols e = expr_cols e')
           (parse_mask_expr lib ctx c t v) (parse_mask_expr lib ctx c t v')"
  by (intro conjI; rule sum.rel_mono_strong [OF parse_template_shape(1) [OF assms]]
      sum.rel_mono_strong [OF parse_template_shape(2) [OF assms]]) (auto intro: same_shape_cols)

theorem template_values_only_become_literals_witness:
  "parse_filter_expr tenant_lib ''tenant = {user.tenant}'' (tenant_vars ''ann'' ''acme'') =
     Inr (BinaryExpr OpEq (Col (unqualified ''tenant'')) (Lit (SStr ''acme'')))
   \<and> rel_sum (=) (\<lambda>e e'. shape e = shape e' \<and> expr_cols e = expr_cols e')
       (parse_filter_expr tenant_lib ''tenant = {user.tenant}'' (tenant_vars ''ann'' ''acme''))
       (parse_filter_expr tenant_lib ''tenant = {user.tenant}'' (tenant_vars ''bob'' ''x OR 1=1''))"
proof -
  have "alike tenant_lib (tenant_vars u t) (tenant_vars u' t')" for u t u' t'
    by (simp add: alike_def tenant_vars_def resolved_attributes_def resolve_user_attribute_defaults_lookup
        element_count_def)
  moreover have "not_uniform tenant_lib"
    by (simp add: not_uniform_def tenant_lib_def)
  ultimately have "rel_sum (=) (\<lambda>e e'. shape e = shape e' \<and> expr_cols e = expr_cols e')
       (parse_filter_expr tenant_lib ''tenant = {user.tenant}'' (tenant_vars ''ann'' ''acme''))
       (parse_filter_expr tenant_lib ''tenant = {user.tenant}'' (tenant_vars ''bob'' ''x OR 1=1''))"
    using template_values_only_become_literals by blast
  moreover have "parse_filter_expr tenant_lib ''tenant = {user.tenant}'' (tenant_vars ''ann'' ''acme'') =
     Inr (BinaryExpr OpEq (Col (unqualified ''tenant'')) (Lit (SStr ''acme'')))"
    by code_simp
  ultimately show ?thesis by blast
qed

lemma mapping_for_builtin:
  assumes "mangle_vars lib template vars = Inr (mangled, ms)"
  shows "str_contains template ''{user.username}'' \<Longrightarrow>
      mapping_for ms ''__br_user_username__'' =
        Some \<lparr> vm_placeholder = ''__br_user_username__'', vm_value = uv_username vars, vm_value_type = ''string'' \<rparr>"
    and "str_contains (str_replace template ''{user.username}'' ''__br_user_username__'') ''{user.id}'' \<Longrightarrow>
      mapping_for ms ''__br_user_id__'' =
        Some \<lparr> vm_placeholder = ''__br_user_id__'', vm_value = uv_user_id vars, vm_value_type = ''string'' \<rparr>"
proof -
  define st where "st = mangle_builtin vars ''user.id'' (mangle_builtin vars ''user.username'' (template, []))"
  have pre: "prefix (snd st) ms"
    using mangle_attributes_extends [of lib vars _ st "(mangled, ms)"] assms
    by (simp add: mangle_vars_def st_def Let_def)
  have ph: "builtin_placeholder ''user.username'' = ''__br_user_username__''"
    "to_lowercase ''__br_user_username__'' = ''__br_user_username__''"
    by code_simp+
  have name: "str_contains template ''{user.username}'' \<Longrightarrow>
      mapping_for (snd st) ''__br_user_username__'' =
        Some \<lparr> vm_placeholder = ''__br_user_username__'', vm_value = uv_username vars, vm_value_type = ''string'' \<rparr>"
    by (simp add: st_def mangle_builtin_def Let_def user_vars_get_def builtin_placeholders)
  have absent: "\<not> str_contains template ''{user.username}'' \<Longrightarrow>
      str_replace template ''{user.username}'' ''__br_user_username__'' = template"
    by (simp add: str_replace_def replace_from_absent)
  have "str_contains (str_replace template ''{user.username}'' ''__br_user_username__'') ''{user.id}'' \<Longrightarrow>
      mapping_for (snd st) ''__br_user_id__'' =
        Some \<lparr> vm_placeholder = ''__br_user_id__'', vm_value = uv_user_id vars, vm_value_type = ''string'' \<rparr>"
    using absent by (cases "str_contains template ''{user.username}''")
      (simp_all add: st_def mangle_builtin_def Let_def user_vars_get_def builtin_placeholders ph)
  with name find_prefix [OF pre] show
    "str_contains template ''{user.username}'' \<Longrightarrow>
      mapping_for ms ''__br_user_username__'' =
        Some \<lparr> vm_placeholder = ''__br_user_username__'', vm_value = uv_username vars, vm_value_type = ''string'' \<rparr>"
    "str_contains (str_replace template ''{user.username}'' ''__br_user_username__'') ''{user.id}'' \<Longrightarrow>
      mapping_for ms ''__br_user_id__'' =
        Some \<lparr> vm_placeholder = ''__br_user_id__'', vm_value = uv_user_id vars, vm_value_type = ''string'' \<rparr>"
    by blast+
qed

text \<open>
  The built-in variables cannot be overridden: whatever attributes and definitions a user has, when
  a template refers to \<open>{user.username}\<close>, the identifier that takes its place is converted to the
  user's name as a string literal, and likewise \<open>{user.id}\<close> to the user's id.
\<close>

theorem builtin_variables_not_overridden:
  assumes "mangle_vars lib template vars = Inr (mangled, ms)"
  shows "(str_contains template ''{user.username}'' \<longrightarrow>
           identifier_expr lib ms ''__br_user_username__'' = Lit (SStr (uv_username vars)))
       \<and> (str_contains (str_replace template ''{user.username}'' ''__br_user_username__'') ''{user.id}'' \<longrightarrow>
           identifier_expr lib ms ''__br_user_id__'' = Lit (SStr (uv_user_id vars)))"
proof -
  have low: "to_lowercase ''__br_user_username__'' = ''__br_user_username__''"
    "to_lowercase ''__br_user_id__'' = ''__br_user_id__''"
    by code_simp+
  show ?thesis
    using mapping_for_builtin [OF assms] by (simp add: identifier_expr_def low typed_lit_def)
qed

definition shadow_vars :: user_vars where
  "shadow_vars = \<lparr> uv_username = ''ann'', uv_user_id = ''7'',
     uv_attributes = Map.empty(''username'' \<mapsto> \<lparr> ta_value = ''root'', ta_value_type = ''string'' \<rparr>),
     uv_attribute_defs = [] \<rparr>"

theorem builtin_variables_not_overridden_witness:
  "\<exists>ms. mangle_vars tenant_lib ''owner = {user.username}'' shadow_vars = Inr (''owner = __br_user_username__'', ms)
      \<and> identifier_expr tenant_lib ms ''__br_user_username__'' = Lit (SStr ''ann'')"
proof -
  let ?ms = "[\<lparr> vm_placeholder = ''__br_user_username__'', vm_value = ''ann'', vm_value_type = ''string'' \<rparr>]"
  have run: "mangle_vars tenant_lib ''owner = {user.username}'' shadow_vars = Inr (''owner = __br_user_username__'', ?ms)"
    "str_contains ''owner = {user.username}'' ''{user.username}''" "uv_username shadow_vars = ''ann''"
    by code_simp+
  show ?thesis
    using builtin_variables_not_overridden [OF run(1)] run by auto
qed

text \<open>
  Undefined attributes are an error, never a silent default: with attribute definitions loaded, a
  template is mangled exactly when every attribute it refers to is set for the user or has a
  definition; without definitions (validation when a policy is saved) mangling never fails.
\<close>

theorem mangle_vars_succeeds_iff:
  "is_ok (mangle_vars lib template vars) \<longleftrightarrow>
     uv_attribute_defs vars = [] \<or>
     (\<forall>(needle, k) \<in> set (el_captures lib (fst (mangle_builtin vars ''user.id''
          (mangle_builtin vars ''user.username'' (template, []))))).
        uv_attributes vars k \<noteq> None \<or> k \<in> fst ` set (uv_attribute_defs vars))"
  by (auto simp: mangle_vars_def Let_def mangle_attributes_is_ok mangle_lookup_is_ok)

theorem mangle_vars_succeeds_iff_witness:
  "is_ok (mangle_vars tenant_lib ''tenant = {user.tenant}'' (tenant_vars ''ann'' ''acme''))
   \<and> \<not> is_ok (mangle_vars tenant_lib ''tenant = {user.tenant}''
        (shadow_vars\<lparr> uv_attribute_defs := [(''team'', \<lparr> ad_default_value = None, ad_value_type = ''string'' \<rparr>)] \<rparr>))"
proof -
  have rest: "fst (mangle_builtin vars ''user.id'' (mangle_builtin vars ''user.username'' (''tenant = {user.tenant}'', [])))
      = ''tenant = {user.tenant}''" for vars
    by code_simp
  show ?thesis
    unfolding mangle_vars_succeeds_iff rest
    by (simp add: tenant_lib_def tenant_vars_def shadow_vars_def)
qed

text \<open>
  Placeholders of different variables can coincide: the first element of a list attribute \<open>x\<close> and a
  scalar attribute \<open>x_0\<close> share one, and the mapping made first is used for both.
\<close>

definition clash_lib :: expr_lib where
  "clash_lib = tenant_lib\<lparr>
     el_captures := (\<lambda>s. [(''{user.x}'', ''x''), (''{user.x_0}'', ''x_0'')]),
     el_json_strings := (\<lambda>s. Some [''a'']) \<rparr>"

definition clash_vars :: user_vars where
  "clash_vars = shadow_vars\<lparr> uv_attributes := Map.empty(
     ''x'' \<mapsto> \<lparr> ta_value = ''[a]'', ta_value_type = ''list'' \<rparr>,
     ''x_0'' \<mapsto> \<lparr> ta_value = ''b'', ta_value_type = ''string'' \<rparr>) \<rparr>"

lemma placeholder_clash:
  "\<exists>ms. mangle_vars clash_lib ''{user.x} {user.x_0}'' clash_vars = Inr (''__br_user_x_0__ __br_user_x_0__'', ms)
     \<and> identifier_expr clash_lib ms ''__br_user_x_0__'' = Lit (SStr ''a'')"
proof -
  let ?m = "\<lambda>v. \<lparr> vm_placeholder = ''__br_user_x_0__'', vm_value = v, vm_value_type = ''string'' \<rparr>"
  have "mangle_vars clash_lib ''{user.x} {user.x_0}'' clash_vars
      = Inr (''__br_user_x_0__ __br_user_x_0__'', [?m ''a'', ?m ''b''])"
    "identifier_expr clash_lib [?m ''a'', ?m ''b''] ''__br_user_x_0__'' = Lit (SStr ''a'')"
    by code_simp+
  then show ?thesis by blast
qed

end
