(* ===== verification/Resolution.thy ===== *)
theory Resolution
  imports DfPlan
begin

text \<open>
  Column resolution (\<open>resolution/graph.rs\<close>): a row filter may name a column that its target table does
  not have. Column anchors say where such a column lives: under another name on the table itself, or on
  a parent table reached through a chain of at most three foreign keys. The rewrite joins the target
  scan with the parents on the way, filters, and projects back to the columns of the scan; a column
  that cannot be resolved is an error, which denies the query.

  The hash maps of the snapshot are lists of entries, looked up with \<open>map_of\<close>.
\<close>

section \<open>The snapshot\<close>

type_synonym table_key = "string \<times> string"

record relationship_edge =
  re_id :: uuid
  re_child_schema :: string
  re_child_table :: string
  re_child_column :: string
  re_parent_schema :: string
  re_parent_table :: string
  re_parent_column :: string

abbreviation parent_key :: "relationship_edge \<Rightarrow> table_key" where
  "parent_key e \<equiv> (re_parent_schema e, re_parent_table e)"

datatype anchor_shape = Relationship uuid | AliasAnchor string

record relationship_snapshot =
  rs_relationships :: "(uuid \<times> relationship_edge) list"
  rs_anchors :: "((string \<times> string \<times> string) \<times> anchor_shape) list"
  rs_columns_by_table :: "(table_key \<times> string list) list"

definition snapshot_is_empty :: "relationship_snapshot \<Rightarrow> bool" where
  "snapshot_is_empty snap \<longleftrightarrow> rs_relationships snap = [] \<and> rs_anchors snap = []"

definition table_columns :: "relationship_snapshot \<Rightarrow> table_key \<Rightarrow> string list option" where
  "table_columns snap k = map_of (rs_columns_by_table snap) k"

definition table_has_column :: "relationship_snapshot \<Rightarrow> table_key \<Rightarrow> string \<Rightarrow> bool" where
  "table_has_column snap k column =
     unwrap_or (map_option (\<lambda>cols. column \<in> set cols) (table_columns snap k)) False"

definition get_anchor_shape :: "relationship_snapshot \<Rightarrow> table_key \<Rightarrow> string \<Rightarrow> anchor_shape option" where
  "get_anchor_shape snap k column = map_of (rs_anchors snap) (fst k, snd k, column)"

definition get_anchor_edge :: "relationship_snapshot \<Rightarrow> table_key \<Rightarrow> string \<Rightarrow> relationship_edge option" where
  "get_anchor_edge snap k column =
     (case get_anchor_shape snap k column of
        None \<Rightarrow> None
      | Some (Relationship rel_id) \<Rightarrow> map_of (rs_relationships snap) rel_id
      | Some (AliasAnchor _) \<Rightarrow> None)"

datatype resolution_error =
    NoColumnAnchor string string string
  | DepthLimitExceeded string string string
  | ChainCycle string string string
  | QualifiedParentRefNotSupported string
  | MissingParentScan string string
  | UnresolvableFilterColumn string string string
  | PlanBuild string

section \<open>Walking the anchors\<close>

definition MAX_DEPTH :: nat where
  "MAX_DEPTH = 3"

definition ALIAS_PREFIX :: string where
  "ALIAS_PREFIX = ''__br_anchor_''"

record resolved_hop =
  rh_alias :: string
  rh_edge :: relationship_edge

datatype resolved_column =
    Hops "resolved_hop list" string
  | SameTable string

definition hop_alias :: "string \<Rightarrow> nat \<Rightarrow> string" where
  "hop_alias parent_table counter = ALIAS_PREFIX @ parent_table @ ''_'' @ show_nat counter"

text \<open>The loop of \<open>resolve_column\<close>; the first argument counts the iterations left.\<close>

fun resolve_hops ::
  "nat \<Rightarrow> relationship_snapshot \<Rightarrow> table_key \<Rightarrow> string \<Rightarrow> table_key \<Rightarrow> table_key list \<Rightarrow> resolved_hop list \<Rightarrow> nat
    \<Rightarrow> (resolution_error, resolved_column \<times> nat) result" where
  "resolve_hops 0 snap target column current visited hops counter =
     Inl (DepthLimitExceeded (fst target) (snd target) column)"
| "resolve_hops (Suc n) snap target column current visited hops counter =
     (case get_anchor_edge snap current column of
        None \<Rightarrow> Inl (NoColumnAnchor (fst current) (snd current) column)
      | Some edge \<Rightarrow>
          let alias = hop_alias (re_parent_table edge) counter;
              hops = hops @ [\<lparr> rh_alias = alias, rh_edge = edge \<rparr>] in
          if table_has_column snap (parent_key edge) column then Inr (Hops hops alias, Suc counter)
          else if parent_key edge \<in> set visited then Inl (ChainCycle (fst target) (snd target) column)
          else resolve_hops n snap target column (parent_key edge) (parent_key edge # visited) hops (Suc counter))"

definition resolve_column ::
  "table_key \<Rightarrow> string \<Rightarrow> relationship_snapshot \<Rightarrow> nat \<Rightarrow> (resolution_error, resolved_column \<times> nat) result" where
  "resolve_column target column snap counter =
     (case get_anchor_shape snap target column of
        Some (AliasAnchor actual) \<Rightarrow> Inr (SameTable actual, counter)
      | _ \<Rightarrow> resolve_hops MAX_DEPTH snap target column target [target] [] counter)"

section \<open>Columns of a filter\<close>

definition unqualified_names :: "expr \<Rightarrow> string list" where
  "unqualified_names e = map c_name (filter (\<lambda>c. c_relation c = None) (expr_cols e))"

definition expr_column_names :: "expr \<Rightarrow> string list" where
  "expr_column_names e = map c_name (expr_cols e)"

text \<open>The columns to resolve: collected into an ordered set for plan building.\<close>

definition missing_columns :: "string list \<Rightarrow> expr \<Rightarrow> string list" where
  "missing_columns target_columns e =
     sorted_list_of_set (set (filter (\<lambda>n. n \<notin> set target_columns) (unqualified_names e)))"

fun parents_of :: "resolved_column \<Rightarrow> table_key list" where
  "parents_of (Hops hops _) = map (parent_key \<circ> rh_edge) hops"
| "parents_of (SameTable _) = []"

definition parents_needed_for ::
  "relationship_snapshot \<Rightarrow> table_key \<Rightarrow> expr \<Rightarrow> (resolution_error, table_key list) result" where
  "parents_needed_for snap target filter_expr =
     (case table_columns snap target of
        None \<Rightarrow> Inr []
      | Some target_columns \<Rightarrow>
          bind_result
            (collect_results (map (\<lambda>col_name. resolve_column target col_name snap 0)
               (missing_columns target_columns filter_expr)))
            (\<lambda>rs. Inr (remdups (concat (map (parents_of \<circ> fst) rs)))))"

definition requalify_column ::
  "string \<Rightarrow> (string \<rightharpoonup> string) \<Rightarrow> (string \<rightharpoonup> string) \<Rightarrow> column \<Rightarrow> column" where
  "requalify_column target_table requalify rename_columns c =
     (case c_relation c of
        None \<Rightarrow>
          (case rename_columns (c_name c) of
             Some actual \<Rightarrow> unqualified actual
           | None \<Rightarrow>
               (case requalify (c_name c) of
                  Some alias \<Rightarrow> \<lparr> c_relation = Some (bare alias), c_name = c_name c \<rparr>
                | None \<Rightarrow> c))
      | Some rel \<Rightarrow>
          if tr_table rel = target_table then \<lparr> c_relation = Some (bare target_table), c_name = c_name c \<rparr>
          else c)"

definition requalify_expr :: "expr \<Rightarrow> string \<Rightarrow> (string \<rightharpoonup> string) \<Rightarrow> (string \<rightharpoonup> string) \<Rightarrow> expr" where
  "requalify_expr e target_table requalify rename_columns =
     map_cols (requalify_column target_table requalify rename_columns) e"

section \<open>Building the resolution plan\<close>

type_synonym hop_key = "string \<times> string \<times> string \<times> string \<times> string \<times> string"

definition hop_key :: "relationship_edge \<Rightarrow> hop_key" where
  "hop_key e = (re_child_schema e, re_child_table e, re_child_column e,
                re_parent_schema e, re_parent_table e, re_parent_column e)"

record hop_state =
  hs_dedup :: "(hop_key \<times> string) list"
  hs_ordered :: "(resolved_hop \<times> string) list"

text \<open>Laying one chain: an edge already joined is reused, a new one is joined to the previous alias.\<close>

fun lay_hops :: "resolved_hop list \<Rightarrow> string \<Rightarrow> hop_state \<Rightarrow> string \<times> hop_state" where
  "lay_hops [] prev_alias st = (prev_alias, st)"
| "lay_hops (hop # hops) prev_alias st =
     (case map_of (hs_dedup st) (hop_key (rh_edge hop)) of
        Some existing_alias \<Rightarrow> lay_hops hops existing_alias st
      | None \<Rightarrow>
          lay_hops hops (rh_alias hop)
            (st\<lparr> hs_dedup := (hop_key (rh_edge hop), rh_alias hop) # hs_dedup st,
                hs_ordered := hs_ordered st @ [(hop, prev_alias)] \<rparr>))"

record laid =
  la_terminal :: "string \<rightharpoonup> string"
  la_rename :: "string \<rightharpoonup> string"
  la_hops :: hop_state

fun lay_columns ::
  "table_key \<Rightarrow> relationship_snapshot \<Rightarrow> string list \<Rightarrow> nat \<Rightarrow> laid \<Rightarrow> (resolution_error, laid) result" where
  "lay_columns target snap [] counter l = Inr l"
| "lay_columns target snap (col_name # cols) counter l =
     bind_result (resolve_column target col_name snap counter) (\<lambda>(resolution, counter).
       case resolution of
         SameTable actual \<Rightarrow>
           lay_columns target snap cols counter (l\<lparr> la_rename := (la_rename l)(col_name \<mapsto> actual) \<rparr>)
       | Hops hops terminal_alias \<Rightarrow>
           let (final_alias, st) = lay_hops hops (snd target) (la_hops l) in
           lay_columns target snap cols counter
             (l\<lparr> la_terminal := (la_terminal l)(col_name \<mapsto> final_alias), la_hops := st \<rparr>))"

definition no_hops :: hop_state where
  "no_hops = \<lparr> hs_dedup = [], hs_ordered = [] \<rparr>"

definition nothing_laid :: laid where
  "nothing_laid = \<lparr> la_terminal = Map.empty, la_rename = Map.empty, la_hops = no_hops \<rparr>"

type_synonym parent_scans = "table_key \<rightharpoonup> plan"

definition join_condition :: "resolved_hop \<Rightarrow> string \<Rightarrow> expr" where
  "join_condition hop child_alias =
     BinaryExpr OpEq
       (Col \<lparr> c_relation = Some (bare child_alias), c_name = re_child_column (rh_edge hop) \<rparr>)
       (Col \<lparr> c_relation = Some (bare (rh_alias hop)), c_name = re_parent_column (rh_edge hop) \<rparr>)"

fun join_chain ::
  "df_ops \<Rightarrow> parent_scans \<Rightarrow> (resolved_hop \<times> string) list \<Rightarrow> plan \<Rightarrow> (resolution_error, plan) result" where
  "join_chain df parent_scans [] builder = Inr builder"
| "join_chain df parent_scans ((hop, child_alias) # hops) builder =
     (let e = rh_edge hop in
      bind_result (ok_or (parent_scans (parent_key e)) (MissingParentScan (re_parent_schema e) (re_parent_table e)))
        (\<lambda>parent_plan.
      bind_result (map_err PlanBuild (df_alias df parent_plan (rh_alias hop))) (\<lambda>aliased.
      bind_result (map_err PlanBuild (df_join_on df builder aliased [join_condition hop child_alias]))
        (\<lambda>builder. join_chain df parent_scans hops builder))))"

definition finish_plan ::
  "df_ops \<Rightarrow> table_key \<Rightarrow> plan \<Rightarrow> expr \<Rightarrow> parent_scans \<Rightarrow> laid \<Rightarrow> (resolution_error, plan) result" where
  "finish_plan df target target_scan filter_expr parent_scans l =
     (let rewritten = requalify_expr filter_expr (snd target) (la_terminal l) (la_rename l);
          target_scan_columns = df_schema df target_scan in
      if hs_ordered (la_hops l) = [] then map_err PlanBuild (df_filter df target_scan rewritten)
      else
        bind_result (join_chain df parent_scans (hs_ordered (la_hops l)) target_scan) (\<lambda>builder.
        bind_result (map_err PlanBuild (df_filter df builder rewritten)) (\<lambda>builder.
          if target_scan_columns = [] then Inr builder
          else map_err PlanBuild (df_project df builder (map Col target_scan_columns)))))"

definition foreign_ref :: "string \<Rightarrow> column \<Rightarrow> bool" where
  "foreign_ref target_table c = (case c_relation c of None \<Rightarrow> False | Some rel \<Rightarrow> tr_table rel \<noteq> target_table)"

definition build_column_resolution_plan ::
  "df_ops \<Rightarrow> table_key \<Rightarrow> plan \<Rightarrow> expr \<Rightarrow> relationship_snapshot \<Rightarrow> parent_scans
    \<Rightarrow> (resolution_error, plan option) result" where
  "build_column_resolution_plan df target target_scan filter_expr snap parent_scans =
     (case table_columns snap target of
        None \<Rightarrow> Inr None
      | Some target_columns \<Rightarrow>
          (case find (foreign_ref (snd target)) (expr_cols filter_expr) of
             Some c \<Rightarrow> Inl (QualifiedParentRefNotSupported (c_name c))
           | None \<Rightarrow>
               (let missing = missing_columns target_columns filter_expr in
                if missing = [] then Inr None
                else
                  bind_result (lay_columns target snap missing 0 nothing_laid) (\<lambda>l.
                    bind_result (finish_plan df target target_scan filter_expr parent_scans l)
                      (\<lambda>p. Inr (Some p))))))"

section \<open>The walk is right\<close>

text \<open>
  The reference: a chain of edges follows the anchors of a column from a table, and ends at the first
  parent that has the column.
\<close>

fun anchor_chain :: "relationship_snapshot \<Rightarrow> string \<Rightarrow> table_key \<Rightarrow> relationship_edge list \<Rightarrow> bool" where
  "anchor_chain snap column k [] \<longleftrightarrow> False"
| "anchor_chain snap column k (e # es) \<longleftrightarrow>
     get_anchor_edge snap k column = Some e \<and>
     (if table_has_column snap (parent_key e) column then es = [] else anchor_chain snap column (parent_key e) es)"

lemma anchor_chain_unique:
  "anchor_chain snap column k es \<Longrightarrow> anchor_chain snap column k es' \<Longrightarrow> es = es'"
proof (induction snap column k es arbitrary: es' rule: anchor_chain.induct)
  case (2 snap column k e es)
  then show ?case by (cases es') (auto split: if_splits)
qed simp

lemma anchor_chain_last:
  "anchor_chain snap column k es \<Longrightarrow> table_has_column snap (parent_key (last es)) column"
  by (induction snap column k es rule: anchor_chain.induct) (auto split: if_splits)

text \<open>\<open>leads\<close>: following anchors from one table arrives at another without meeting the column.\<close>

inductive leads :: "relationship_snapshot \<Rightarrow> string \<Rightarrow> table_key \<Rightarrow> table_key \<Rightarrow> bool"
  for snap :: relationship_snapshot and column :: string where
  here: "leads snap column k k"
| hop: "get_anchor_edge snap k column = Some e \<Longrightarrow> \<not> table_has_column snap (parent_key e) column \<Longrightarrow>
     leads snap column (parent_key e) k' \<Longrightarrow> leads snap column k k'"

lemma leads_snoc:
  "leads snap column v k \<Longrightarrow> get_anchor_edge snap k column = Some e \<Longrightarrow>
     \<not> table_has_column snap (parent_key e) column \<Longrightarrow> leads snap column v (parent_key e)"
  by (induction rule: leads.induct) (auto intro: leads.intros)

lemma leads_suffix:
  "leads snap column v k \<Longrightarrow> anchor_chain snap column v es \<Longrightarrow>
     \<exists>es'. anchor_chain snap column k es' \<and> length es' \<le> length es"
proof (induction arbitrary: es rule: leads.induct)
  case (hop k e k')
  then obtain es1 where es: "es = e # es1" "anchor_chain snap column (parent_key e) es1"
    by (cases es) auto
  obtain es' where "anchor_chain snap column k' es'" "length es' \<le> length es1"
    using hop.IH [OF es(2)] by blast
  then show ?case by (auto simp: es(1) intro: exI [of _ es'])
qed auto

lemma no_chain_round_a_cycle:
  assumes "leads snap column v k" "get_anchor_edge snap k column = Some e" "parent_key e = v"
    "\<not> table_has_column snap v column"
  shows "\<not> anchor_chain snap column k es"
proof
  assume "anchor_chain snap column k es"
  then obtain es1 where es: "es = e # es1" "anchor_chain snap column v es1"
    using assms by (cases es) auto
  obtain es2 where es2: "anchor_chain snap column k es2" "length es2 \<le> length es1"
    using leads_suffix [OF assms(1) es(2)] by blast
  with anchor_chain_unique [OF es2(1) \<open>anchor_chain snap column k es\<close>] es(1) show False by simp
qed

fun label :: "nat \<Rightarrow> relationship_edge list \<Rightarrow> resolved_hop list" where
  "label c [] = []"
| "label c (e # es) = \<lparr> rh_alias = hop_alias (re_parent_table e) c, rh_edge = e \<rparr> # label (Suc c) es"

lemma label_simps [simp]: "length (label c es) = length es" "map rh_edge (label c es) = es"
  by (induction c es rule: label.induct) auto

lemma label_eq_Nil [simp]: "label c es = [] \<longleftrightarrow> es = []"
  by (cases es) auto

text \<open>The answer for a chain: its edges, labelled with the aliases counted from \<open>c\<close> on.\<close>

definition answer :: "resolved_hop list \<Rightarrow> nat \<Rightarrow> relationship_edge list \<Rightarrow> resolved_column \<times> nat" where
  "answer hops c es = (Hops (hops @ label c es) (rh_alias (last (label c es))), c + length es)"

lemma labelled_step:
  assumes "get_anchor_edge snap k column = Some e" "\<not> table_has_column snap (parent_key e) column"
  shows "(\<exists>es. anchor_chain snap column k es \<and> length es \<le> Suc n \<and> r = answer hops c es) \<longleftrightarrow>
    (\<exists>es. anchor_chain snap column (parent_key e) es \<and> length es \<le> n \<and>
       r = answer (hops @ [\<lparr> rh_alias = hop_alias (re_parent_table e) c, rh_edge = e \<rparr>]) (Suc c) es)"
proof -
  have "anchor_chain snap column k es \<longleftrightarrow>
      (\<exists>es1. es = e # es1 \<and> anchor_chain snap column (parent_key e) es1)" for es
    using assms by (cases es) auto
  moreover have "answer hops c (e # es) =
      answer (hops @ [\<lparr> rh_alias = hop_alias (re_parent_table e) c, rh_edge = e \<rparr>]) (Suc c) es"
    if "anchor_chain snap column (parent_key e) es" for es
    using that by (cases es) (auto simp: answer_def)
  ultimately show ?thesis by (auto simp del: label.simps)
qed

lemma resolve_hops_iff:
  assumes "\<forall>v \<in> set visited. leads snap column v current"
  shows "resolve_hops n snap target column current visited hops c = Inr r \<longleftrightarrow>
    (\<exists>es. anchor_chain snap column current es \<and> length es \<le> n \<and>
       r = answer hops c es)"
  using assms
proof (induction n arbitrary: current visited hops c)
  case 0
  show ?case by (auto elim: anchor_chain.elims)
next
  case (Suc n)
  show ?case
  proof (cases "get_anchor_edge snap current column")
    case None
    have "\<not> anchor_chain snap column current es" for es
      using None by (cases es) auto
    with None show ?thesis by simp
  next
    case (Some e)
    have chain: "anchor_chain snap column current es \<longleftrightarrow> (\<exists>es1. es = e # es1 \<and>
        (if table_has_column snap (parent_key e) column then es1 = [] else anchor_chain snap column (parent_key e) es1))"
      for es using Some by (cases es) auto
    consider (has) "table_has_column snap (parent_key e) column"
      | (cycle) "\<not> table_has_column snap (parent_key e) column" "parent_key e \<in> set visited"
      | (fresh) "\<not> table_has_column snap (parent_key e) column" "parent_key e \<notin> set visited" by blast
    then show ?thesis
    proof cases
      case has
      with Some show ?thesis by (auto simp: chain Let_def answer_def)
    next
      case cycle
      then have "\<not> anchor_chain snap column current es" for es
        using Suc.prems Some by (intro no_chain_round_a_cycle [OF _ Some refl]) auto
      with cycle Some show ?thesis by (simp add: Let_def)
    next
      case fresh
      have led: "\<forall>v \<in> set (parent_key e # visited). leads snap column v (parent_key e)"
        using Suc.prems leads_snoc [OF _ Some fresh(1)] by (auto intro: leads.here)
      have run: "resolve_hops (Suc n) snap target column current visited hops c =
          resolve_hops n snap target column (parent_key e) (parent_key e # visited)
            (hops @ [\<lparr> rh_alias = hop_alias (re_parent_table e) c, rh_edge = e \<rparr>]) (Suc c)"
        using fresh Some by (simp add: Let_def)
      show ?thesis
        unfolding run Suc.IH [OF led] labelled_step [OF Some fresh(1)] ..
    qed
  qed
qed

definition aliased :: "relationship_snapshot \<Rightarrow> table_key \<Rightarrow> string \<Rightarrow> bool" where
  "aliased snap target column \<longleftrightarrow> (\<exists>actual. get_anchor_shape snap target column = Some (AliasAnchor actual))"

lemma resolve_column_Hops_iff:
  "resolve_column target column snap c = Inr (Hops hops a, c') \<longleftrightarrow>
     \<not> aliased snap target column \<and>
     (\<exists>es. anchor_chain snap column target es \<and> length es \<le> MAX_DEPTH \<and> (Hops hops a, c') = answer [] c es)"
  using resolve_hops_iff [of "[target]" snap column target MAX_DEPTH target "[]" c "(Hops hops a, c')"]
  by (auto simp: resolve_column_def aliased_def leads.here split: option.splits anchor_shape.splits)

lemma resolve_column_SameTable_iff:
  "resolve_column target column snap c = Inr (SameTable actual, c') \<longleftrightarrow>
     get_anchor_shape snap target column = Some (AliasAnchor actual) \<and> c' = c"
  using resolve_hops_iff [of "[target]" snap column target MAX_DEPTH target "[]" c "(SameTable actual, c')"]
  by (auto simp: resolve_column_def leads.here answer_def split: option.splits anchor_shape.splits)

lemma resolve_column_cases:
  assumes "resolve_column target column snap c = Inr (r, c')"
  obtains (same) actual where "r = SameTable actual" "c' = c"
      "get_anchor_shape snap target column = Some (AliasAnchor actual)"
    | (hops) es where "r = Hops (label c es) (rh_alias (last (label c es)))" "c' = c + length es"
      "\<not> aliased snap target column" "anchor_chain snap column target es" "length es \<le> MAX_DEPTH"
  using assms
  by (cases r) (auto simp: resolve_column_Hops_iff resolve_column_SameTable_iff answer_def)

text \<open>Neither success nor the parents of a resolution depend on the alias counter.\<close>

lemma resolve_column_ok_counter:
  "is_ok (resolve_column target column snap c) \<longleftrightarrow> is_ok (resolve_column target column snap d)"
proof -
  have "is_ok (resolve_column target column snap d)" if ok: "is_ok (resolve_column target column snap c)" for c d
  proof -
    obtain r c' where "resolve_column target column snap c = Inr (r, c')"
      using ok by (cases "resolve_column target column snap c") auto
    then show ?thesis
    proof (cases rule: resolve_column_cases)
      case (same actual)
      then have "resolve_column target column snap d = Inr (SameTable actual, d)"
        by (simp add: resolve_column_SameTable_iff)
      then show ?thesis by simp
    next
      case (hops es)
      then have "resolve_column target column snap d = Inr (Hops (label d es) (rh_alias (last (label d es))), d + length es)"
        by (auto simp: resolve_column_Hops_iff answer_def)
      then show ?thesis by simp
    qed
  qed
  then show ?thesis by blast
qed

section \<open>Planned parents suffice\<close>

definition chain_edge :: "relationship_snapshot \<Rightarrow> table_key \<Rightarrow> string \<Rightarrow> relationship_edge \<Rightarrow> bool" where
  "chain_edge snap target column e \<longleftrightarrow>
     (\<exists>es. \<not> aliased snap target column \<and> anchor_chain snap column target es \<and> length es \<le> MAX_DEPTH \<and> e \<in> set es)"

lemma lay_hops_ordered:
  "lay_hops hops prev st = (a, st') \<Longrightarrow> (h, ca) \<in> set (hs_ordered st') \<Longrightarrow>
     (h, ca) \<in> set (hs_ordered st) \<or> h \<in> set hops"
  by (induction hops prev st rule: lay_hops.induct) (auto split: option.splits)

lemma lay_columns_ordered:
  assumes "lay_columns target snap cols c l = Inr l'" "(h, ca) \<in> set (hs_ordered (la_hops l'))"
  shows "(h, ca) \<in> set (hs_ordered (la_hops l)) \<or> (\<exists>column \<in> set cols. chain_edge snap target column (rh_edge h))"
  using assms
proof (induction cols arbitrary: c l)
  case (Cons column cols)
  obtain r c1 where r: "resolve_column target column snap c = Inr (r, c1)"
    using Cons.prems(1) by (cases "resolve_column target column snap c") auto
  from r show ?case
  proof (cases rule: resolve_column_cases)
    case (same actual)
    show ?thesis
      using Cons.IH [of c1 "l\<lparr> la_rename := (la_rename l)(column \<mapsto> actual) \<rparr>"] Cons.prems r same(1) by auto
  next
    case (hops es)
    obtain a st where st: "lay_hops (label c es) (snd target) (la_hops l) = (a, st)" by fastforce
    have "rh_edge h \<in> set es" if "h \<in> set (label c es)"
      using that label_simps(2) [of c es] by (metis image_eqI list.set_map)
    then have "h \<in> set (label c es) \<Longrightarrow> chain_edge snap target column (rh_edge h)"
      using hops by (auto simp: chain_edge_def)
    then show ?thesis
      using Cons.IH [of c1 "l\<lparr> la_terminal := (la_terminal l)(column \<mapsto> a), la_hops := st \<rparr>"]
        Cons.prems r hops(1) st lay_hops_ordered [OF st, of h ca]
      by auto
  qed
qed auto

lemma lay_columns_ok:
  "\<forall>column \<in> set cols. is_ok (resolve_column target column snap 0) \<Longrightarrow> \<exists>l'. lay_columns target snap cols c l = Inr l'"
proof (induction cols arbitrary: c l)
  case (Cons column cols)
  then have "is_ok (resolve_column target column snap c)"
    using resolve_column_ok_counter [of target column snap 0 c] by simp
  then obtain r c1 where r: "resolve_column target column snap c = Inr (r, c1)"
    by (cases "resolve_column target column snap c") auto
  show ?case
    using Cons r by (cases r) (auto simp: split_def Let_def)
qed simp

lemma join_chain_error:
  "join_chain df ps hops b = Inl err \<Longrightarrow>
     (\<exists>msg. err = PlanBuild msg) \<or> (\<exists>(h, ca) \<in> set hops. ps (parent_key (rh_edge h)) = None)"
  by (induction df ps hops b rule: join_chain.induct)
    (auto simp: Let_def bind_result_Inl ok_or_Inl map_err_Inl)

lemma finish_plan_error:
  assumes "finish_plan df target scan e ps l = Inl err"
  shows "(\<exists>msg. err = PlanBuild msg) \<or> (\<exists>(h, ca) \<in> set (hs_ordered (la_hops l)). ps (parent_key (rh_edge h)) = None)"
  using assms
  by (auto simp: finish_plan_def Let_def bind_result_Inl map_err_Inl split: if_splits dest!: join_chain_error)

lemma parents_needed_ok:
  assumes "parents_needed_for snap target e = Inr ks" "table_columns snap target = Some cols"
    "column \<in> set (missing_columns cols e)"
  shows "is_ok (resolve_column target column snap 0)"
    and "chain_edge snap target column edge \<Longrightarrow> parent_key edge \<in> set ks"
proof -
  define mc where "mc = missing_columns cols e"
  obtain rs where rs: "map (\<lambda>n. resolve_column target n snap 0) mc = map Inr rs"
      and ks: "ks = remdups (concat (map (parents_of \<circ> fst) rs))"
    using assms(1,2) by (auto simp: parents_needed_for_def mc_def collect_results_Inr)
  have "resolve_column target column snap 0 \<in> set (map Inr rs)"
    using assms(3) by (simp flip: rs add: mc_def)
  then obtain r where r: "r \<in> set rs" "resolve_column target column snap 0 = Inr r" by auto
  then show "is_ok (resolve_column target column snap 0)" by simp
  assume "chain_edge snap target column edge"
  then obtain es where es: "\<not> aliased snap target column" "anchor_chain snap column target es"
      "length es \<le> MAX_DEPTH" "edge \<in> set es"
    by (auto simp: chain_edge_def)
  have "resolve_column target column snap 0 = Inr (fst r, snd r)" by (simp add: r(2))
  then have "fst r = Hops (label 0 es) (rh_alias (last (label 0 es)))"
  proof (cases rule: resolve_column_cases)
    case (same actual)
    with es(1) show ?thesis by (auto simp: aliased_def)
  next
    case (hops es')
    with anchor_chain_unique [OF es(2) hops(4)] show ?thesis by simp
  qed
  moreover have "map (parent_key \<circ> rh_edge) (label 0 es) = map parent_key es"
    by (simp flip: list.map_comp)
  ultimately have "parent_key edge \<in> set (parents_of (fst r))"
    using es(4) by simp
  with r(1) ks show "parent_key edge \<in> set ks" by auto
qed

section \<open>What the resolution plan computes\<close>

text \<open>
  The reference for the joined rows. Let \<open>E\<close> be the edges of all chains, one chain after the other. An
  edge is joined once, under the alias of its first position in \<open>E\<close>; in the chain that uses it first, its
  child is the edge before it, or the target.
\<close>

fun key_alias :: "nat \<Rightarrow> relationship_edge list \<Rightarrow> hop_key \<Rightarrow> string" where
  "key_alias c [] k = ''''"
| "key_alias c (e # es) k = (if hop_key e = k then hop_alias (re_parent_table e) c else key_alias (Suc c) es k)"

abbreviation edge_alias :: "relationship_edge list \<Rightarrow> relationship_edge \<Rightarrow> string" where
  "edge_alias E e \<equiv> key_alias 0 E (hop_key e)"

fun first_by :: "('a \<Rightarrow> 'b) \<Rightarrow> 'a list \<Rightarrow> 'a list" where
  "first_by f [] = []"
| "first_by f (x # xs) = x # filter (\<lambda>y. f y \<noteq> f x) (first_by f xs)"

fun with_child :: "relationship_edge list \<Rightarrow> string \<Rightarrow> relationship_edge list \<Rightarrow> (string \<times> relationship_edge) list" where
  "with_child E child [] = []"
| "with_child E child (e # es) = (child, e) # with_child E (edge_alias E e) es"

type_synonym join_step = "string \<times> string \<times> relationship_edge"

definition join_steps :: "string \<Rightarrow> relationship_edge list list \<Rightarrow> join_step list" where
  "join_steps target_table ess =
     (let E = concat ess in
      map (\<lambda>(child, e). (child, edge_alias E e, e)) (first_by (hop_key \<circ> snd) (concat (map (with_child E target_table) ess))))"

abbreviation field_of :: "string \<Rightarrow> string \<Rightarrow> column" where
  "field_of a n \<equiv> \<lparr> c_relation = Some (bare a), c_name = n \<rparr>"

text \<open>
  A row of the target extended, step by step, by a row of each parent whose key column is equal to the
  foreign key column of its child.
\<close>

fun linked :: "sem \<Rightarrow> (table_key \<Rightarrow> row list) \<Rightarrow> join_step list \<Rightarrow> row \<Rightarrow> row \<Rightarrow> bool" where
  "linked s R [] x z \<longleftrightarrow> z = x"
| "linked s R ((child, a, e) # js) x z \<longleftrightarrow>
     (\<exists>r \<in> set (R (parent_key e)).
        let y = x @ alias_row a r in
        holds s (BinaryExpr OpEq (Col (field_of child (re_child_column e))) (Col (field_of a (re_parent_column e)))) y \<and>
        linked s R js y z)"

definition parent_rows :: "sem \<Rightarrow> (table_ref \<Rightarrow> string list \<Rightarrow> row list) \<Rightarrow> parent_scans \<Rightarrow> table_key \<Rightarrow> row list" where
  "parent_rows s S ps k = (case ps k of None \<Rightarrow> [] | Some q \<Rightarrow> eval_over s S q)"

text \<open>Where the columns of a filter are read: own columns as they are, aliased ones under their own name, others at the end of their chain.\<close>

definition resolved_ref ::
  "relationship_snapshot \<Rightarrow> table_key \<Rightarrow> string list \<Rightarrow> relationship_edge list \<Rightarrow> (string \<rightharpoonup> relationship_edge list) \<Rightarrow> column \<Rightarrow> column" where
  "resolved_ref snap target own E chain c =
     (case c_relation c of
        Some _ \<Rightarrow> field_of (snd target) (c_name c)
      | None \<Rightarrow>
          if c_name c \<in> set own then c
          else (case get_anchor_shape snap target (c_name c) of
                  Some (AliasAnchor actual) \<Rightarrow> unqualified actual
                | _ \<Rightarrow> (case chain (c_name c) of None \<Rightarrow> c | Some es \<Rightarrow> field_of (edge_alias E (last es)) (c_name c))))"

lemma first_by_append:
  "first_by f (xs @ ys) = first_by f xs @ filter (\<lambda>y. f y \<notin> f ` set xs) (first_by f ys)"
  by (induction xs) (auto intro: filter_cong)

lemma first_by_known: "f x \<in> f ` set xs \<Longrightarrow> first_by f (xs @ [x]) = first_by f xs"
  by (simp add: first_by_append)

lemma set_first_by: "set (first_by f xs) \<subseteq> set xs"
  by (induction xs) auto

lemma key_alias_append:
  "key_alias c (E @ E') k = (if k \<in> hop_key ` set E then key_alias c E k else key_alias (c + length E) E' k)"
  by (induction E arbitrary: c) auto

lemma key_alias_at:
  assumes "c < length E" "hop_key (E ! c) \<notin> hop_key ` set (take c E)"
  shows "edge_alias E (E ! c) = hop_alias (re_parent_table (E ! c)) c"
proof -
  have E: "E = take c E @ E ! c # drop (Suc c) E" using assms(1) by (rule id_take_nth_drop)
  show ?thesis using assms by (subst E, subst key_alias_append) simp
qed

lemma with_child_simps [simp]: "map snd (with_child E child es) = es" "length (with_child E child es) = length es"
  by (induction es arbitrary: child) auto

text \<open>What the joins laid so far are: the first uses of the edges gone through.\<close>

definition laid_joins :: "relationship_edge list \<Rightarrow> (string \<times> relationship_edge) list \<Rightarrow> hop_state \<Rightarrow> bool" where
  "laid_joins E uses st \<longleftrightarrow>
     map_of (hs_dedup st) = (\<lambda>k. if k \<in> hop_key ` snd ` set uses then Some (key_alias 0 E k) else None) \<and>
     hs_ordered st = map (\<lambda>(child, e). (\<lparr> rh_alias = edge_alias E e, rh_edge = e \<rparr>, child)) (first_by (hop_key \<circ> snd) uses)"

lemma laid_joins_snoc:
  assumes "laid_joins E uses st"
  shows "hop_key e \<in> hop_key ` snd ` set uses \<Longrightarrow> laid_joins E (uses @ [(child, e)]) st"
    and "hop_key e \<notin> hop_key ` snd ` set uses \<Longrightarrow> laid_joins E (uses @ [(child, e)])
      (st\<lparr> hs_dedup := (hop_key e, edge_alias E e) # hs_dedup st,
          hs_ordered := hs_ordered st @ [(\<lparr> rh_alias = edge_alias E e, rh_edge = e \<rparr>, child)] \<rparr>)"
  using assms by (auto simp: laid_joins_def first_by_append fun_eq_iff image_image comp_def)

lemma lay_hops_joins:
  assumes "laid_joins E uses st" "E = map snd uses @ es @ rest"
  shows "\<exists>st'. lay_hops (label (length uses) es) prev st = (if es = [] then prev else edge_alias E (last es), st') \<and>
    laid_joins E (uses @ with_child E prev es) st'"
  using assms
proof (induction es arbitrary: uses st prev)
  case (Cons e es)
  let ?uses = "uses @ [(prev, e)]"
  have E: "E = map snd ?uses @ es @ rest" and len: "length ?uses = Suc (length uses)" using Cons.prems(2) by simp_all
  have at: "edge_alias E e = hop_alias (re_parent_table e) (length uses)" if "hop_key e \<notin> hop_key ` snd ` set uses"
    using key_alias_at [of "length uses" E] that Cons.prems(2) by (simp add: nth_append)
  show ?case
  proof (cases "hop_key e \<in> hop_key ` snd ` set uses")
    case True
    then have "map_of (hs_dedup st) (hop_key e) = Some (edge_alias E e)" using Cons.prems(1) by (simp add: laid_joins_def)
    with Cons.IH [OF laid_joins_snoc(1) [OF Cons.prems(1) True] E, of "edge_alias E e"] show ?thesis by (auto simp: len)
  next
    case False
    then have "map_of (hs_dedup st) (hop_key e) = None" using Cons.prems(1) by (simp add: laid_joins_def)
    with Cons.IH [OF laid_joins_snoc(2) [OF Cons.prems(1) False] E, of "edge_alias E e"] at [OF False] show ?thesis
      by (auto simp: len)
  qed
qed simp

text \<open>The chains of the columns that are not aliased, in the order of the columns.\<close>

inductive column_chains :: "relationship_snapshot \<Rightarrow> table_key \<Rightarrow> string list \<Rightarrow> (string \<times> relationship_edge list) list \<Rightarrow> bool"
  for snap :: relationship_snapshot and target :: table_key where
  none: "column_chains snap target [] []"
| renamed: "get_anchor_shape snap target n = Some (AliasAnchor actual) \<Longrightarrow> column_chains snap target ns ces \<Longrightarrow> column_chains snap target (n # ns) ces"
| chain: "\<not> aliased snap target n \<Longrightarrow> anchor_chain snap n target es \<Longrightarrow> length es \<le> MAX_DEPTH \<Longrightarrow>
     column_chains snap target ns ces \<Longrightarrow> column_chains snap target (n # ns) ((n, es) # ces)"

lemma lay_columns_chains: "lay_columns target snap ns c l = Inr l' \<Longrightarrow> \<exists>ces. column_chains snap target ns ces"
proof (induction ns arbitrary: c l)
  case (Cons n ns)
  obtain r c1 where r: "resolve_column target n snap c = Inr (r, c1)"
    using Cons.prems(1) by (cases "resolve_column target n snap c") auto
  from r show ?case
  proof (cases rule: resolve_column_cases)
    case (same actual)
    with Cons.IH Cons.prems r show ?thesis by simp (blast intro: column_chains.renamed)
  next
    case (hops es)
    with Cons.IH Cons.prems r show ?thesis by (simp add: split_def Let_def) (blast intro: column_chains.chain)
  qed
qed (auto intro: column_chains.none)

lemma chains_of:
  "column_chains snap target ns ces \<Longrightarrow> map_of ces n = Some es \<Longrightarrow> n \<in> set ns \<and> \<not> aliased snap target n \<and> anchor_chain snap n target es"
  by (induction rule: column_chains.induct) (auto split: if_splits)

lemma chains_unique: "column_chains snap target ns ces \<Longrightarrow> column_chains snap target ns ces' \<Longrightarrow> ces = ces'"
proof (induction arbitrary: ces' rule: column_chains.induct)
  case none
  then show ?case by (auto elim: column_chains.cases)
next
  case (renamed n actual ns ces)
  from renamed(4) show ?case by cases (use renamed in \<open>auto simp: aliased_def\<close>)
next
  case (chain n es ns ces)
  note same = chain(1) chain.IH anchor_chain_unique [OF chain(2)]
  from chain(6) show ?case
  proof cases
    case (renamed actual)
    with same(1) show ?thesis by (simp add: aliased_def)
  next
    case (chain es1 ces1)
    then show ?thesis using same(2) [of ces1] same(3) [of es1] by simp
  qed
qed

lemma anchor_chain_nonempty: "anchor_chain snap n k es \<Longrightarrow> es \<noteq> []"
  by (cases es) auto

text \<open>The outcome of laying the columns, in terms of their chains.\<close>

lemma lay_columns_joins:
  assumes "column_chains snap target ns ces" "lay_columns target snap ns (length uses) l = Inr l'" "laid_joins E uses (la_hops l)"
    "E = map snd uses @ concat (map snd ces) @ rest" "distinct ns"
  shows "laid_joins E (uses @ concat (map (with_child E (snd target) \<circ> snd) ces)) (la_hops l') \<and>
    (\<forall>n. la_terminal l' n = (case map_of ces n of Some es \<Rightarrow> Some (edge_alias E (last es)) | None \<Rightarrow> la_terminal l n)) \<and>
    (\<forall>n. la_rename l' n = (if n \<in> set ns then (case get_anchor_shape snap target n of Some (AliasAnchor a) \<Rightarrow> Some a | _ \<Rightarrow> la_rename l n)
                           else la_rename l n))"
  using assms
proof (induction arbitrary: uses l rule: column_chains.induct)
  case (renamed n actual ns ces)
  let ?l = "l\<lparr> la_rename := (la_rename l)(n \<mapsto> actual) \<rparr>"
  have "resolve_column target n snap (length uses) = Inr (SameTable actual, length uses)"
    using renamed(1) by (simp add: resolve_column_SameTable_iff)
  then have lay: "lay_columns target snap ns (length uses) ?l = Inr l'" using renamed.prems(1) by simp
  have n: "n \<notin> set ns" "distinct ns" and laid: "laid_joins E uses (la_hops ?l)" using renamed.prems(2,4) by auto
  have IH: "laid_joins E (uses @ concat (map (with_child E (snd target) \<circ> snd) ces)) (la_hops l')"
    "la_terminal l' m = (case map_of ces m of Some es \<Rightarrow> Some (edge_alias E (last es)) | None \<Rightarrow> la_terminal ?l m)"
    "la_rename l' m = (if m \<in> set ns then (case get_anchor_shape snap target m of Some (AliasAnchor a) \<Rightarrow> Some a | _ \<Rightarrow> la_rename ?l m)
                           else la_rename ?l m)" for m
    using renamed.IH [OF lay laid renamed.prems(3) n(2)] by blast+
  show ?case
    using IH(1) n(1) renamed(1)
    by (intro conjI allI) (simp_all add: IH(2,3) comp_def split: option.split anchor_shape.split)
next
  case (chain n es ns ces)
  have run: "resolve_column target n snap (length uses) = Inr (Hops (label (length uses) es) (rh_alias (last (label (length uses) es))), length uses + length es)"
    using chain(1-3) by (auto simp: resolve_column_Hops_iff answer_def)
  have ne: "es \<noteq> []" using anchor_chain_nonempty [OF chain(2)] .
  obtain st where st: "lay_hops (label (length uses) es) (snd target) (la_hops l) = (edge_alias E (last es), st)"
      "laid_joins E (uses @ with_child E (snd target) es) st"
    using lay_hops_joins [OF chain.prems(2), of es "concat (map snd ces) @ rest" "snd target"] chain.prems(3) ne by auto
  let ?l = "l\<lparr> la_terminal := (la_terminal l)(n \<mapsto> edge_alias E (last es)), la_hops := st \<rparr>"
  let ?uses = "uses @ with_child E (snd target) es"
  have len: "length ?uses = length uses + length es"
    by simp
  have lay: "lay_columns target snap ns (length ?uses) ?l = Inr l'"
    using chain.prems(1) run st(1) unfolding len by simp
  have laid: "laid_joins E ?uses (la_hops ?l)" using st(2) by simp
  have E: "E = map snd ?uses @ concat (map snd ces) @ rest" using chain.prems(3) by simp
  have n: "n \<notin> set ns" "distinct ns" using chain.prems(4) by auto
  have IH: "laid_joins E (?uses @ concat (map (with_child E (snd target) \<circ> snd) ces)) (la_hops l')"
    "la_terminal l' m = (case map_of ces m of Some es \<Rightarrow> Some (edge_alias E (last es)) | None \<Rightarrow> la_terminal ?l m)"
    "la_rename l' m = (if m \<in> set ns then (case get_anchor_shape snap target m of Some (AliasAnchor a) \<Rightarrow> Some a | _ \<Rightarrow> la_rename ?l m)
                           else la_rename ?l m)" for m
    using chain.IH [OF lay laid E n(2)] by blast+
  have "map_of ces n = None"
    using chains_of [OF chain(4), of n] n(1) by (cases "map_of ces n") auto
  then show ?case
    using IH(1) n(1) chain(1) by (intro conjI allI) (auto simp: IH(2,3) comp_def aliased_def split: option.split anchor_shape.split)
qed simp

abbreviation steps_of :: "(resolved_hop \<times> string) list \<Rightarrow> join_step list" where
  "steps_of hops \<equiv> map (\<lambda>(h, child). (child, rh_alias h, rh_edge h)) hops"

lemma steps_of_laid_joins:
  "laid_joins E uses st \<Longrightarrow> steps_of (hs_ordered st) = map (\<lambda>(child, e). (child, edge_alias E e, e)) (first_by (hop_key \<circ> snd) uses)"
  by (simp add: laid_joins_def split_def)

lemma eval_join_chain:
  assumes "df_laws df"
  shows "join_chain df ps hops b = Inr q \<Longrightarrow>
    z \<in> set (eval_over s S q) \<longleftrightarrow> (\<exists>x \<in> set (eval_over s S b). linked s (parent_rows s S ps) (steps_of hops) x z)"
proof (induction hops arbitrary: b)
  case (Cons h hops)
  obtain hop child where h: "h = (hop, child)" by (cases h)
  obtain parent a b' where parent: "ps (parent_key (rh_edge hop)) = Some parent" and a: "df_alias df parent (rh_alias hop) = Inr a"
      and b': "df_join_on df b a [join_condition hop child] = Inr b'" and rest: "join_chain df ps hops b' = Inr q"
    using Cons.prems by (auto simp: h Let_def)
  have b': "b' = Join b (SubqueryAlias (rh_alias hop) parent) [join_condition hop child]"
    using df_laws_simps(3) [OF assms b'] df_laws_simps(4) [OF assms a] by simp
  show ?case
    unfolding Cons.IH [OF rest] b' h
    using parent_rows_def [of s S ps "parent_key (rh_edge hop)"] parent
    by (simp add: join_condition_def Let_def) blast
qed simp

lemma linked_extends: "linked s R js x z \<Longrightarrow> \<exists>y. z = x @ y"
proof (induction js arbitrary: x)
  case (Cons j js)
  then obtain r where "linked s R js (x @ alias_row (fst (snd j)) r) z" by (cases j) (auto simp: Let_def)
  then show ?case using Cons.IH by fastforce
qed simp

lemma project_row_back:
  assumes "sem_laws s" "map fst x = cols" "distinct cols"
  shows "project_row s (map Col cols) (x @ y) = x"
proof (rule nth_equalityI)
  fix i
  assume "i < length (project_row s (map Col cols) (x @ y))"
  then have i: "i < length x" using assms(2) by (auto simp: project_row_def)
  then have "map_of (x @ y) (fst (x ! i)) = Some (snd (x ! i))"
    using assms(2,3) by (simp add: map_add_Some_iff)
  then show "project_row s (map Col cols) (x @ y) ! i = x ! i"
    using i assms(2) sem_laws_simps(4) [OF assms(1), of "x @ y" "fst (x ! i)" "snd (x ! i)"]
    by (auto simp: project_row_def prod_eq_iff simp del: map_of_append)
qed (use assms(2) in \<open>auto simp: project_row_def\<close>)

lemma finish_plan_exact:
  assumes "df_laws df" "sem_laws s" "finish_plan df target scan e ps l = Inr p"
    and rows: "\<forall>row \<in> set (eval_over s S scan). map fst row = df_schema df scan"
    and "distinct (df_schema df scan)" "df_schema df scan \<noteq> []"
  shows "x \<in> set (eval_over s S p) \<longleftrightarrow> x \<in> set (eval_over s S scan) \<and>
    (\<exists>z. linked s (parent_rows s S ps) (steps_of (hs_ordered (la_hops l))) x z \<and>
       holds s (requalify_expr e (snd target) (la_terminal l) (la_rename l)) z)"
proof (cases "hs_ordered (la_hops l) = []")
  case True
  then have "p = Filter (requalify_expr e (snd target) (la_terminal l) (la_rename l)) scan"
    using assms(1,3) by (auto simp: finish_plan_def dest: df_laws_simps)
  with True show ?thesis by simp
next
  case False
  let ?filter = "requalify_expr e (snd target) (la_terminal l) (la_rename l)"
  let ?linked = "linked s (parent_rows s S ps) (steps_of (hs_ordered (la_hops l)))"
  obtain j where j: "join_chain df ps (hs_ordered (la_hops l)) scan = Inr j"
      and p: "p = Projection (map Col (df_schema df scan)) (Filter ?filter j)"
    using False assms(3,6) by (auto simp: finish_plan_def Let_def dest!: df_laws_simps(1-4) [OF assms(1)])
  have project: "project_row s (map Col (df_schema df scan)) z = x'" if x': "x' \<in> set (eval_over s S scan)" and z: "?linked x' z" for x' z
    using linked_extends [OF z] project_row_back [OF assms(2)] rows x' assms(5) by auto
  have "x \<in> set (eval_over s S p) \<longleftrightarrow>
      (\<exists>z \<in> set (eval_over s S j). holds s ?filter z \<and> x = project_row s (map Col (df_schema df scan)) z)"
    by (auto simp: p)
  also have "\<dots> \<longleftrightarrow> (\<exists>x' \<in> set (eval_over s S scan). \<exists>z. ?linked x' z \<and> holds s ?filter z \<and> x = project_row s (map Col (df_schema df scan)) z)"
    using eval_join_chain [OF assms(1) j, of _ s S] by blast
  also have "\<dots> \<longleftrightarrow> x \<in> set (eval_over s S scan) \<and> (\<exists>z. ?linked x z \<and> holds s ?filter z)"
  proof (intro iffI conjI)
    assume "\<exists>x' \<in> set (eval_over s S scan). \<exists>z. ?linked x' z \<and> holds s ?filter z \<and> x = project_row s (map Col (df_schema df scan)) z"
    then obtain x' z where "x' \<in> set (eval_over s S scan)" "?linked x' z" "holds s ?filter z" "x = x'" using project by blast
    then show "x \<in> set (eval_over s S scan)" "\<exists>z. ?linked x z \<and> holds s ?filter z" by blast+
  next
    assume "x \<in> set (eval_over s S scan) \<and> (\<exists>z. ?linked x z \<and> holds s ?filter z)"
    then obtain z where z: "x \<in> set (eval_over s S scan)" "?linked x z" "holds s ?filter z" by blast
    have "x = project_row s (map Col (df_schema df scan)) z" using project [OF z(1,2)] by (rule sym)
    with z show "\<exists>x' \<in> set (eval_over s S scan). \<exists>z. ?linked x' z \<and> holds s ?filter z \<and> x = project_row s (map Col (df_schema df scan)) z"
      by blast
  qed
  finally show ?thesis .
qed

lemma finish_plan_rows:
  assumes "df_laws df" "sem_laws s" "finish_plan df target scan e ps l = Inr p"
    and "\<forall>row \<in> set (eval_over s S scan). map fst row = df_schema df scan"
    and "distinct (df_schema df scan)" "df_schema df scan \<noteq> []"
    and "x \<in> set (eval_over s S p)"
  shows "x \<in> set (eval_over s S scan) \<and>
    (\<exists>y. holds s (requalify_expr e (snd target) (la_terminal l) (la_rename l)) (x @ y))"
  using finish_plan_exact [OF assms(1-6), of x] assms(7) linked_extends by blast

lemma map_cols_cong: "(\<And>c. c \<in> set (expr_cols e) \<Longrightarrow> f c = g c) \<Longrightarrow> map_cols f e = map_cols g e"
proof (induction e rule: expr_cols.induct)
  case (11 ws els)
  have "map_cols f a = map_cols g a \<and> map_cols f b = map_cols g b" if "(a, b) \<in> set ws" for a b
    using 11(1) [OF that refl] 11(2) [OF that refl] 11(4) that by fastforce
  moreover have "map_option (map_cols f) els = map_option (map_cols g) els"
    using 11(3,4) by (cases els) auto
  ultimately show ?case by (auto intro!: map_cong)
qed (auto intro!: map_cong)

text \<open>The rows of the plan in terms of the chains of the missing columns.\<close>

lemma resolution_plan_rows:
  assumes laws: "df_laws df" "sem_laws s" and build: "build_column_resolution_plan df target scan e snap parent_scans = Inr (Some p)"
    and own: "table_columns snap target = Some own"
    and scan: "\<forall>row \<in> set (eval_over s S scan). map fst row = df_schema df scan"
      "distinct (df_schema df scan)" "df_schema df scan \<noteq> []"
    and E: "E = concat (map snd ces)" and ces: "column_chains snap target (missing_columns own e) ces"
  shows "x \<in> set (eval_over s S p) \<longleftrightarrow> x \<in> set (eval_over s S scan) \<and>
    (\<exists>z. linked s (parent_rows s S parent_scans) (join_steps (snd target) (map snd ces)) x z \<and>
       holds s (map_cols (resolved_ref snap target own E (map_of ces)) e) z)"
proof -
  let ?ns = "missing_columns own e"
  obtain l where l: "lay_columns target snap ?ns 0 nothing_laid = Inr l" "finish_plan df target scan e parent_scans l = Inr p"
      and local: "find (foreign_ref (snd target)) (expr_cols e) = None"
    using build own by (auto simp: build_column_resolution_plan_def Let_def split: option.splits if_splits)
  have start: "laid_joins E [] (la_hops nothing_laid)" by (simp add: laid_joins_def nothing_laid_def no_hops_def)
  have joins: "laid_joins E (concat (map (with_child E (snd target) \<circ> snd) ces)) (la_hops l)"
    and terminal: "la_terminal l n = map_option (\<lambda>es. edge_alias E (last es)) (map_of ces n)"
    and rename: "la_rename l n = (if n \<in> set ?ns then (case get_anchor_shape snap target n of Some (AliasAnchor a) \<Rightarrow> Some a | _ \<Rightarrow> None) else None)" for n
  proof -
    have "distinct ?ns" by (simp add: missing_columns_def)
    then have "laid_joins E ([] @ concat (map (with_child E (snd target) \<circ> snd) ces)) (la_hops l) \<and>
      (\<forall>n. la_terminal l n = (case map_of ces n of Some es \<Rightarrow> Some (edge_alias E (last es)) | None \<Rightarrow> la_terminal nothing_laid n)) \<and>
      (\<forall>n. la_rename l n = (if n \<in> set ?ns then (case get_anchor_shape snap target n of Some (AliasAnchor a) \<Rightarrow> Some a | _ \<Rightarrow> la_rename nothing_laid n)
                             else la_rename nothing_laid n))"
      using lay_columns_joins [OF ces, of "[]" nothing_laid l E "[]"] l(1) start E by simp
    then show "laid_joins E (concat (map (with_child E (snd target) \<circ> snd) ces)) (la_hops l)"
      "la_terminal l n = map_option (\<lambda>es. edge_alias E (last es)) (map_of ces n)"
      "la_rename l n = (if n \<in> set ?ns then (case get_anchor_shape snap target n of Some (AliasAnchor a) \<Rightarrow> Some a | _ \<Rightarrow> None) else None)" for n
      by (simp_all add: nothing_laid_def map_option_case split: option.split anchor_shape.split)
  qed
  have "steps_of (hs_ordered (la_hops l)) = join_steps (snd target) (map snd ces)"
    unfolding steps_of_laid_joins [OF joins] by (simp add: join_steps_def Let_def E)
  moreover have "requalify_expr e (snd target) (la_terminal l) (la_rename l) = map_cols (resolved_ref snap target own E (map_of ces)) e"
    unfolding requalify_expr_def
  proof (rule map_cols_cong)
    fix c
    assume c: "c \<in> set (expr_cols e)"
    have "\<not> foreign_ref (snd target) c" using local c by (auto simp: find_None_iff)
    moreover have "c_relation c = None \<Longrightarrow> c_name c \<in> set ?ns \<longleftrightarrow> c_name c \<notin> set own"
      using c by (auto simp: missing_columns_def unqualified_names_def)
    moreover have "c_name c \<notin> set ?ns \<Longrightarrow> map_of ces (c_name c) = None"
      using chains_of [OF ces, of "c_name c"] by (cases "map_of ces (c_name c)") auto
    ultimately show "requalify_column (snd target) (la_terminal l) (la_rename l) c = resolved_ref snap target own E (map_of ces) c"
      by (auto simp: requalify_column_def resolved_ref_def foreign_ref_def terminal rename
          split: option.splits anchor_shape.splits)
  qed
  ultimately show ?thesis using finish_plan_exact [OF laws l(2) scan, of x] by simp
qed

lemma build_column_chains:
  assumes "build_column_resolution_plan df target scan e snap parent_scans = Inr (Some p)" "table_columns snap target = Some own"
  obtains ces where "column_chains snap target (missing_columns own e) ces"
proof -
  obtain l where "lay_columns target snap (missing_columns own e) 0 nothing_laid = Inr l"
    using assms by (auto simp: build_column_resolution_plan_def Let_def split: option.splits if_splits)
  then show thesis using lay_columns_chains that by blast
qed

text \<open>A chain that ends with an edge of an earlier chain adds the joins of its other edges only.\<close>

lemma with_child_cong:
  "(\<And>e. e \<in> set es \<Longrightarrow> edge_alias E e = edge_alias E' e) \<Longrightarrow> with_child E child es = with_child E' child es"
  by (induction es arbitrary: child) auto

lemma with_child_snoc:
  "with_child E child (es @ [e]) = with_child E child es @ [(if es = [] then child else edge_alias E (last es), e)]"
  by (induction es arbitrary: child) auto

lemma join_steps_shared:
  assumes "hop_key e \<in> hop_key ` set es1"
  shows "join_steps t [es1, es2 @ [e]] = join_steps t [es1, es2]"
proof -
  let ?E = "es1 @ es2 @ [e]" and ?E' = "es1 @ es2"
  have same: "key_alias 0 ?E k = key_alias 0 ?E' k" if "k \<in> hop_key ` set ?E'" for k
    using that by (auto simp: key_alias_append image_Un)
  have uses: "with_child ?E t es1 = with_child ?E' t es1" "with_child ?E t es2 = with_child ?E' t es2"
    by (auto intro!: with_child_cong same)
  have edges: "snd ` set (with_child ?E' t es) = set es" for es
    using with_child_simps(1) [of ?E' t es] by (metis list.set_map)
  then have "(hop_key \<circ> snd) (child, e) \<in> (hop_key \<circ> snd) ` set (with_child ?E' t es1 @ with_child ?E' t es2)" for child
    using assms unfolding image_comp [symmetric] set_append image_Un by simp
  then have "first_by (hop_key \<circ> snd) (with_child ?E t es1 @ with_child ?E t (es2 @ [e])) =
      first_by (hop_key \<circ> snd) (with_child ?E' t es1 @ with_child ?E' t es2)"
    unfolding with_child_snoc uses append_assoc [of _ "with_child ?E' t es2", symmetric] by (rule first_by_known)
  moreover have "edge_alias ?E e = edge_alias ?E' e"
    if "(child, e) \<in> set (first_by (hop_key \<circ> snd) (with_child ?E' t es1 @ with_child ?E' t es2))" for child e
  proof -
    have "(child, e) \<in> set (with_child ?E' t es1) \<union> set (with_child ?E' t es2)"
      using subsetD [OF set_first_by that] by simp
    then have "e \<in> set es1 \<union> set es2" unfolding edges [symmetric] by force
    then show ?thesis by (intro same) simp
  qed
  ultimately show ?thesis by (auto simp: join_steps_def Let_def intro!: map_cong)
qed

lemma column_chains_Cons:
  assumes "column_chains snap target (n # ns) ces" "\<not> aliased snap target n" "anchor_chain snap n target es"
  obtains ces1 where "ces = (n, es) # ces1" "column_chains snap target ns ces1"
  using assms(1)
proof cases
  case (renamed actual)
  with assms(2) show thesis by (simp add: aliased_def)
next
  case (chain es' ces1)
  then show thesis using that anchor_chain_unique [OF assms(3)] by blast
qed

lemma two_chains:
  assumes "column_chains snap target [n1, n2] ces" "\<not> aliased snap target n1" "anchor_chain snap n1 target es1"
    "\<not> aliased snap target n2" "anchor_chain snap n2 target es2"
  shows "ces = [(n1, es1), (n2, es2)]"
proof -
  obtain ces1 where ces1: "ces = (n1, es1) # ces1" "column_chains snap target [n2] ces1"
    using column_chains_Cons [OF assms(1-3)] .
  obtain ces2 where ces2: "ces1 = (n2, es2) # ces2" "column_chains snap target [] ces2"
    using column_chains_Cons [OF ces1(2) assms(4,5)] .
  from ces2(2) have "ces2 = []" by cases
  with ces1 ces2 show ?thesis by simp
qed

section \<open>Examples\<close>

text \<open>Orders have a billing and a shipping customer; customers belong to organisations.\<close>

definition edge :: "uuid \<Rightarrow> string \<Rightarrow> string \<Rightarrow> string \<Rightarrow> relationship_edge" where
  "edge i child column parent = \<lparr> re_id = i, re_child_schema = ''s'', re_child_table = child,
     re_child_column = column, re_parent_schema = ''s'', re_parent_table = parent, re_parent_column = ''id'' \<rparr>"

definition orders_snapshot :: relationship_snapshot where
  "orders_snapshot = \<lparr>
     rs_relationships = [(1, edge 1 ''orders'' ''bill'' ''custs''), (2, edge 2 ''orders'' ''ship'' ''custs''),
                         (3, edge 3 ''custs'' ''org'' ''orgs'')],
     rs_anchors = [((''s'', ''orders'', ''tenant''), Relationship 1), ((''s'', ''custs'', ''tenant''), Relationship 3),
                   ((''s'', ''orders'', ''region''), Relationship 2), ((''s'', ''custs'', ''region''), Relationship 3)],
     rs_columns_by_table = [((''s'', ''orders''), [''bill'', ''ship'']), ((''s'', ''custs''), [''id'', ''org'']),
                            ((''s'', ''orgs''), [''id'', ''tenant'', ''region''])] \<rparr>"

abbreviation tbl :: "string \<Rightarrow> table_ref" where
  "tbl t \<equiv> bare t"

definition orders_scan :: plan where
  "orders_scan = TableScan (tbl ''orders'') [''bill'', ''ship'']"

definition orders_parents :: parent_scans where
  "orders_parents = Map.empty((''s'', ''custs'') \<mapsto> TableScan (tbl ''custs'') [''id'', ''org''],
     (''s'', ''orgs'') \<mapsto> TableScan (tbl ''orgs'') [''id'', ''tenant'', ''region''])"

definition mk_row :: "string \<Rightarrow> (string \<times> scalar) list \<Rightarrow> row" where
  "mk_row t fs = map (\<lambda>(n, v). (\<lparr> c_relation = Some (tbl t), c_name = n \<rparr>, v)) fs"

text \<open>One order, billed to a customer of tenant 1 and shipped to one of tenant 2.\<close>

definition orders_data :: "table_ref \<Rightarrow> string list \<Rightarrow> row list" where
  "orders_data r cs =
     (if tr_table r = ''orders'' then [mk_row ''orders'' [(''bill'', SInt 10), (''ship'', SInt 20)]]
      else if tr_table r = ''custs'' then
        [mk_row ''custs'' [(''id'', SInt 10), (''org'', SInt 1)], mk_row ''custs'' [(''id'', SInt 20), (''org'', SInt 2)]]
      else [mk_row ''orgs'' [(''id'', SInt 1), (''tenant'', SInt 1), (''region'', SInt 7)],
            mk_row ''orgs'' [(''id'', SInt 2), (''tenant'', SInt 2), (''region'', SInt 8)]])"

abbreviation orders_row :: row where
  "orders_row \<equiv> mk_row ''orders'' [(''bill'', SInt 10), (''ship'', SInt 20)]"

lemma orders_own: "table_columns orders_snapshot (''s'', ''orders'') = Some [''bill'', ''ship'']"
  by (simp add: table_columns_def orders_snapshot_def)

lemma orders_conform:
  "\<forall>row \<in> set (eval_over plain_sem orders_data orders_scan). map fst row = df_schema plain_df orders_scan"
  "distinct (df_schema plain_df orders_scan)" "df_schema plain_df orders_scan \<noteq> []"
  by (simp_all add: orders_scan_def orders_data_def mk_row_def plain_df_def)

definition is_val :: "string \<Rightarrow> int \<Rightarrow> expr" where
  "is_val c v = BinaryExpr OpEq (Col (unqualified c)) (Lit (SInt v))"

abbreviation orders_plan :: "expr \<Rightarrow> (resolution_error, plan option) result" where
  "orders_plan e \<equiv> build_column_resolution_plan plain_df (''s'', ''orders'') orders_scan e orders_snapshot orders_parents"

definition orders_rows :: "expr \<Rightarrow> row list option" where
  "orders_rows e =
     (case orders_plan e of Inr (Some p) \<Rightarrow> Some (eval_over plain_sem orders_data p) | _ \<Rightarrow> None)"

section \<open>Properties\<close>

text \<open>
  C23. Column resolution is exact: a column resolves to hops precisely when the target has no alias for
  it and its anchors form a chain of at most three edges ending at the first parent table that has the
  column; the hops are then the edges of that chain, with aliases numbered from the counter. In
  particular the cycle check never rejects a chain that would have reached the column.
\<close>

theorem resolve_column_exact:
  "(\<exists>c'. resolve_column target column snap c = Inr (Hops hops a, c')) \<longleftrightarrow>
     \<not> aliased snap target column \<and>
     (\<exists>es. anchor_chain snap column target es \<and> length es \<le> 3 \<and>
        hops = label c es \<and> a = rh_alias (last hops))"
  by (auto simp: resolve_column_Hops_iff answer_def MAX_DEPTH_def)

text \<open>
  C31. Planning the parents beforehand is enough: when the parents needed for a filter were computed
  and every one of them was planned, building the resolution plan can fail only because the filter
  refers to another table by a qualified name or because the library rejects a node; no parent scan is
  missing and every column that was resolved before resolves again.
\<close>

theorem planned_parents_suffice:
  assumes "parents_needed_for snap target e = Inr ks" "\<forall>k \<in> set ks. parent_scans k \<noteq> None"
    "build_column_resolution_plan df target scan e snap parent_scans = Inl err"
  shows "(\<exists>msg. err = PlanBuild msg) \<or> (\<exists>n. err = QualifiedParentRefNotSupported n)"
proof -
  obtain cols where cols: "table_columns snap target = Some cols"
    using assms(3) by (auto simp: build_column_resolution_plan_def split: option.splits)
  define mc where "mc = missing_columns cols e"
  obtain l where l: "lay_columns target snap mc 0 nothing_laid = Inr l"
    using lay_columns_ok [of mc target snap 0 nothing_laid] parents_needed_ok(1) [OF assms(1) cols]
    by (auto simp: mc_def)
  have "parent_scans (parent_key (rh_edge h)) \<noteq> None" if laid: "(h, ca) \<in> set (hs_ordered (la_hops l))" for h ca
  proof -
    obtain column where "column \<in> set mc" "chain_edge snap target column (rh_edge h)"
      using lay_columns_ordered [OF l laid] by (auto simp: nothing_laid_def no_hops_def)
    then show ?thesis
      using parents_needed_ok(2) [OF assms(1) cols] assms(2) by (simp add: mc_def)
  qed
  then have "\<exists>msg. err = PlanBuild msg" if "finish_plan df target scan e parent_scans l = Inl err"
    using finish_plan_error [OF that] by fastforce
  then show ?thesis
    using assms(3) l cols
    by (auto simp: build_column_resolution_plan_def Let_def bind_result_Inl mc_def
        split: option.splits if_splits)
qed

theorem planned_parents_suffice_witness:
  "\<exists>ks err. parents_needed_for orders_snapshot (''s'', ''orders'') (is_val ''tenant'' 2) = Inr ks
     \<and> ks = [(''s'', ''custs''), (''s'', ''orgs'')]
     \<and> build_column_resolution_plan (plain_df\<lparr> df_filter := \<lambda>p e. Inl ''type error'' \<rparr>) (''s'', ''orders'')
         orders_scan (is_val ''tenant'' 2) orders_snapshot orders_parents = Inl err
     \<and> ((\<exists>msg. err = PlanBuild msg) \<or> (\<exists>n. err = QualifiedParentRefNotSupported n))"
proof -
  have run: "parents_needed_for orders_snapshot (''s'', ''orders'') (is_val ''tenant'' 2) =
      Inr [(''s'', ''custs''), (''s'', ''orgs'')]"
    "build_column_resolution_plan (plain_df\<lparr> df_filter := \<lambda>p e. Inl ''type error'' \<rparr>) (''s'', ''orders'')
         orders_scan (is_val ''tenant'' 2) orders_snapshot orders_parents = Inl (PlanBuild ''type error'')"
    by code_simp+
  have "\<forall>k \<in> set [(''s'', ''custs''), (''s'', ''orgs'')]. orders_parents k \<noteq> None"
    by (simp add: orders_parents_def)
  from planned_parents_suffice [OF run(1) this run(2)] run show ?thesis by blast
qed

text \<open>
  C20. The rows of a resolution plan are exactly these: the rows of the target scan that can be extended by
  one row of the parent for each distinct edge on the anchor chains of the missing columns, with the
  parent's key equal to the foreign key of its child (the edge before it in the first chain that uses it,
  or the target), such that the filter holds of the extended row when each missing column is read at the
  end of its chain, or under its own name on the target when it is aliased. They have exactly the columns of the scan.
\<close>

theorem resolution_plan_exact:
  assumes "df_laws df" "sem_laws s"
    and "build_column_resolution_plan df target scan e snap parent_scans = Inr (Some p)"
    and "table_columns snap target = Some own"
    and "\<forall>row \<in> set (eval_over s S scan). map fst row = df_schema df scan"
    and "distinct (df_schema df scan)" "df_schema df scan \<noteq> []"
  shows "\<exists>!ces. column_chains snap target (missing_columns own e) ces \<and>
    (\<forall>x. x \<in> set (eval_over s S p) \<longleftrightarrow> x \<in> set (eval_over s S scan) \<and>
       (\<exists>z. linked s (parent_rows s S parent_scans) (join_steps (snd target) (map snd ces)) x z \<and>
          holds s (map_cols (resolved_ref snap target own (concat (map snd ces)) (map_of ces)) e) z))"
proof -
  obtain ces where ces: "column_chains snap target (missing_columns own e) ces"
    using build_column_chains [OF assms(3,4)] by blast
  with resolution_plan_rows [OF assms(1-7) refl ces] chains_unique show ?thesis by blast
qed

theorem resolution_plan_exact_witness:
  "\<exists>p ces. orders_plan (is_val ''tenant'' 1) = Inr (Some p) \<and>
     column_chains orders_snapshot (''s'', ''orders'') (missing_columns [''bill'', ''ship''] (is_val ''tenant'' 1)) ces \<and>
     orders_row \<in> set (eval_over plain_sem orders_data p) \<and> orders_row \<in> set (eval_over plain_sem orders_data orders_scan) \<and>
     (\<exists>z. linked plain_sem (parent_rows plain_sem orders_data orders_parents) (join_steps ''orders'' (map snd ces)) orders_row z \<and>
        holds plain_sem (map_cols (resolved_ref orders_snapshot (''s'', ''orders'') [''bill'', ''ship''] (concat (map snd ces)) (map_of ces))
          (is_val ''tenant'' 1)) z)"
proof -
  have "orders_rows (is_val ''tenant'' 1) = Some [orders_row]" by code_simp
  then obtain p where p: "orders_plan (is_val ''tenant'' 1) = Inr (Some p)" "orders_row \<in> set (eval_over plain_sem orders_data p)"
    by (auto simp: orders_rows_def split: sum.splits option.splits)
  from resolution_plan_exact [OF plain_df_laws plain_sem_laws p(1) orders_own orders_conform, THEN ex1_implies_ex] p show ?thesis by auto
qed

text \<open>
  C33. Columns whose chains end with the same edge are read from one and the same parent row: when a filter has two
  missing columns and the chain of the second ends with the edge that the chain of the first ends with,
  however they reach it, that edge is joined along the first chain only, and both columns are read
  there. The row that the second chain leads to is not looked at.
\<close>

theorem shared_edge_conflates_chains:
  assumes "df_laws df" "sem_laws s"
    and "build_column_resolution_plan df target scan e snap parent_scans = Inr (Some p)"
    and "table_columns snap target = Some own" "missing_columns own e = [n1, n2]"
    and "\<not> aliased snap target n1" "anchor_chain snap n1 target es1"
    and "\<not> aliased snap target n2" "anchor_chain snap n2 target (es2 @ [e2])" "hop_key e2 = hop_key (last es1)"
    and "\<forall>row \<in> set (eval_over s S scan). map fst row = df_schema df scan"
    and "distinct (df_schema df scan)" "df_schema df scan \<noteq> []"
  shows "x \<in> set (eval_over s S p) \<longleftrightarrow> x \<in> set (eval_over s S scan) \<and>
    (\<exists>z. linked s (parent_rows s S parent_scans) (join_steps (snd target) [es1, es2]) x z \<and>
       holds s (map_cols (resolved_ref snap target own (es1 @ es2) [n1 \<mapsto> es1, n2 \<mapsto> es1]) e) z)"
proof -
  obtain ces where ces: "column_chains snap target [n1, n2] ces"
    using build_column_chains [OF assms(3,4)] assms(5) by metis
  have two: "ces = [(n1, es1), (n2, es2 @ [e2])]" using two_chains [OF ces assms(6-9)] .
  have "n1 \<noteq> n2"
    using assms(5) distinct_sorted_list_of_set by (metis distinct_length_2_or_more missing_columns_def)
  have mem: "hop_key e2 \<in> hop_key ` set es1" using assms(10) anchor_chain_nonempty [OF assms(7)] by simp
  have "resolved_ref snap target own (concat (map snd ces)) (map_of ces) = resolved_ref snap target own (es1 @ es2) [n1 \<mapsto> es1, n2 \<mapsto> es1]"
    using \<open>n1 \<noteq> n2\<close> mem assms(10) anchor_chain_nonempty [OF assms(7)]
    by (auto simp: two resolved_ref_def key_alias_append fun_eq_iff split: option.split anchor_shape.split)
  then show ?thesis
    using resolution_plan_rows [OF assms(1-4,11-13) refl, of ces x] ces assms(5) join_steps_shared [OF mem, of "snd target" es2]
    by (simp add: two)
qed

text \<open>The order is billed to tenant 1 and the filter on tenant 2 excludes it, but the stronger filter lets it through.\<close>

theorem shared_edge_conflates_chains_witness:
  "orders_rows (is_val ''tenant'' 2) = Some [] \<and>
   (\<exists>p z. orders_plan (and_expr (is_val ''region'' 8) (is_val ''tenant'' 2)) = Inr (Some p) \<and>
      orders_row \<in> set (eval_over plain_sem orders_data p) \<and>
      linked plain_sem (parent_rows plain_sem orders_data orders_parents)
        (join_steps ''orders'' [[edge 2 ''orders'' ''ship'' ''custs'', edge 3 ''custs'' ''org'' ''orgs''], [edge 1 ''orders'' ''bill'' ''custs'']])
        orders_row z \<and>
      holds plain_sem (map_cols (resolved_ref orders_snapshot (''s'', ''orders'') [''bill'', ''ship'']
          ([edge 2 ''orders'' ''ship'' ''custs'', edge 3 ''custs'' ''org'' ''orgs''] @ [edge 1 ''orders'' ''bill'' ''custs''])
          [''region'' \<mapsto> [edge 2 ''orders'' ''ship'' ''custs'', edge 3 ''custs'' ''org'' ''orgs''],
           ''tenant'' \<mapsto> [edge 2 ''orders'' ''ship'' ''custs'', edge 3 ''custs'' ''org'' ''orgs'']])
        (and_expr (is_val ''region'' 8) (is_val ''tenant'' 2))) z)"
proof -
  let ?e = "and_expr (is_val ''region'' 8) (is_val ''tenant'' 2)"
  have rows: "orders_rows ?e = Some [orders_row]" "orders_rows (is_val ''tenant'' 2) = Some []" by code_simp+
  from rows(1) obtain p where p: "orders_plan ?e = Inr (Some p)" "orders_row \<in> set (eval_over plain_sem orders_data p)"
    by (auto simp: orders_rows_def split: sum.splits option.splits)
  have missing: "missing_columns [''bill'', ''ship''] ?e = [''region'', ''tenant'']" by code_simp
  have region: "\<not> aliased orders_snapshot (''s'', ''orders'') ''region''"
      "anchor_chain orders_snapshot ''region'' (''s'', ''orders'') [edge 2 ''orders'' ''ship'' ''custs'', edge 3 ''custs'' ''org'' ''orgs'']"
    and tenant: "\<not> aliased orders_snapshot (''s'', ''orders'') ''tenant''"
      "anchor_chain orders_snapshot ''tenant'' (''s'', ''orders'') ([edge 1 ''orders'' ''bill'' ''custs''] @ [edge 3 ''custs'' ''org'' ''orgs''])"
    by (simp_all add: aliased_def orders_snapshot_def edge_def get_anchor_edge_def get_anchor_shape_def table_has_column_def table_columns_def)
  have "hop_key (edge 3 ''custs'' ''org'' ''orgs'') = hop_key (last [edge 2 ''orders'' ''ship'' ''custs'', edge 3 ''custs'' ''org'' ''orgs''])"
    by simp
  from shared_edge_conflates_chains [OF plain_df_laws plain_sem_laws p(1) orders_own missing region tenant this orders_conform, of orders_row]
    p rows(2) show ?thesis by auto
qed

end
