(* ===== verification/PolicyEffects.thy ===== *)
theory PolicyEffects
  imports SqlExpr Resolution "HOL-Library.AList"
begin

text \<open>
  Policy enforcement on a query plan (\<open>hooks/policy.rs\<close>): the decision gate of a policy, collecting
  the effects of all policies of a session for the tables of a plan, and applying them. Hash maps that
  are iterated or tested for emptiness are lists of entries with distinct keys, updated with
  \<open>AList.update\<close>.

  The WASM runtime, the session context of DataFusion and the libraries behind expressions and plans
  are parameters: \<open>decision_eval\<close> and \<open>hook_env\<close>. Reads and writes of the shared cache of parent scans
  are explicit.
\<close>

section \<open>Policies of a session\<close>

record resolved_decision_function =
  df_id :: uuid
  df_decision_wasm :: "string option"
  df_decision_config :: "json option"
  df_evaluate_context :: string
  df_on_error :: string
  df_log_level :: string
  df_is_enabled :: bool

record resolved_policy =
  rp_id :: uuid
  rp_name :: string
  rp_policy_type :: policy_type
  rp_version :: i32
  rp_priority :: i32
  rp_targets :: "target_entry list"
  rp_definition :: "json option"
  rp_decision_function :: "resolved_decision_function option"

record session_data =
  sd_permit_policies :: "resolved_policy list"
  sd_deny_policies :: "resolved_policy list"
  sd_access_mode :: string
  sd_df_to_upstream :: schema_map
  sd_datasource_id :: uuid
  sd_datasource_name :: string
  sd_roles :: "string list"
  sd_user_attributes :: attributes
  sd_attribute_defs :: "(string \<times> attr_def_info) list"
  sd_relationship_snapshot :: relationship_snapshot

record decision_result =
  dr_fire :: bool
  dr_logs :: "string list"
  dr_fuel_consumed :: nat
  dr_time_us :: nat
  dr_error :: "string option"

type_synonym decision_results = "uuid \<rightharpoonup> decision_result"

record decision_eval =
  de_evaluate_bytes :: "string \<Rightarrow> json \<Rightarrow> json \<Rightarrow> nat \<Rightarrow> string \<Rightarrow> (string, decision_result) result"
  de_decision_ctx :: json

record hook_env =
  he_lib :: expr_lib
  he_registry :: registry
  he_df :: df_ops
  he_default_schema :: string
  he_table :: "table_key \<Rightarrow> plan option"

section \<open>The decision gate\<close>

definition DEFAULT_FUEL_LIMIT :: nat where
  "DEFAULT_FUEL_LIMIT = 1000000"

fun json_get :: "json \<Rightarrow> string \<Rightarrow> json option" where
  "json_get (JObject fs) k = map_of fs k"
| "json_get _ k = None"

fun json_as_str :: "json \<Rightarrow> string option" where
  "json_as_str (JString s) = Some s"
| "json_as_str _ = None"

definition evaluate_decision_fn ::
  "resolved_policy \<Rightarrow> decision_eval option \<Rightarrow> decision_results \<Rightarrow> bool \<times> decision_results" where
  "evaluate_decision_fn policy decision_eval results =
     (case rp_decision_function policy of
        None \<Rightarrow> (True, results)
      | Some df \<Rightarrow>
          if \<not> df_is_enabled df then (True, results)
          else if df_decision_wasm df = None \<or> df_decision_wasm df = Some [] then (True, results)
          else (case decision_eval of
             None \<Rightarrow> (True, results)
           | Some ctx \<Rightarrow>
               if df_evaluate_context df = ''query'' \<and> json_get (de_decision_ctx ctx) ''query'' = None then (True, results)
               else (case de_evaluate_bytes ctx (the (df_decision_wasm df)) (de_decision_ctx ctx)
                            (unwrap_or (df_decision_config df) (JObject [])) DEFAULT_FUEL_LIMIT (df_log_level df) of
                  Inr result \<Rightarrow>
                    (let result = (if df_log_level df = ''off'' then result\<lparr> dr_logs := [] \<rparr> else result) in
                     (dr_fire result, results(rp_id policy \<mapsto> result)))
                | Inl e \<Rightarrow>
                    (let fire = (df_on_error df = ''deny'') in
                     (fire, results(rp_id policy \<mapsto>
                        \<lparr> dr_fire = fire, dr_logs = [], dr_fuel_consumed = 0, dr_time_us = 0, dr_error = Some e \<rparr>))))))"

definition fires :: "decision_eval option \<Rightarrow> resolved_policy \<Rightarrow> bool" where
  "fires decision_eval policy = fst (evaluate_decision_fn policy decision_eval Map.empty)"

lemma evaluate_decision_fn_fires: "fst (evaluate_decision_fn policy de results) = fires de policy"
  by (simp add: evaluate_decision_fn_def fires_def Let_def split: option.splits sum.splits)

section \<open>Tables of a plan\<close>

definition SYSTEM_SCHEMAS :: "string list" where
  "SYSTEM_SCHEMAS = [''pg_catalog'', ''information_schema'', ''pg_toast'']"

definition scan_policy_key :: "table_ref \<Rightarrow> string \<Rightarrow> table_key" where
  "scan_policy_key r default_schema = (unwrap_or (tr_schema r) default_schema, tr_table r)"

definition is_system_key :: "table_key \<Rightarrow> bool" where
  "is_system_key k \<longleftrightarrow> fst k \<in> set SYSTEM_SCHEMAS \<or> starts_with (snd k) ''pg_''"

function collect_tables_inner :: "plan \<Rightarrow> string \<Rightarrow> table_key list" where
  "collect_tables_inner plan default_schema =
     (case plan of
        TableScan r cs \<Rightarrow>
          (let k = scan_policy_key r default_schema in if is_system_key k then [] else [k])
      | _ \<Rightarrow> concat (map (\<lambda>input. collect_tables_inner input default_schema) (inputs plan)))"
  by pat_completeness auto
termination
  by (relation "measure (\<lambda>(p, d). size p)") (auto simp: less_Suc_eq_le intro: size_list_estimation')

declare collect_tables_inner.simps [simp del]

definition collect_user_tables :: "plan \<Rightarrow> string \<Rightarrow> table_key list" where
  "collect_user_tables plan default_schema = dedup (collect_tables_inner plan default_schema)"

section \<open>Effects\<close>

record policy_effects =
  pe_row_filters :: "(table_key \<times> expr) list"
  pe_column_allow_patterns :: "(table_key \<times> string list) list"
  pe_column_deny_patterns :: "(table_key \<times> string list) list"
  pe_column_masks :: "((string \<times> string \<times> string) \<times> expr) list"
  pe_tables_with_permit :: "table_key list"
  pe_denied_by_policy :: "string option"
  pe_decision_results :: decision_results

definition no_effects :: policy_effects where
  "no_effects = \<lparr> pe_row_filters = [], pe_column_allow_patterns = [], pe_column_deny_patterns = [],
     pe_column_masks = [], pe_tables_with_permit = [], pe_denied_by_policy = None,
     pe_decision_results = Map.empty \<rparr>"

definition extend_patterns ::
  "table_key \<Rightarrow> string list \<Rightarrow> (table_key \<times> string list) list \<Rightarrow> (table_key \<times> string list) list" where
  "extend_patterns k cols pats = AList.update k (unwrap_or (map_of pats k) [] @ cols) pats"

definition and_into :: "table_key \<Rightarrow> expr \<Rightarrow> (table_key \<times> expr) list \<Rightarrow> (table_key \<times> expr) list" where
  "and_into k e fs = AList.update k (and_expr (unwrap_or (map_of fs k) lit_true) e) fs"

definition entry_matches :: "session_data \<Rightarrow> table_key \<Rightarrow> target_entry \<Rightarrow> bool" where
  "entry_matches session k e = matches_table e (fst k) (snd k) (sd_df_to_upstream session)"

definition policy_matches :: "session_data \<Rightarrow> resolved_policy \<Rightarrow> table_key \<Rightarrow> bool" where
  "policy_matches session policy k = list_ex (entry_matches session k) (rp_targets policy)"

fun collect_table_deny ::
  "session_data \<Rightarrow> table_key list \<Rightarrow> decision_eval option \<Rightarrow> resolved_policy list \<Rightarrow> policy_effects \<Rightarrow> policy_effects" where
  "collect_table_deny session user_tables de [] eff = eff"
| "collect_table_deny session user_tables de (policy # ps) eff =
     (if rp_policy_type policy \<noteq> TableDeny then collect_table_deny session user_tables de ps eff
      else
        (let (fire, results) = evaluate_decision_fn policy de (pe_decision_results eff);
             eff = eff\<lparr> pe_decision_results := results \<rparr> in
         if \<not> fire then collect_table_deny session user_tables de ps eff
         else if list_ex (policy_matches session policy) user_tables
         then eff\<lparr> pe_denied_by_policy := Some (rp_name policy) \<rparr>
         else collect_table_deny session user_tables de ps eff))"

text \<open>Visiting every matching entry of a policy for every table, in the order of the nested loops.\<close>

definition for_matches ::
  "session_data \<Rightarrow> table_key list \<Rightarrow> resolved_policy \<Rightarrow> (table_key \<Rightarrow> target_entry \<Rightarrow> 'a \<Rightarrow> 'a) \<Rightarrow> 'a \<Rightarrow> 'a" where
  "for_matches session user_tables policy f a =
     fold (\<lambda>(k, e). f k e) (filter (\<lambda>(k, e). entry_matches session k e) (List.product user_tables (rp_targets policy))) a"

definition column_deny_policy ::
  "session_data \<Rightarrow> table_key list \<Rightarrow> resolved_policy \<Rightarrow> policy_effects \<Rightarrow> policy_effects" where
  "column_deny_policy session user_tables policy =
     for_matches session user_tables policy (\<lambda>k e eff.
       case columns e of
         None \<Rightarrow> eff
       | Some cols \<Rightarrow> eff\<lparr> pe_column_deny_patterns := extend_patterns k cols (pe_column_deny_patterns eff) \<rparr>)"

definition gated ::
  "decision_eval option \<Rightarrow> (resolved_policy \<Rightarrow> policy_effects \<Rightarrow> policy_effects) \<Rightarrow> resolved_policy \<Rightarrow> policy_effects \<Rightarrow> policy_effects" where
  "gated de f policy eff =
     (let (fire, results) = evaluate_decision_fn policy de (pe_decision_results eff);
          eff = eff\<lparr> pe_decision_results := results \<rparr> in
      if fire then f policy eff else eff)"

definition collect_column_deny ::
  "session_data \<Rightarrow> table_key list \<Rightarrow> decision_eval option \<Rightarrow> policy_effects \<Rightarrow> policy_effects" where
  "collect_column_deny session user_tables de =
     fold (\<lambda>policy eff.
         if rp_policy_type policy \<noteq> ColumnDeny then eff
         else gated de (column_deny_policy session user_tables) policy eff)
       (sd_deny_policies session)"

definition definition_str :: "resolved_policy \<Rightarrow> string \<Rightarrow> string" where
  "definition_str policy field =
     (case rp_definition policy of
        None \<Rightarrow> []
      | Some d \<Rightarrow> (case json_get d field of None \<Rightarrow> [] | Some v \<Rightarrow> unwrap_or (json_as_str v) []))"

text \<open>The first matching entry is enough for a row filter; an expression that does not parse is dropped.\<close>

definition row_filter_policy ::
  "hook_env \<Rightarrow> session_data \<Rightarrow> table_key list \<Rightarrow> user_vars \<Rightarrow> resolved_policy \<Rightarrow> (table_key \<times> expr) list" where
  "row_filter_policy env session user_tables vars policy =
     (let filter_expr = definition_str policy ''filter_expression'' in
      if filter_expr = [] then []
      else
        fold (\<lambda>k fs.
            if policy_matches session policy k then
              (case parse_filter_expr (he_lib env) filter_expr vars of
                 Inr e \<Rightarrow> and_into k e fs
               | Inl _ \<Rightarrow> fs)
            else fs)
          user_tables [])"

definition column_mask_policy ::
  "hook_env \<Rightarrow> session_data \<Rightarrow> table_key list \<Rightarrow> user_vars \<Rightarrow> resolved_policy \<Rightarrow> policy_effects \<Rightarrow> policy_effects" where
  "column_mask_policy env session user_tables vars policy eff =
     (let mask_expr = definition_str policy ''mask_expression'' in
      if mask_expr = [] then eff
      else
        for_matches session user_tables policy (\<lambda>k e eff.
          fold (\<lambda>c eff.
              if map_of (pe_column_masks eff) (fst k, snd k, c) \<noteq> None then eff
              else (case parse_mask_expr (he_lib env) (he_registry env) c mask_expr vars of
                      Inr m \<Rightarrow> eff\<lparr> pe_column_masks := AList.update (fst k, snd k, c) m (pe_column_masks eff) \<rparr>
                    | Inl _ \<Rightarrow> eff))
            (unwrap_or (columns e) []) eff) eff)"

definition column_allow_policy ::
  "session_data \<Rightarrow> table_key list \<Rightarrow> resolved_policy \<Rightarrow> policy_effects \<Rightarrow> policy_effects" where
  "column_allow_policy session user_tables policy =
     for_matches session user_tables policy (\<lambda>k e eff.
       let eff = eff\<lparr> pe_tables_with_permit := List.insert k (pe_tables_with_permit eff) \<rparr> in
       case columns e of
         None \<Rightarrow> eff
       | Some cols \<Rightarrow> eff\<lparr> pe_column_allow_patterns := extend_patterns k cols (pe_column_allow_patterns eff) \<rparr>)"

definition permit_policy ::
  "hook_env \<Rightarrow> session_data \<Rightarrow> table_key list \<Rightarrow> user_vars \<Rightarrow> resolved_policy \<Rightarrow> policy_effects \<Rightarrow> policy_effects" where
  "permit_policy env session user_tables vars policy eff =
     (case rp_policy_type policy of
        RowFilter \<Rightarrow>
          eff\<lparr> pe_row_filters :=
                 fold (\<lambda>(k, e). and_into k e) (row_filter_policy env session user_tables vars policy) (pe_row_filters eff) \<rparr>
      | ColumnMask \<Rightarrow> column_mask_policy env session user_tables vars policy eff
      | ColumnAllow \<Rightarrow> column_allow_policy session user_tables policy eff
      | ColumnDeny \<Rightarrow> eff
      | TableDeny \<Rightarrow> eff)"

definition collect ::
  "hook_env \<Rightarrow> session_data \<Rightarrow> table_key list \<Rightarrow> user_vars \<Rightarrow> decision_eval option \<Rightarrow> policy_effects" where
  "collect env session user_tables vars de =
     (let eff = collect_table_deny session user_tables de (sd_deny_policies session) no_effects;
          eff = collect_column_deny session user_tables de eff in
      fold (gated de (permit_policy env session user_tables vars)) (sd_permit_policies session) eff)"

definition apply_access_mode :: "string \<Rightarrow> table_key list \<Rightarrow> policy_effects \<Rightarrow> policy_effects" where
  "apply_access_mode access_mode user_tables eff =
     (if access_mode = ''policy_required'' then
        eff\<lparr> pe_row_filters :=
               fold (\<lambda>k fs. if k \<in> set (pe_tables_with_permit eff) then fs else AList.update k lit_false fs)
                 user_tables (pe_row_filters eff) \<rparr>
      else eff)"

definition has_effects :: "policy_effects \<Rightarrow> bool" where
  "has_effects eff \<longleftrightarrow> pe_row_filters eff \<noteq> [] \<or> pe_column_allow_patterns eff \<noteq> [] \<or>
     pe_column_deny_patterns eff \<noteq> [] \<or> pe_column_masks eff \<noteq> []"

section \<open>Applying effects to a plan\<close>

datatype policy_error =
    DeniedByPolicy string
  | AllColumnsDenied "string list"
  | PlanTransformation df_error

definition check_deny :: "policy_effects \<Rightarrow> (policy_error, unit) result" where
  "check_deny eff = (case pe_denied_by_policy eff of Some name \<Rightarrow> Inl (DeniedByPolicy name) | None \<Rightarrow> Inr ())"

definition row_filter_scan ::
  "hook_env \<Rightarrow> policy_effects \<Rightarrow> relationship_snapshot \<Rightarrow> parent_scans \<Rightarrow> table_key list \<Rightarrow> plan \<Rightarrow> (df_error, plan) result" where
  "row_filter_scan env eff snap parent_scans deny_wins node =
     (case node of
        TableScan r cs \<Rightarrow>
          (let key = scan_policy_key r (he_default_schema env) in
           case map_of (pe_row_filters eff) key of
             None \<Rightarrow> Inr node
           | Some filter_expr \<Rightarrow>
               if key \<in> set deny_wins then df_filter (he_df env) node lit_false
               else (case build_column_resolution_plan (he_df env) key node filter_expr snap parent_scans of
                  Inr (Some p) \<Rightarrow> Inr p
                | Inr None \<Rightarrow>
                    if list_ex (\<lambda>n. n \<notin> set cs) (expr_column_names filter_expr)
                    then df_filter (he_df env) node lit_false
                    else df_filter (he_df env) node filter_expr
                | Inl _ \<Rightarrow> df_filter (he_df env) node lit_false))
      | _ \<Rightarrow> Inr node)"

definition apply_row_filters ::
  "hook_env \<Rightarrow> policy_effects \<Rightarrow> relationship_snapshot \<Rightarrow> parent_scans \<Rightarrow> table_key list \<Rightarrow> plan \<Rightarrow> (policy_error, plan) result" where
  "apply_row_filters env eff snap parent_scans deny_wins plan =
     (if pe_row_filters eff = [] then Inr plan
      else map_err PlanTransformation
        (df_transform_up (he_df env) (row_filter_scan env eff snap parent_scans deny_wins) plan))"

definition column_ref :: "hook_env \<Rightarrow> column \<Rightarrow> expr" where
  "column_ref env c = (case c_relation c of Some _ \<Rightarrow> Col c | None \<Rightarrow> Col (el_col (he_lib env) (c_name c)))"

definition mask_for :: "policy_effects \<Rightarrow> table_key \<Rightarrow> string list \<Rightarrow> string \<Rightarrow> expr option" where
  "mask_for eff key all_cols name =
     (if name \<in> expand_column_patterns (unwrap_or (map_of (pe_column_deny_patterns eff) key) []) all_cols then None
      else map_of (pe_column_masks eff) (fst key, snd key, name))"

definition mask_column :: "hook_env \<Rightarrow> policy_effects \<Rightarrow> table_key \<Rightarrow> string list \<Rightarrow> column \<Rightarrow> expr" where
  "mask_column env eff key all_cols c =
     (case mask_for eff key all_cols (c_name c) of
        Some m \<Rightarrow> AliasE m (c_relation c) (c_name c)
      | None \<Rightarrow> column_ref env c)"

definition mask_scan :: "hook_env \<Rightarrow> policy_effects \<Rightarrow> plan \<Rightarrow> (df_error, plan) result" where
  "mask_scan env eff node =
     (case node of
        TableScan r cs \<Rightarrow>
          (let key = scan_policy_key r (he_default_schema env);
               schema = df_schema (he_df env) node;
               all_cols = map c_name schema in
           if \<not> list_ex (\<lambda>((s, t, _), _). s = fst key \<and> t = snd key) (pe_column_masks eff) then Inr node
           else if \<not> list_ex (\<lambda>c. mask_for eff key all_cols (c_name c) \<noteq> None) schema then Inr node
           else df_project (he_df env) node (map (mask_column env eff key all_cols) schema))
      | _ \<Rightarrow> Inr node)"

definition apply_column_mask_at_scan :: "hook_env \<Rightarrow> policy_effects \<Rightarrow> plan \<Rightarrow> (policy_error, plan) result" where
  "apply_column_mask_at_scan env eff plan =
     (if pe_column_masks eff = [] then Inr plan
      else map_err PlanTransformation (df_transform_up (he_df env) (mask_scan env eff) plan))"

definition field_key :: "hook_env \<Rightarrow> column \<Rightarrow> table_key" where
  "field_key env c =
     (case c_relation c of
        Some tref \<Rightarrow> (unwrap_or (tr_schema tref) (he_default_schema env), tr_table tref)
      | None \<Rightarrow> ([], []))"

definition visible_field :: "hook_env \<Rightarrow> policy_effects \<Rightarrow> column \<Rightarrow> bool" where
  "visible_field env eff c \<longleftrightarrow>
     (case map_of (pe_column_allow_patterns eff) (field_key env c) of
        Some allow_pats \<Rightarrow> expand_column_patterns allow_pats [c_name c] \<noteq> {}
      | None \<Rightarrow> True) \<and>
     (case map_of (pe_column_deny_patterns eff) (field_key env c) of
        Some deny_pats \<Rightarrow> expand_column_patterns deny_pats [c_name c] = {}
      | None \<Rightarrow> True)"

definition projected_field :: "hook_env \<Rightarrow> policy_effects \<Rightarrow> column \<Rightarrow> expr" where
  "projected_field env eff c =
     (case map_of (pe_column_masks eff) (fst (field_key env c), snd (field_key env c), c_name c) of
        Some m \<Rightarrow> AliasE m None (c_name c)
      | None \<Rightarrow> column_ref env c)"

definition apply_projection_qualified :: "hook_env \<Rightarrow> policy_effects \<Rightarrow> plan \<Rightarrow> (policy_error, plan) result" where
  "apply_projection_qualified env eff plan =
     (if pe_column_allow_patterns eff = [] \<and> pe_column_deny_patterns eff = [] then Inr plan
      else
        (let output_schema = df_schema (he_df env) plan;
             new_exprs = map (projected_field env eff) (filter (visible_field env eff) output_schema) in
         if new_exprs = [] then Inl (AllColumnsDenied (map c_name output_schema))
         else map_err PlanTransformation (df_project (he_df env) plan new_exprs)))"

section \<open>Parent scans\<close>

type_synonym parent_cache = "table_key \<rightharpoonup> plan"

fun parents_for_filters ::
  "relationship_snapshot \<Rightarrow> (table_key \<times> expr) list \<Rightarrow> table_key list \<times> table_key list \<Rightarrow> table_key list \<times> table_key list" where
  "parents_for_filters snap [] acc = acc"
| "parents_for_filters snap ((key, filter_expr) # fs) (needed, deny_wins) =
     (case parents_needed_for snap key filter_expr of
        Inr ks \<Rightarrow> parents_for_filters snap fs (List.union ks needed, deny_wins)
      | Inl _ \<Rightarrow> parents_for_filters snap fs (needed, List.insert key deny_wins))"

definition precompute_parent_scans ::
  "hook_env \<Rightarrow> (table_key \<times> expr) list \<Rightarrow> relationship_snapshot \<Rightarrow> parent_cache
    \<Rightarrow> (parent_scans \<times> table_key list) \<times> parent_cache" where
  "precompute_parent_scans env row_filters snap cache =
     (if snapshot_is_empty snap \<or> row_filters = [] then ((Map.empty, []), cache)
      else
        (let (needed, deny_wins) = parents_for_filters snap row_filters ([], []);
             planned = (\<lambda>k. if k \<in> set needed then (case cache k of Some p \<Rightarrow> Some p | None \<Rightarrow> he_table env k) else None)
         in ((planned, deny_wins),
             (\<lambda>k. case cache k of Some p \<Rightarrow> Some p | None \<Rightarrow> planned k))))"

section \<open>The pipeline\<close>

definition apply_policies ::
  "hook_env \<Rightarrow> session_data \<Rightarrow> plan \<Rightarrow> user_vars \<Rightarrow> decision_eval option \<Rightarrow> parent_cache
    \<Rightarrow> (policy_error, plan \<times> bool \<times> decision_results) result \<times> parent_cache" where
  "apply_policies env session logical_plan vars de cache =
     (let user_tables = collect_user_tables logical_plan (he_default_schema env);
          eff = collect env session user_tables vars de in
      case check_deny eff of
        Inl err \<Rightarrow> (Inl err, cache)
      | Inr _ \<Rightarrow>
          (let eff = apply_access_mode (sd_access_mode session) user_tables eff;
               had_effects = has_effects eff;
               snap = sd_relationship_snapshot session;
               ((parent_scans, deny_wins), cache') = precompute_parent_scans env (pe_row_filters eff) snap cache
           in (bind_result (apply_column_mask_at_scan env eff logical_plan) (\<lambda>plan.
               bind_result (apply_row_filters env eff snap parent_scans deny_wins plan) (\<lambda>plan.
               let eff = eff\<lparr> pe_column_masks := [] \<rparr> in
               bind_result (apply_projection_qualified env eff plan) (\<lambda>plan.
                 Inr (plan, had_effects, pe_decision_results eff)))), cache')))"

section \<open>What is collected\<close>

definition policy_filter :: "hook_env \<Rightarrow> user_vars \<Rightarrow> resolved_policy \<Rightarrow> expr option" where
  "policy_filter env vars policy =
     (let filter_expr = definition_str policy ''filter_expression'' in
      if filter_expr = [] then None
      else (case parse_filter_expr (he_lib env) filter_expr vars of Inr e \<Rightarrow> Some e | Inl _ \<Rightarrow> None))"

text \<open>A row passes the filters of a table when the table has none or its filter holds.\<close>

definition passes :: "sem \<Rightarrow> (table_key \<times> expr) list \<Rightarrow> table_key \<Rightarrow> row \<Rightarrow> bool" where
  "passes s fs k row = (case map_of fs k of None \<Rightarrow> True | Some e \<Rightarrow> holds s e row)"

lemma passes_Nil [simp]: "passes s [] k row"
  by (simp add: passes_def)

lemma passes_and_into:
  assumes "sem_laws s"
  shows "passes s (and_into k e fs) k' row \<longleftrightarrow> passes s fs k' row \<and> (k' = k \<longrightarrow> holds s e row)"
  using sem_laws_simps [OF assms]
  by (auto simp: passes_def and_into_def update_conv' split: option.splits)

lemma passes_and_into_all:
  assumes "sem_laws s"
  shows "passes s (fold (\<lambda>(k, e). and_into k e) xs fs) k row \<longleftrightarrow>
    passes s fs k row \<and> (\<forall>(k', e) \<in> set xs. k' = k \<longrightarrow> holds s e row)"
  by (induction xs arbitrary: fs) (auto simp: passes_and_into [OF assms])

lemma distinct_and_into: "distinct (map fst fs) \<Longrightarrow> distinct (map fst (and_into k e fs))"
  by (simp add: and_into_def distinct_update)

lemma passes_distinct:
  "distinct (map fst fs) \<Longrightarrow> passes s fs k row \<longleftrightarrow> (\<forall>(k', e) \<in> set fs. k' = k \<longrightarrow> holds s e row)"
  by (auto simp: passes_def map_of_eq_None_iff split: option.splits dest: map_of_SomeD)
    (metis fst_conv image_eqI, metis map_of_is_SomeI option.inject)

lemma row_filter_policy_alt:
  "row_filter_policy env session user_tables vars policy =
     (case policy_filter env vars policy of
        None \<Rightarrow> []
      | Some e \<Rightarrow> fold (\<lambda>k. and_into k e) (filter (policy_matches session policy) user_tables) [])"
proof -
  have skip: "fold (\<lambda>k fs. if P k then fs else fs) xs fs = (fs :: (table_key \<times> expr) list)" for P xs fs
    by (induction xs arbitrary: fs) auto
  have pick: "fold (\<lambda>k fs. if P k then and_into k e fs else fs) xs fs = fold (\<lambda>k. and_into k e) (filter P xs) fs"
    for P e xs fs by (induction xs arbitrary: fs) auto
  show ?thesis
    unfolding row_filter_policy_def policy_filter_def Let_def
    by (cases "parse_filter_expr (he_lib env) (definition_str policy ''filter_expression'') vars")
      (simp_all only: skip pick sum.case option.case split: if_splits, simp_all)
qed

lemma row_filter_policy_passes:
  assumes "sem_laws s"
  shows "(\<forall>(k', e) \<in> set (row_filter_policy env session user_tables vars policy). k' = k \<longrightarrow> holds s e row) \<longleftrightarrow>
    (k \<in> set user_tables \<and> policy_matches session policy k \<longrightarrow>
       (\<forall>e. policy_filter env vars policy = Some e \<longrightarrow> holds s e row))"
proof -
  have dist: "distinct (map fst (fold (\<lambda>k. and_into k e) xs fs))" if "distinct (map fst fs)" for e xs fs
    using that by (induction xs arbitrary: fs) (auto simp: distinct_and_into)
  have pass: "passes s (fold (\<lambda>k. and_into k e) xs fs) k row \<longleftrightarrow> passes s fs k row \<and> (k \<in> set xs \<longrightarrow> holds s e row)"
    for e xs fs by (induction xs arbitrary: fs) (auto simp: passes_and_into [OF assms])
  show ?thesis
  proof (cases "policy_filter env vars policy")
    case (Some e)
    let ?fs = "fold (\<lambda>k. and_into k e) (filter (policy_matches session policy) user_tables) []"
    have "distinct (map fst ?fs)" by (rule dist) simp
    from passes_distinct [OF this, of s k row] Some show ?thesis
      by (auto simp: row_filter_policy_alt pass)
  qed (simp add: row_filter_policy_alt)
qed

lemma for_matches_same:
  assumes "\<And>k e a. g (f k e a) = g a"
  shows "g (for_matches session user_tables policy f a) = g a"
proof -
  have "g (fold (\<lambda>(k, e). f k e) xs a) = g a" for xs
    by (induction xs arbitrary: a) (auto simp: assms)
  then show ?thesis by (simp add: for_matches_def)
qed

lemma mask_columns_same:
  assumes "\<And>eff x. g (eff\<lparr> pe_column_masks := x \<rparr>) = g eff"
  shows "g (column_mask_policy env session user_tables vars policy eff) = g eff"
proof -
  have "g (fold (\<lambda>c eff. if map_of (pe_column_masks eff) (fst k, snd k, c) \<noteq> None then eff
      else (case parse_mask_expr l r c m vars of
              Inr m \<Rightarrow> eff\<lparr> pe_column_masks := AList.update (fst k, snd k, c) m (pe_column_masks eff) \<rparr>
            | Inl _ \<Rightarrow> eff)) cs eff) = g eff" for k l r m cs eff
    by (induction cs arbitrary: eff) (auto simp: assms split: sum.splits)
  then show ?thesis
    by (simp add: column_mask_policy_def Let_def for_matches_same)
qed

lemma policy_fields_same [simp]:
  "pe_row_filters (column_deny_policy session ut p eff) = pe_row_filters eff"
  "pe_column_allow_patterns (column_deny_policy session ut p eff) = pe_column_allow_patterns eff"
  "pe_column_masks (column_deny_policy session ut p eff) = pe_column_masks eff"
  "pe_tables_with_permit (column_deny_policy session ut p eff) = pe_tables_with_permit eff"
  "pe_denied_by_policy (column_deny_policy session ut p eff) = pe_denied_by_policy eff"
  "pe_row_filters (column_allow_policy session ut p eff) = pe_row_filters eff"
  "pe_column_deny_patterns (column_allow_policy session ut p eff) = pe_column_deny_patterns eff"
  "pe_column_masks (column_allow_policy session ut p eff) = pe_column_masks eff"
  "pe_denied_by_policy (column_allow_policy session ut p eff) = pe_denied_by_policy eff"
  "pe_row_filters (column_mask_policy env session ut vars p eff) = pe_row_filters eff"
  "pe_column_allow_patterns (column_mask_policy env session ut vars p eff) = pe_column_allow_patterns eff"
  "pe_column_deny_patterns (column_mask_policy env session ut vars p eff) = pe_column_deny_patterns eff"
  "pe_tables_with_permit (column_mask_policy env session ut vars p eff) = pe_tables_with_permit eff"
  "pe_denied_by_policy (column_mask_policy env session ut vars p eff) = pe_denied_by_policy eff"
  unfolding column_deny_policy_def column_allow_policy_def
  by (rule for_matches_same mask_columns_same; simp add: Let_def split: option.split)+

lemma permit_policy_fields [simp]:
  "pe_column_deny_patterns (permit_policy env session ut vars p eff) = pe_column_deny_patterns eff"
  "pe_denied_by_policy (permit_policy env session ut vars p eff) = pe_denied_by_policy eff"
  by (simp_all add: permit_policy_def split: policy_type.split)

lemma collect_table_deny_fields [simp]:
  "pe_row_filters (collect_table_deny session ut de ps eff) = pe_row_filters eff"
  "pe_column_allow_patterns (collect_table_deny session ut de ps eff) = pe_column_allow_patterns eff"
  "pe_column_deny_patterns (collect_table_deny session ut de ps eff) = pe_column_deny_patterns eff"
  "pe_column_masks (collect_table_deny session ut de ps eff) = pe_column_masks eff"
  "pe_tables_with_permit (collect_table_deny session ut de ps eff) = pe_tables_with_permit eff"
  by (induction session ut de ps eff rule: collect_table_deny.induct) (auto simp: Let_def split: prod.split)

text \<open>A gated step acts exactly when its policy fires; only the decision results change otherwise.\<close>

lemma gated_same: "(\<And>eff r. g (eff\<lparr> pe_decision_results := r \<rparr>) = g eff) \<Longrightarrow> (\<And>eff. g (f p eff) = g eff) \<Longrightarrow>
    g (gated de f p eff) = g eff"
  by (simp add: gated_def Let_def split: prod.split)

lemma gated_eq:
  "gated de f p eff =
     (let eff' = eff\<lparr> pe_decision_results := snd (evaluate_decision_fn p de (pe_decision_results eff)) \<rparr> in
      if fires de p then f p eff' else eff')"
  by (simp add: gated_def Let_def evaluate_decision_fn_fires split_def)

text \<open>Following one observation through a fold over policies.\<close>

lemma fold_gated:
  assumes "\<And>eff r. g (eff\<lparr> pe_decision_results := r \<rparr>) = g eff"
    and "\<And>p eff. sel p \<Longrightarrow> fires de p \<Longrightarrow> g (f p eff) = h p (g eff)"
    and "\<And>p eff. \<not> sel p \<Longrightarrow> g (f p eff) = g eff"
  shows "g (fold (gated de f) ps eff) = fold h (filter (\<lambda>p. sel p \<and> fires de p) ps) (g eff)"
  by (induction ps arbitrary: eff) (auto simp: gated_eq Let_def assms)

lemma collect_column_deny_same:
  assumes "\<And>eff r. g (eff\<lparr> pe_decision_results := r \<rparr>) = g eff"
    and "\<And>p eff. g (column_deny_policy session ut p eff) = g eff"
  shows "g (collect_column_deny session ut de eff) = g eff"
proof -
  have "g (fold (\<lambda>p eff. if rp_policy_type p \<noteq> ColumnDeny then eff
      else gated de (column_deny_policy session ut) p eff) ps eff) = g eff" for ps
    by (induction ps arbitrary: eff) (auto simp: gated_same [where g = g] assms)
  then show ?thesis by (simp add: collect_column_deny_def)
qed

lemma collect_column_deny_fields [simp]:
  "pe_row_filters (collect_column_deny session ut de eff) = pe_row_filters eff"
  "pe_column_allow_patterns (collect_column_deny session ut de eff) = pe_column_allow_patterns eff"
  "pe_column_masks (collect_column_deny session ut de eff) = pe_column_masks eff"
  "pe_tables_with_permit (collect_column_deny session ut de eff) = pe_tables_with_permit eff"
  "pe_denied_by_policy (collect_column_deny session ut de eff) = pe_denied_by_policy eff"
  by (rule collect_column_deny_same; simp)+

lemma no_effects_fields [simp]:
  "pe_row_filters no_effects = []" "pe_column_allow_patterns no_effects = []"
  "pe_column_deny_patterns no_effects = []" "pe_column_masks no_effects = []"
  "pe_tables_with_permit no_effects = []" "pe_denied_by_policy no_effects = None"
  by (simp_all add: no_effects_def)

abbreviation active :: "decision_eval option \<Rightarrow> policy_type \<Rightarrow> resolved_policy list \<Rightarrow> resolved_policy list" where
  "active de ty ps \<equiv> filter (\<lambda>p. rp_policy_type p = ty \<and> fires de p) ps"

lemma collect_row_filters:
  "pe_row_filters (collect env session ut vars de) =
     fold (\<lambda>p. fold (\<lambda>(k, e). and_into k e) (row_filter_policy env session ut vars p))
       (active de RowFilter (sd_permit_policies session)) []"
  unfolding collect_def Let_def
  by (subst fold_gated [where g = pe_row_filters and sel = "\<lambda>p. rp_policy_type p = RowFilter"
        and h = "\<lambda>p. fold (\<lambda>(k, e). and_into k e) (row_filter_policy env session ut vars p)"])
    (auto simp: permit_policy_def split: policy_type.split)

lemma collect_passes:
  assumes "sem_laws s"
  shows "passes s (pe_row_filters (collect env session ut vars de)) k row \<longleftrightarrow>
    (\<forall>p \<in> set (active de RowFilter (sd_permit_policies session)).
       k \<in> set ut \<and> policy_matches session p k \<longrightarrow> (\<forall>e. policy_filter env vars p = Some e \<longrightarrow> holds s e row))"
proof -
  have "passes s (fold (\<lambda>p. fold (\<lambda>(k, e). and_into k e) (row_filter_policy env session ut vars p)) ps fs) k row \<longleftrightarrow>
    passes s fs k row \<and> (\<forall>p \<in> set ps. k \<in> set ut \<and> policy_matches session p k \<longrightarrow>
       (\<forall>e. policy_filter env vars p = Some e \<longrightarrow> holds s e row))" for ps fs
    by (induction ps arbitrary: fs)
      (simp_all add: passes_and_into_all [OF assms] row_filter_policy_passes [OF assms] conj_assoc)
  then show ?thesis by (simp add: collect_row_filters)
qed

text \<open>Observations that only grow: what a fold adds is the union of what its steps add.\<close>

lemma fold_collects:
  assumes "\<And>x a. g (f x a) = g a \<union> B x"
  shows "g (fold f xs a) = g a \<union> (\<Union>x \<in> set xs. B x)"
  by (induction xs arbitrary: a) (auto simp: assms)

lemma for_matches_collects:
  assumes "\<And>k e a. g (f k e a) = g a \<union> B k e"
  shows "g (for_matches session ut p f a) = g a \<union> (\<Union>k \<in> set ut. \<Union>e \<in> {e \<in> set (rp_targets p). entry_matches session k e}. B k e)"
proof -
  have "g (for_matches session ut p f a) =
      g a \<union> (\<Union>x \<in> set (filter (\<lambda>(k, e). entry_matches session k e) (List.product ut (rp_targets p))). case x of (k, e) \<Rightarrow> B k e)"
    unfolding for_matches_def by (rule fold_collects) (auto simp: assms split: prod.split)
  then show ?thesis by auto
qed

lemma gated_collects:
  assumes "\<And>eff r. g (eff\<lparr> pe_decision_results := r \<rparr>) = g eff" "\<And>p eff. g (f p eff) = g eff \<union> B p"
  shows "g (gated de f p eff) = g eff \<union> (if fires de p then B p else {})"
  by (simp add: gated_eq Let_def assms)

lemma collect_permits:
  "k \<in> set (pe_tables_with_permit (collect env session ut vars de)) \<longleftrightarrow>
     k \<in> set ut \<and> (\<exists>p \<in> set (active de ColumnAllow (sd_permit_policies session)). policy_matches session p k)"
proof -
  define g where "g eff = set (pe_tables_with_permit eff)" for eff :: policy_effects
  have one: "g (column_allow_policy session ut p eff) = g eff \<union> {k \<in> set ut. policy_matches session p k}" for p eff
    unfolding column_allow_policy_def
    by (subst for_matches_collects [where g = g and B = "\<lambda>k e. {k}"])
      (auto simp: g_def Let_def policy_matches_def list_ex_iff split: option.splits)
  have "g (permit_policy env session ut vars p eff) =
      g eff \<union> (if rp_policy_type p = ColumnAllow then {k \<in> set ut. policy_matches session p k} else {})" for p eff
    by (cases "rp_policy_type p") (simp_all add: permit_policy_def one, simp_all add: g_def)
  note step = gated_collects [where g = g, OF _ this]
  have "g (fold (gated de (permit_policy env session ut vars)) ps eff) = g eff \<union>
      (\<Union>p \<in> set ps. if fires de p then
         (if rp_policy_type p = ColumnAllow then {k \<in> set ut. policy_matches session p k} else {}) else {})" for ps eff
    by (rule fold_collects, rule step) (simp add: g_def)
  then show ?thesis
    by (auto simp: collect_def Let_def g_def split: if_splits)
qed

text \<open>The patterns collected for a table.\<close>

definition patterns_of :: "(table_key \<times> string list) list \<Rightarrow> (table_key \<times> string) set" where
  "patterns_of pats = {(k, c). c \<in> set (unwrap_or (map_of pats k) [])}"

lemma patterns_of_extend: "patterns_of (extend_patterns k cols pats) = patterns_of pats \<union> {k} \<times> set cols"
  by (auto simp: patterns_of_def extend_patterns_def update_conv' unwrap_or_eq split: option.splits if_splits)

lemma extend_patterns_keys:
  "fst ` set (extend_patterns k cols pats) = insert k (fst ` set pats)"
  "distinct (map fst pats) \<Longrightarrow> distinct (map fst (extend_patterns k cols pats))"
  by (simp_all add: extend_patterns_def dom_update distinct_update)

definition entry_columns :: "session_data \<Rightarrow> resolved_policy \<Rightarrow> table_key \<Rightarrow> string set" where
  "entry_columns session p k =
     (\<Union>e \<in> {e \<in> set (rp_targets p). entry_matches session k e}. set (unwrap_or (columns e) []))"

lemma collect_deny_patterns:
  "(k, c) \<in> patterns_of (pe_column_deny_patterns (collect env session ut vars de)) \<longleftrightarrow>
     k \<in> set ut \<and> (\<exists>p \<in> set (active de ColumnDeny (sd_deny_policies session)). c \<in> entry_columns session p k)"
proof -
  define g where "g eff = patterns_of (pe_column_deny_patterns eff)" for eff :: policy_effects
  have one: "g (column_deny_policy session ut p eff) = g eff \<union> {(k, c). k \<in> set ut \<and> c \<in> entry_columns session p k}" for p eff
    unfolding column_deny_policy_def
    by (subst for_matches_collects [where g = g and B = "\<lambda>k e. {k} \<times> set (unwrap_or (columns e) [])"])
      (auto simp: g_def patterns_of_extend entry_columns_def split: option.splits)
  have res: "g (eff\<lparr> pe_decision_results := r \<rparr>) = g eff" for eff r
    by (simp add: g_def)
  have "g (collect_column_deny session ut de eff) = g eff \<union>
      (\<Union>p \<in> set (sd_deny_policies session). if rp_policy_type p = ColumnDeny \<and> fires de p
         then {(k, c). k \<in> set ut \<and> c \<in> entry_columns session p k} else {})" for eff
    unfolding collect_column_deny_def
    by (rule fold_collects) (use gated_collects [where g = g, OF _ one] in \<open>auto simp: res\<close>)
  moreover have "g (fold (gated de (permit_policy env session ut vars)) ps eff) = g eff" for ps eff
    by (induction ps arbitrary: eff) (auto simp: g_def gated_same [where g = pe_column_deny_patterns])
  ultimately show ?thesis
    by (auto simp: collect_def Let_def g_def patterns_of_def split: if_splits)
qed

lemma collect_allow_patterns:
  "(k, c) \<in> patterns_of (pe_column_allow_patterns (collect env session ut vars de)) \<longleftrightarrow>
     k \<in> set ut \<and> (\<exists>p \<in> set (active de ColumnAllow (sd_permit_policies session)). c \<in> entry_columns session p k)"
proof -
  define g where "g eff = patterns_of (pe_column_allow_patterns eff)" for eff :: policy_effects
  have one: "g (column_allow_policy session ut p eff) = g eff \<union> {(k, c). k \<in> set ut \<and> c \<in> entry_columns session p k}" for p eff
    unfolding column_allow_policy_def
    by (subst for_matches_collects [where g = g and B = "\<lambda>k e. {k} \<times> set (unwrap_or (columns e) [])"])
      (auto simp: g_def patterns_of_extend entry_columns_def Let_def split: option.splits)
  have "g (permit_policy env session ut vars p eff) = g eff \<union>
      (if rp_policy_type p = ColumnAllow then {(k, c). k \<in> set ut \<and> c \<in> entry_columns session p k} else {})" for p eff
    by (cases "rp_policy_type p") (simp_all add: permit_policy_def one, simp_all add: g_def)
  note step = gated_collects [where g = g, OF _ this]
  have "g (fold (gated de (permit_policy env session ut vars)) ps eff) = g eff \<union>
      (\<Union>p \<in> set ps. if fires de p then (if rp_policy_type p = ColumnAllow
         then {(k, c). k \<in> set ut \<and> c \<in> entry_columns session p k} else {}) else {})" for ps eff
    by (rule fold_collects, rule step) (simp add: g_def)
  then show ?thesis
    by (auto simp: collect_def Let_def g_def patterns_of_def split: if_splits)
qed

lemma collect_allow_keys: "fst ` set (pe_column_allow_patterns (collect env session ut vars de)) \<subseteq> set ut"
proof -
  define g where "g eff = fst ` set (pe_column_allow_patterns eff)" for eff :: policy_effects
  have one: "g (column_allow_policy session ut p eff) \<subseteq> g eff \<union> set ut" for p eff
    unfolding column_allow_policy_def
    by (subst for_matches_collects [where g = g and B = "\<lambda>k e. if columns e = None then {} else {k}"])
      (auto simp: g_def extend_patterns_keys Let_def split: option.splits if_splits)
  have step: "g (permit_policy env session ut vars p eff) \<subseteq> g eff \<union> set ut" for p eff
    using one by (cases "rp_policy_type p") (simp_all add: permit_policy_def, simp_all add: g_def)
  have "g (eff\<lparr> pe_decision_results := r \<rparr>) = g eff" for eff r by (simp add: g_def)
  then have "g (gated de (permit_policy env session ut vars) p eff) \<subseteq> g eff \<union> set ut" for p eff
    by (auto simp: gated_eq Let_def dest!: subsetD [OF step])
  then have "g (fold (gated de (permit_policy env session ut vars)) ps eff) \<subseteq> g eff \<union> set ut" for ps eff
    by (induction ps arbitrary: eff) fastforce+
  then have "g (collect env session ut vars de) \<subseteq> {} \<union> set ut"
    unfolding collect_def Let_def by (rule order_trans) (simp add: g_def)
  then show ?thesis by (simp add: g_def)
qed

definition denies :: "session_data \<Rightarrow> table_key list \<Rightarrow> decision_eval option \<Rightarrow> resolved_policy \<Rightarrow> bool" where
  "denies session ut de p \<longleftrightarrow>
     rp_policy_type p = TableDeny \<and> fires de p \<and> (\<exists>k \<in> set ut. policy_matches session p k)"

lemma collect_denied:
  "pe_denied_by_policy (collect env session ut vars de) = map_option rp_name (find (denies session ut de) (sd_deny_policies session))"
proof -
  have "pe_denied_by_policy (collect_table_deny session ut de ps eff) =
      (case find (denies session ut de) ps of Some p \<Rightarrow> Some (rp_name p) | None \<Rightarrow> pe_denied_by_policy eff)" for ps eff
  proof (induction ps arbitrary: eff)
    case (Cons p ps)
    then show ?case
      by (auto simp: denies_def evaluate_decision_fn_fires list_ex_iff Let_def split_def split: option.split)
  qed simp
  moreover have "pe_denied_by_policy (fold (gated de (permit_policy env session ut vars)) ps eff) = pe_denied_by_policy eff" for ps eff
    by (induction ps arbitrary: eff) (auto simp: gated_same [where g = pe_denied_by_policy])
  ultimately show ?thesis
    by (simp add: collect_def Let_def split: option.split)
qed

lemma check_deny_collect:
  "check_deny (collect env session ut vars de) =
     (case find (denies session ut de) (sd_deny_policies session) of
        Some p \<Rightarrow> Inl (DeniedByPolicy (rp_name p))
      | None \<Rightarrow> Inr ())"
  by (simp add: check_deny_def collect_denied split: option.split)

section \<open>Rows behind the rewritten scans\<close>

text \<open>The effects, parent scans and denied keys the pipeline works with.\<close>

definition final_effects :: "hook_env \<Rightarrow> session_data \<Rightarrow> plan \<Rightarrow> user_vars \<Rightarrow> decision_eval option \<Rightarrow> policy_effects" where
  "final_effects env session plan vars de =
     (let ut = collect_user_tables plan (he_default_schema env) in
      apply_access_mode (sd_access_mode session) ut (collect env session ut vars de))"

text \<open>
  What a scan yields once its row filter is in place, and what the rest of the query sees of it after
  masking.
\<close>

definition filtered_rows ::
  "sem \<Rightarrow> (table_ref \<Rightarrow> string list \<Rightarrow> row list) \<Rightarrow> hook_env \<Rightarrow> policy_effects \<Rightarrow> relationship_snapshot \<Rightarrow> parent_cache
    \<Rightarrow> table_ref \<Rightarrow> string list \<Rightarrow> row list" where
  "filtered_rows s S env eff snap cache =
     (let ((parent_scans, deny_wins), _) = precompute_parent_scans env (pe_row_filters eff) snap cache in
      scan_result s S (row_filter_scan env eff snap parent_scans deny_wins))"

definition user_view ::
  "sem \<Rightarrow> (table_ref \<Rightarrow> string list \<Rightarrow> row list) \<Rightarrow> hook_env \<Rightarrow> policy_effects \<Rightarrow> relationship_snapshot \<Rightarrow> parent_cache
    \<Rightarrow> table_ref \<Rightarrow> string list \<Rightarrow> row list" where
  "user_view s S env eff snap cache = scan_result s (filtered_rows s S env eff snap cache) (mask_scan env eff)"

interpretation row_filters: scan_rewrite "row_filter_scan env eff snap ps dw" for env eff snap ps dw
  by unfold_locales (auto simp: row_filter_scan_def split: plan.split)

interpretation masks: scan_rewrite "mask_scan env eff" for env eff
  by unfold_locales (auto simp: mask_scan_def split: plan.split)

lemma row_filter_scan_none: "pe_row_filters eff = [] \<Longrightarrow> row_filter_scan env eff snap ps dw = Inr"
  by (auto simp: row_filter_scan_def fun_eq_iff split: plan.split)

lemma mask_scan_none: "pe_column_masks eff = [] \<Longrightarrow> mask_scan env eff = Inr"
  by (auto simp: mask_scan_def fun_eq_iff Let_def split: plan.split)

lemma apply_row_filters_eq:
  "df_laws (he_df env) \<Longrightarrow> apply_row_filters env eff snap ps dw p =
     map_err PlanTransformation (rewrite_up (row_filter_scan env eff snap ps dw) p)"
  by (simp add: apply_row_filters_def df_laws_simps(5) row_filter_scan_none rewrite_up_id)

lemma apply_column_mask_at_scan_eq:
  "df_laws (he_df env) \<Longrightarrow> apply_column_mask_at_scan env eff p =
     map_err PlanTransformation (rewrite_up (mask_scan env eff) p)"
  by (simp add: apply_column_mask_at_scan_def df_laws_simps(5) mask_scan_none rewrite_up_id)

lemma mask_scan_shape:
  assumes "df_laws (he_df env)" "mask_scan env eff (TableScan r cs) = Inr q"
  shows "q = TableScan r cs \<or> (\<exists>es. q = Projection es (TableScan r cs))"
  using assms(2) by (auto simp: mask_scan_def Let_def split: if_splits dest: df_laws_simps(2) [OF assms(1)])

lemma enforced_plan:
  assumes "df_laws (he_df env)" "no_subqueries plan"
    and "apply_policies env session plan vars de cache = (Inr (plan', had, results), cache')"
  obtains plan1 where
    "eval_over s S plan1 = eval_over s (user_view s S env (final_effects env session plan vars de)
       (sd_relationship_snapshot session) cache) plan"
    "apply_projection_qualified env ((final_effects env session plan vars de)\<lparr> pe_column_masks := [] \<rparr>) plan1 = Inr plan'"
proof -
  define eff where "eff = final_effects env session plan vars de"
  define snap where "snap = sd_relationship_snapshot session"
  obtain ps dw c where pre: "precompute_parent_scans env (pe_row_filters eff) snap cache = ((ps, dw), c)"
    by (metis prod.exhaust)
  obtain p0 p1 where p0: "rewrite_up (mask_scan env eff) plan = Inr p0"
    and p1: "rewrite_up (row_filter_scan env eff snap ps dw) p0 = Inr p1"
    and proj: "apply_projection_qualified env (eff\<lparr> pe_column_masks := [] \<rparr>) p1 = Inr plan'"
    using assms(3) pre
    by (auto simp: apply_policies_def Let_def final_effects_def eff_def snap_def
        apply_column_mask_at_scan_eq [OF assms(1)] apply_row_filters_eq [OF assms(1)] split: sum.splits)
  have "no_subqueries p0"
    using masks.keeps_no_subqueries [OF _ p0 assms(2)] mask_scan_shape [OF assms(1)] by fastforce
  then have "eval_over s S p1 = eval_over s (filtered_rows s S env eff snap cache) p0"
    using row_filters.eval [OF p1] by (simp add: filtered_rows_def pre)
  also have "\<dots> = eval_over s (user_view s S env eff snap cache) plan"
    using masks.eval [OF p0 assms(2)] by (simp add: user_view_def)
  finally show ?thesis
    using that proj by (simp add: eff_def snap_def)
qed

text \<open>The rows of a table have the columns of its scan, all different.\<close>

definition conforms :: "hook_env \<Rightarrow> (table_ref \<Rightarrow> string list \<Rightarrow> row list) \<Rightarrow> table_ref \<Rightarrow> string list \<Rightarrow> bool" where
  "conforms env S r cs \<longleftrightarrow>
     (\<forall>row \<in> set (S r cs). map fst row = df_schema (he_df env) (TableScan r cs)) \<and>
     distinct (df_schema (he_df env) (TableScan r cs)) \<and> df_schema (he_df env) (TableScan r cs) \<noteq> []"

text \<open>A filter is local when every unqualified column it names is on the table, as far as the snapshot knows.\<close>

definition local_filter :: "relationship_snapshot \<Rightarrow> table_key \<Rightarrow> expr \<Rightarrow> bool" where
  "local_filter snap k e \<longleftrightarrow>
     (case table_columns snap k of None \<Rightarrow> True | Some cols \<Rightarrow> set (unqualified_names e) \<subseteq> set cols)"

lemma missing_columns_Nil: "missing_columns cols e = [] \<longleftrightarrow> set (unqualified_names e) \<subseteq> set cols"
  by (auto simp: missing_columns_def)

lemma local_filter_plan:
  assumes "local_filter snap k e"
  shows "build_column_resolution_plan df k scan e snap ps \<noteq> Inr (Some p)"
proof (cases "table_columns snap k")
  case (Some cols)
  then have "missing_columns cols e = []"
    using assms by (simp add: local_filter_def missing_columns_Nil)
  with Some show ?thesis
    by (simp add: build_column_resolution_plan_def split: option.split)
qed (simp add: build_column_resolution_plan_def)

text \<open>The three ways a filtered scan comes out: denied, filtered on the spot, or joined with parents.\<close>

lemma row_filter_scan_cases:
  assumes "df_laws (he_df env)" "row_filter_scan env eff snap ps dw (TableScan r cs) = Inr q"
    and "map_of (pe_row_filters eff) (scan_policy_key r (he_default_schema env)) = Some e"
  obtains (denied) "q = Filter lit_false (TableScan r cs)"
    | (direct) "q = Filter e (TableScan r cs)"
    | (resolved) "build_column_resolution_plan (he_df env) (scan_policy_key r (he_default_schema env))
        (TableScan r cs) e snap ps = Inr (Some q)"
  using assms(2,3)
  by (auto simp: row_filter_scan_def Let_def split: if_splits sum.splits option.splits
      dest: df_laws_simps(1) [OF assms(1)])

lemma filtered_rows_within:
  assumes "df_laws (he_df env)" "sem_laws s" "conforms env S r cs"
  shows "set (filtered_rows s S env eff snap cache r cs) \<subseteq> set (S r cs)"
proof
  fix row
  assume row: "row \<in> set (filtered_rows s S env eff snap cache r cs)"
  obtain ps dw c where pre: "precompute_parent_scans env (pe_row_filters eff) snap cache = ((ps, dw), c)"
    by (metis prod.exhaust)
  obtain q where q: "row_filter_scan env eff snap ps dw (TableScan r cs) = Inr q" "row \<in> set (eval_over s S q)"
    using row by (auto simp: filtered_rows_def pre dest: scan_result_in)
  show "row \<in> set (S r cs)"
  proof (cases "map_of (pe_row_filters eff) (scan_policy_key r (he_default_schema env))")
    case None
    with q show ?thesis by (auto simp: row_filter_scan_def)
  next
    case (Some e)
    from assms(1) q(1) Some show ?thesis
    proof (cases rule: row_filter_scan_cases)
      case resolved
      obtain l where l: "finish_plan (he_df env) (scan_policy_key r (he_default_schema env)) (TableScan r cs) e ps l = Inr q"
        using resolved by (auto simp: build_column_resolution_plan_def Let_def split: option.splits if_splits)
      show ?thesis
        using finish_plan_rows [OF assms(1,2) l, of S row] assms(3) q(2) by (auto simp: conforms_def)
    qed (use q(2) in auto)
  qed
qed

lemma filtered_rows_pass:
  assumes "df_laws (he_df env)" "sem_laws s"
    and "\<forall>e. map_of (pe_row_filters eff) (scan_policy_key r (he_default_schema env)) = Some e \<longrightarrow>
           local_filter snap (scan_policy_key r (he_default_schema env)) e"
    and "row \<in> set (filtered_rows s S env eff snap cache r cs)"
  shows "row \<in> set (S r cs) \<and> passes s (pe_row_filters eff) (scan_policy_key r (he_default_schema env)) row"
proof -
  obtain ps dw c where pre: "precompute_parent_scans env (pe_row_filters eff) snap cache = ((ps, dw), c)"
    by (metis prod.exhaust)
  obtain q where q: "row_filter_scan env eff snap ps dw (TableScan r cs) = Inr q" "row \<in> set (eval_over s S q)"
    using assms(4) by (auto simp: filtered_rows_def pre dest: scan_result_in)
  show ?thesis
  proof (cases "map_of (pe_row_filters eff) (scan_policy_key r (he_default_schema env))")
    case None
    with q show ?thesis by (auto simp: row_filter_scan_def passes_def)
  next
    case (Some e)
    from assms(1) q(1) Some show ?thesis
    proof (cases rule: row_filter_scan_cases)
      case denied
      with q(2) show ?thesis by (simp add: sem_laws_simps [OF assms(2)])
    next
      case direct
      with q(2) Some show ?thesis by (simp add: passes_def)
    next
      case resolved
      with local_filter_plan assms(3) Some show ?thesis by blast
    qed
  qed
qed

text \<open>A column a mask applies to carries the value of the mask, evaluated on the row before masking.\<close>

definition mask_of :: "hook_env \<Rightarrow> policy_effects \<Rightarrow> table_ref \<Rightarrow> string list \<Rightarrow> string \<Rightarrow> expr option" where
  "mask_of env eff r cs n =
     mask_for eff (scan_policy_key r (he_default_schema env)) (map c_name (df_schema (he_df env) (TableScan r cs))) n"

definition masked_row :: "sem \<Rightarrow> hook_env \<Rightarrow> policy_effects \<Rightarrow> table_ref \<Rightarrow> string list \<Rightarrow> row \<Rightarrow> row" where
  "masked_row s env eff r cs row =
     map (\<lambda>(c, v). (c, case mask_of env eff r cs (c_name c) of Some m \<Rightarrow> ev s m row | None \<Rightarrow> v)) row"

text \<open>Scans qualify their columns.\<close>

definition qualified_scan :: "hook_env \<Rightarrow> table_ref \<Rightarrow> string list \<Rightarrow> bool" where
  "qualified_scan env r cs \<longleftrightarrow> (\<forall>c \<in> set (df_schema (he_df env) (TableScan r cs)). c_relation c \<noteq> None)"

lemma project_masked:
  assumes "sem_laws s" "map fst row = df_schema (he_df env) (TableScan r cs)" "distinct (map fst row)" "qualified_scan env r cs"
  shows "project_row s (map (mask_column env eff (scan_policy_key r (he_default_schema env))
      (map c_name (df_schema (he_df env) (TableScan r cs)))) (df_schema (he_df env) (TableScan r cs))) row =
    masked_row s env eff r cs row"
proof -
  have "(out_field (mask_column env eff (scan_policy_key r (he_default_schema env)) (map c_name (map fst row)) c),
      ev s (mask_column env eff (scan_policy_key r (he_default_schema env)) (map c_name (map fst row)) c) row) =
      (c, case mask_of env eff r cs (c_name c) of Some m \<Rightarrow> ev s m row | None \<Rightarrow> v)" if "(c, v) \<in> set row" for c v
  proof -
    have "c_relation c \<noteq> None"
      using that assms(2,4) unfolding qualified_scan_def assms(2) [symmetric] by force
    moreover have "ev s (Col c) row = v"
      using that assms(3) by (intro sem_laws_simps(4) [OF assms(1)]) simp
    ultimately show ?thesis
      by (auto simp: mask_column_def mask_of_def column_ref_def assms(2) [symmetric] sem_laws_simps(3) [OF assms(1)]
          split: option.split)
  qed
  then show ?thesis
    unfolding assms(2) [symmetric] project_row_def masked_row_def
    by (auto simp: comp_def)
qed

lemma masked_row_none:
  assumes "\<forall>(c, v) \<in> set row. mask_of env eff r cs (c_name c) = None"
  shows "masked_row s env eff r cs row = row"
  unfolding masked_row_def by (rule map_idI) (use assms in auto)

lemma mask_scan_cases:
  assumes "df_laws (he_df env)" "mask_scan env eff (TableScan r cs) = Inr q"
  obtains (plain) "q = TableScan r cs" "\<forall>c \<in> set (df_schema (he_df env) (TableScan r cs)). mask_of env eff r cs (c_name c) = None"
    | (masked) "q = Projection (map (mask_column env eff (scan_policy_key r (he_default_schema env))
        (map c_name (df_schema (he_df env) (TableScan r cs)))) (df_schema (he_df env) (TableScan r cs))) (TableScan r cs)"
proof -
  have "mask_of env eff r cs n = None"
    if "\<not> list_ex (\<lambda>((s, t, _), _). s = fst (scan_policy_key r (he_default_schema env)) \<and>
        t = snd (scan_policy_key r (he_default_schema env))) (pe_column_masks eff)" for n
    using that by (fastforce simp: mask_of_def mask_for_def list_ex_iff map_of_eq_None_iff)
  then show ?thesis
    using assms(2) plain masked
    by (auto simp: mask_scan_def Let_def list_ex_iff mask_of_def split: if_splits dest: df_laws_simps(2) [OF assms(1)])
qed

lemma user_view_rows:
  assumes "df_laws (he_df env)" "sem_laws s" "conforms env S r cs" "qualified_scan env r cs"
    and "row' \<in> set (user_view s S env eff snap cache r cs)"
  shows "\<exists>row \<in> set (filtered_rows s S env eff snap cache r cs). row' = masked_row s env eff r cs row"
proof -
  obtain q where q: "mask_scan env eff (TableScan r cs) = Inr q"
      "row' \<in> set (eval_over s (filtered_rows s S env eff snap cache) q)"
    using assms(5) by (auto simp: user_view_def dest: scan_result_in)
  have fields: "map fst row = df_schema (he_df env) (TableScan r cs)" "distinct (map fst row)"
    if "row \<in> set (filtered_rows s S env eff snap cache r cs)" for row
    using subsetD [OF filtered_rows_within [OF assms(1-3)] that] assms(3) by (auto simp: conforms_def)
  from assms(1) q(1) show ?thesis
  proof (cases rule: mask_scan_cases)
    case plain
    have "set (df_schema (he_df env) (TableScan r cs)) = fst ` set row'"
      using fields(1) [of row'] plain q(2) by (simp flip: set_map)
    then have "masked_row s env eff r cs row' = row'"
      using plain by (intro masked_row_none) force
    with plain q(2) show ?thesis by (intro bexI [of _ row']) auto
  next
    case masked
    with q(2) obtain row where row: "row \<in> set (filtered_rows s S env eff snap cache r cs)"
        "row' = project_row s (map (mask_column env eff (scan_policy_key r (he_default_schema env))
          (map c_name (df_schema (he_df env) (TableScan r cs)))) (df_schema (he_df env) (TableScan r cs))) row"
      by auto
    with project_masked [OF assms(2) fields [OF row(1)] assms(4)] show ?thesis by auto
  qed
qed

section \<open>Access mode\<close>

lemma access_mode_filters:
  "map_of (pe_row_filters (apply_access_mode mode ut eff)) k =
     (if mode = ''policy_required'' \<and> k \<in> set ut \<and> k \<notin> set (pe_tables_with_permit eff)
      then Some lit_false else map_of (pe_row_filters eff) k)"
proof -
  have "map_of (fold (\<lambda>k fs. if k \<in> P then fs else AList.update k lit_false fs) xs fs) k =
      (if k \<in> set xs \<and> k \<notin> P then Some lit_false else map_of fs k)" for P xs fs
    by (induction xs arbitrary: fs) (auto simp: update_conv')
  then show ?thesis by (auto simp: apply_access_mode_def)
qed

lemma access_mode_fields [simp]:
  "pe_column_masks (apply_access_mode mode ut eff) = pe_column_masks eff"
  "pe_column_deny_patterns (apply_access_mode mode ut eff) = pe_column_deny_patterns eff"
  "pe_column_allow_patterns (apply_access_mode mode ut eff) = pe_column_allow_patterns eff"
  "pe_tables_with_permit (apply_access_mode mode ut eff) = pe_tables_with_permit eff"
  by (simp_all add: apply_access_mode_def)

lemma local_lit_false [simp]: "local_filter snap k lit_false"
  by (simp add: local_filter_def unqualified_names_def split: option.split)

lemma passes_access_mode:
  assumes "sem_laws s" "passes s (pe_row_filters (apply_access_mode mode ut eff)) k row"
  shows "passes s (pe_row_filters eff) k row"
    and "mode = ''policy_required'' \<Longrightarrow> k \<in> set ut \<Longrightarrow> k \<in> set (pe_tables_with_permit eff)"
  using assms(2) sem_laws_simps(1) [OF assms(1)]
  by (auto simp: passes_def access_mode_filters split: if_splits)

end
