(* ===== verification/PolicySession.thy ===== *)
theory PolicySession
  imports PolicyEffects RoleResolver CatalogEntities
begin

text \<open>
  Sessions of the policy hook (\<open>hooks/policy.rs\<close>): what is loaded for a user and a data source (policies
  with their decision functions, attributes, the relationship snapshot), and the cache of sessions with
  its time to live and its invalidations.

  The JSON reader and printer are the fields of \<open>session_lib\<close>. Hash maps keep the last value inserted
  for a key.
\<close>

section \<open>Loading\<close>

record session_lib =
  sl_targets :: "string \<Rightarrow> target_entry list option"
  sl_json :: "string \<Rightarrow> json option"
  sl_show_json :: "json \<Rightarrow> string"
  sl_show_uuid :: "uuid \<Rightarrow> string"

definition schema_df_alias :: "discovered_schema_row \<Rightarrow> string" where
  "schema_df_alias s = unwrap_or (dsc_schema_alias s) (dsc_schema_name s)"

definition load_schema_map :: "discovered_schema_row list \<Rightarrow> schema_map" where
  "load_schema_map rows = collect_map (map (\<lambda>s. (schema_df_alias s, dsc_schema_name s)) rows)"

definition parse_attributes :: "session_lib \<Rightarrow> string \<Rightarrow> (string \<times> json) list" where
  "parse_attributes lib s = (case sl_json lib s of Some (JObject fs) \<Rightarrow> fs | _ \<Rightarrow> [])"

definition attribute_text :: "session_lib \<Rightarrow> string \<Rightarrow> json \<Rightarrow> string" where
  "attribute_text lib value_type v =
     (if value_type = ''list'' then sl_show_json lib v
      else (case v of JString s \<Rightarrow> s | _ \<Rightarrow> sl_show_json lib v))"

definition load_user_attributes ::
  "session_lib \<Rightarrow> conn \<Rightarrow> catalog_conn \<Rightarrow> uuid \<Rightarrow> (string, attributes \<times> (string \<times> attr_def_info) list) result" where
  "load_user_attributes lib db cat user_id =
     bind_result (q_proxy_user db) (\<lambda>users.
     bind_result (ok_or (find_row pu_id user_id users) (''User '' @ sl_show_uuid lib user_id @ '' not found'')) (\<lambda>user.
     let raw_attrs = parse_attributes lib (pu_attributes user) in
     bind_result (q_attribute_definition cat) (\<lambda>all_defs.
     let defs = filter (\<lambda>d. atd_entity_type d = ''user'') all_defs;
         def_map = collect_map (map (\<lambda>d. (atd_key d, atd_value_type d)) defs);
         attr_defs = AList.clearjunk (rev (map (\<lambda>d. (atd_key d,
           \<lparr> ad_default_value = atd_default_value d, ad_value_type = atd_value_type d \<rparr>)) defs));
         typed = (\<lambda>key. map_option (\<lambda>v. let value_type = unwrap_or (def_map key) ''string'' in
             \<lparr> ta_value = attribute_text lib value_type v, ta_value_type = value_type \<rparr>) (collect_map raw_attrs key))
     in Inr (typed, attr_defs))))"

section \<open>The relationship snapshot\<close>

definition schema_aliases :: "uuid \<Rightarrow> discovered_schema_row list \<Rightarrow> (uuid \<times> string) list" where
  "schema_aliases datasource_id rows =
     map (\<lambda>s. (dsc_id s, schema_df_alias s)) (filter (\<lambda>s. dsc_data_source_id s = datasource_id) rows)"

definition table_keys :: "(uuid \<rightharpoonup> string) \<Rightarrow> discovered_table_row list \<Rightarrow> uuid \<rightharpoonup> table_key" where
  "table_keys aliases rows =
     collect_map (List.map_filter (\<lambda>t. map_option (\<lambda>df_schema. (dst_id t, (df_schema, dst_table_name t)))
       (aliases (dst_discovered_schema_id t))) rows)"

definition snapshot_columns :: "(uuid \<rightharpoonup> table_key) \<Rightarrow> discovered_column_row list \<Rightarrow> (table_key \<times> string list) list" where
  "snapshot_columns keys cols =
     (let entries = List.map_filter (\<lambda>c. map_option (\<lambda>k. (k, dco_column_name c)) (keys (dco_discovered_table_id c))) cols
      in map (\<lambda>k. (k, map snd (filter (\<lambda>(k', _). k' = k) entries))) (remdups (map fst entries)))"

definition snapshot_edge :: "(uuid \<rightharpoonup> table_key) \<Rightarrow> table_relationship_row \<Rightarrow> (uuid \<times> relationship_edge) option" where
  "snapshot_edge keys r =
     (case (keys (trl_child_table_id r), keys (trl_parent_table_id r)) of
        (Some child, Some parent) \<Rightarrow>
          Some (trl_id r, \<lparr> re_id = trl_id r, re_child_schema = fst child, re_child_table = snd child,
            re_child_column = trl_child_column_name r, re_parent_schema = fst parent, re_parent_table = snd parent,
            re_parent_column = trl_parent_column_name r \<rparr>)
      | _ \<Rightarrow> None)"

definition snapshot_anchor ::
  "(uuid \<rightharpoonup> table_key) \<Rightarrow> (uuid \<times> relationship_edge) list \<Rightarrow> column_anchor_row
    \<Rightarrow> ((string \<times> string \<times> string) \<times> anchor_shape) option" where
  "snapshot_anchor keys relationships a =
     (case keys (can_child_table_id a) of
        None \<Rightarrow> None
      | Some k \<Rightarrow>
          (let key = (fst k, snd k, can_resolved_column_name a) in
           case (can_relationship_id a, can_actual_column_name a) of
             (Some rel_id, None) \<Rightarrow>
               if rel_id \<in> fst ` set relationships then Some (key, Relationship rel_id) else None
           | (None, Some actual) \<Rightarrow> Some (key, AliasAnchor actual)
           | _ \<Rightarrow> None))"

definition empty_snapshot :: relationship_snapshot where
  "empty_snapshot = \<lparr> rs_relationships = [], rs_anchors = [], rs_columns_by_table = [] \<rparr>"

definition load_relationship_snapshot :: "catalog_conn \<Rightarrow> uuid \<Rightarrow> (string, relationship_snapshot) result" where
  "load_relationship_snapshot cat datasource_id =
     bind_result (q_discovered_schema cat) (\<lambda>rows.
     let alias_list = schema_aliases datasource_id rows; aliases = collect_map alias_list in
     if alias_list = [] then Inr empty_snapshot
     else
       bind_result (q_discovered_table cat) (\<lambda>all_tables.
       let found = filter (\<lambda>t. dst_discovered_schema_id t \<in> fst ` set alias_list) all_tables;
           keys = table_keys aliases found in
       bind_result (if found = [] then Inr [] else q_discovered_column cat) (\<lambda>cols.
       bind_result (q_table_relationship cat) (\<lambda>rels.
       let relationships = rev (List.map_filter (snapshot_edge keys)
             (filter (\<lambda>r. trl_data_source_id r = datasource_id) rels)) in
       bind_result (q_column_anchor cat) (\<lambda>anchor_rows.
         Inr \<lparr> rs_relationships = relationships,
               rs_anchors = rev (List.map_filter (snapshot_anchor keys relationships)
                 (filter (\<lambda>a. can_data_source_id a = datasource_id) anchor_rows)),
               rs_columns_by_table = snapshot_columns keys cols \<rparr>)))))"

section \<open>Policies of a session\<close>

definition resolve_decision_function ::
  "session_lib \<Rightarrow> (uuid \<rightharpoonup> decision_function_row) \<Rightarrow> policy_row \<Rightarrow> resolved_decision_function option" where
  "resolve_decision_function lib df_map p =
     (case po_decision_function_id p of
        None \<Rightarrow> None
      | Some i \<Rightarrow> map_option (\<lambda>d.
          \<lparr> df_id = dfn_id d, df_decision_wasm = dfn_decision_wasm d,
            df_decision_config = (case dfn_decision_config d of None \<Rightarrow> None | Some s \<Rightarrow> sl_json lib s),
            df_evaluate_context = dfn_evaluate_context d, df_on_error = dfn_on_error d,
            df_log_level = dfn_log_level d, df_is_enabled = dfn_is_enabled d \<rparr>) (df_map i))"

definition resolve_policy ::
  "session_lib \<Rightarrow> (uuid \<rightharpoonup> decision_function_row) \<Rightarrow> (uuid \<rightharpoonup> i32) \<Rightarrow> policy_row \<Rightarrow> resolved_policy option" where
  "resolve_policy lib df_map policy_priority p =
     (case from_str (po_policy_type p) of
        Inl _ \<Rightarrow> None
      | Inr policy_type \<Rightarrow>
          Some \<lparr> rp_id = po_id p, rp_name = po_name p, rp_policy_type = policy_type, rp_version = po_version p,
             rp_priority = unwrap_or (policy_priority (po_id p)) 100,
             rp_targets = unwrap_or (sl_targets lib (po_targets p)) [],
             rp_definition = (case po_definition p of None \<Rightarrow> None | Some s \<Rightarrow> sl_json lib s),
             rp_decision_function = resolve_decision_function lib df_map p \<rparr>)"

fun priority_map :: "policy_assignment_row list \<Rightarrow> (uuid \<rightharpoonup> i32) \<Rightarrow> (uuid \<rightharpoonup> i32)" where
  "priority_map [] m = m"
| "priority_map (a # as) m =
     priority_map as (m(pa_policy_id a \<mapsto>
       (case m (pa_policy_id a) of None \<Rightarrow> pa_priority a | Some p \<Rightarrow> if pa_priority a < p then pa_priority a else p)))"

definition load_policies ::
  "session_lib \<Rightarrow> conn \<Rightarrow> catalog_conn \<Rightarrow> policy_assignment_row list \<Rightarrow> (string, resolved_policy list) result" where
  "load_policies lib db cat assignments =
     (if assignments = [] then Inr []
      else
        bind_result (q_policy db) (\<lambda>all.
        let policies = filter (\<lambda>p. po_id p \<in> pa_policy_id ` set assignments \<and> po_is_enabled p) all;
            df_ids = List.map_filter po_decision_function_id policies in
        bind_result (if df_ids = [] then Inr [] else q_decision_function cat) (\<lambda>dfs.
        let df_map = collect_map (map (\<lambda>d. (dfn_id d, d)) (filter (\<lambda>d. dfn_id d \<in> set df_ids) dfs)) in
          Inr (List.map_filter (resolve_policy lib df_map (priority_map assignments Map.empty)) policies))))"

definition load_session :: "session_lib \<Rightarrow> conn \<Rightarrow> catalog_conn \<Rightarrow> uuid \<Rightarrow> string \<Rightarrow> (string, session_data) result" where
  "load_session lib db cat user_id datasource_name =
     bind_result (q_data_source db) (\<lambda>sources.
     bind_result (ok_or (find (\<lambda>d. ds_name d = datasource_name) sources)
         (''Datasource '' @ sq datasource_name @ '' not found'')) (\<lambda>ds.
     bind_result (q_discovered_schema cat) (\<lambda>rows.
     let df_to_upstream = load_schema_map (filter (\<lambda>s. dsc_data_source_id s = ds_id ds) rows) in
     bind_result (resolve_user_roles db user_id) (\<lambda>role_ids.
     bind_result (if role_ids = [] then Inr [] else q_role db) (\<lambda>roles.
     let role_names = map ro_name (filter (\<lambda>r. ro_id r \<in> set role_ids) roles) in
     bind_result (load_user_attributes lib db cat user_id) (\<lambda>(user_attributes, attribute_defs).
     bind_result (resolve_effective_assignments db user_id (ds_id ds)) (\<lambda>assignments.
     bind_result (load_relationship_snapshot cat (ds_id ds)) (\<lambda>snapshot.
     bind_result (load_policies lib db cat assignments) (\<lambda>policies.
       Inr \<lparr> sd_permit_policies = sort_key rp_priority (filter (\<lambda>p. \<not> is_deny (rp_policy_type p)) policies),
             sd_deny_policies = sort_key rp_priority (filter (\<lambda>p. is_deny (rp_policy_type p)) policies),
             sd_access_mode = ds_access_mode ds, sd_df_to_upstream = df_to_upstream,
             sd_datasource_id = ds_id ds, sd_datasource_name = ds_name ds, sd_roles = role_names,
             sd_user_attributes = user_attributes, sd_attribute_defs = attribute_defs,
             sd_relationship_snapshot = snapshot \<rparr>)))))))))"

section \<open>What a session holds\<close>

lemma priority_map_other: "i \<notin> pa_policy_id ` set as \<Longrightarrow> priority_map as m i = m i"
  by (induction as arbitrary: m) auto

lemma priority_map_distinct:
  "distinct (map pa_policy_id as) \<Longrightarrow> a \<in> set as \<Longrightarrow> m (pa_policy_id a) = None \<Longrightarrow>
     priority_map as m (pa_policy_id a) = Some (pa_priority a)"
proof (induction as arbitrary: m)
  case (Cons x as)
  show ?case
  proof (cases "a = x")
    case True
    with Cons.prems show ?thesis by (simp add: priority_map_other)
  next
    case False
    with Cons.prems have "a \<in> set as" "pa_policy_id a \<noteq> pa_policy_id x" by (auto simp: image_iff)
    with Cons show ?thesis by simp
  qed
qed simp

lemma priority_map_lowest:
  assumes "best_inv A bs" "i \<in> pa_policy_id ` set bs"
  shows "priority_map bs Map.empty i = Some pr \<longleftrightarrow>
     (\<exists>a \<in> A. pa_policy_id a = i \<and> pa_priority a = pr) \<and> (\<forall>a \<in> A. pa_policy_id a = i \<longrightarrow> pr \<le> pa_priority a)"
proof -
  have d: "distinct (map pa_policy_id bs)" "set bs \<subseteq> A"
    and low: "\<And>a. a \<in> A \<Longrightarrow> \<exists>b \<in> set bs. pa_policy_id b = pa_policy_id a \<and> pa_priority b \<le> pa_priority a"
    using assms(1) by (auto simp: best_inv_def)
  obtain b where b: "b \<in> set bs" "pa_policy_id b = i" using assms(2) by blast
  have one: "b' = b" if "b' \<in> set bs" "pa_policy_id b' = i" for b'
    using d(1) b that by (auto simp: distinct_map inj_on_def)
  have m: "priority_map bs Map.empty i = Some (pa_priority b)"
    using priority_map_distinct [OF d(1) b(1), of Map.empty] b(2) by simp
  have least: "pa_priority b \<le> pa_priority a" if "a \<in> A" "pa_policy_id a = i" for a
    using low [OF that(1)] one that(2) by force
  show ?thesis
    unfolding m using b d(2) least by (auto intro: antisym)
qed

lemma resolve_policy_Some:
  "resolve_policy lib df_map prio r = Some p \<Longrightarrow>
     rp_id p = po_id r \<and> rp_priority p = unwrap_or (prio (po_id r)) 100 \<and> from_str (po_policy_type r) = Inr (rp_policy_type p)"
  by (auto simp: resolve_policy_def split: sum.splits)

lemma resolve_policy_ex: "(\<exists>p. resolve_policy lib df_map prio r = Some p) \<longleftrightarrow> (\<exists>t. from_str (po_policy_type r) = Inr t)"
  by (cases "from_str (po_policy_type r)") (simp_all add: resolve_policy_def)

lemma load_policies_exact:
  assumes "load_policies lib (open_conn d) cat bs = Inr ps"
  shows "(\<lambda>p. (rp_id p, rp_priority p)) ` set ps =
     {(po_id r, unwrap_or (priority_map bs Map.empty (po_id r)) 100) | r. r \<in> set (t_policy d) \<and> po_is_enabled r \<and>
        po_id r \<in> pa_policy_id ` set bs \<and> (\<exists>t. from_str (po_policy_type r) = Inr t)}" (is "_ = ?R")
proof (cases "bs = []")
  case True
  with assms show ?thesis by (simp add: load_policies_def)
next
  case False
  with assms obtain df_map where
    ps: "ps = List.map_filter (resolve_policy lib df_map (priority_map bs Map.empty))
       (filter (\<lambda>p. po_id p \<in> pa_policy_id ` set bs \<and> po_is_enabled p) (t_policy d))"
    by (auto simp: load_policies_def Let_def split: sum.splits if_splits)
  show ?thesis
  proof (intro subset_antisym subsetI)
    fix x
    assume "x \<in> (\<lambda>p. (rp_id p, rp_priority p)) ` set ps"
    then obtain p r where "x = (rp_id p, rp_priority p)" "r \<in> set (t_policy d)" "po_is_enabled r"
      "po_id r \<in> pa_policy_id ` set bs" "resolve_policy lib df_map (priority_map bs Map.empty) r = Some p"
      unfolding ps set_map_filter by auto
    with resolve_policy_Some [OF this(5)] show "x \<in> ?R" by blast
  next
    fix x
    assume "x \<in> ?R"
    then obtain r where r: "x = (po_id r, unwrap_or (priority_map bs Map.empty (po_id r)) 100)"
      "r \<in> set (t_policy d)" "po_is_enabled r" "po_id r \<in> pa_policy_id ` set bs"
      "\<exists>t. from_str (po_policy_type r) = Inr t" by blast
    then obtain p where p: "resolve_policy lib df_map (priority_map bs Map.empty) r = Some p"
      using resolve_policy_ex by blast
    have "p \<in> set ps" unfolding ps set_map_filter using p r(2-4) by auto
    with resolve_policy_Some [OF p] r(1) show "x \<in> (\<lambda>p. (rp_id p, rp_priority p)) ` set ps"
      by (auto intro!: rev_image_eqI)
  qed
qed

lemma load_session_parts:
  assumes "load_session lib db cat u name = Inr s"
  obtains rows ds bs ps where
    "q_data_source db = Inr rows" "find (\<lambda>d. ds_name d = name) rows = Some ds"
    "resolve_effective_assignments db u (ds_id ds) = Inr bs" "load_policies lib db cat bs = Inr ps"
    "load_relationship_snapshot cat (ds_id ds) = Inr (sd_relationship_snapshot s)"
    "sd_datasource_id s = ds_id ds" "sd_datasource_name s = ds_name ds" "sd_access_mode s = ds_access_mode ds"
    "sd_permit_policies s = sort_key rp_priority (filter (\<lambda>p. \<not> is_deny (rp_policy_type p)) ps)"
    "sd_deny_policies s = sort_key rp_priority (filter (\<lambda>p. is_deny (rp_policy_type p)) ps)"
proof -
  from assms show thesis
    unfolding load_session_def Let_def
    by (clarsimp split del: if_split) (rule that; simp)
qed

definition snapshot_wf :: "relationship_snapshot \<Rightarrow> bool" where
  "snapshot_wf snap \<longleftrightarrow>
     list_all (\<lambda>(i, e). re_id e = i) (rs_relationships snap) \<and>
     list_all (\<lambda>(_, shape). case shape of
         Relationship i \<Rightarrow> i \<in> fst ` set (rs_relationships snap) | AliasAnchor _ \<Rightarrow> True) (rs_anchors snap)"

lemma snapshot_edge_id: "snapshot_edge keys r = Some (i, e) \<Longrightarrow> re_id e = i"
  by (auto simp: snapshot_edge_def split: option.splits)

lemma snapshot_anchor_in:
  "snapshot_anchor keys rels a = Some (k, Relationship i) \<Longrightarrow> i \<in> fst ` set rels"
  by (auto simp: snapshot_anchor_def Let_def split: option.splits if_splits)

lemma load_relationship_snapshot_wf:
  assumes "load_relationship_snapshot cat ds = Inr snap"
  shows "snapshot_wf snap"
proof -
  have "snap = empty_snapshot \<or> (\<exists>keys rels anchors cols. snap =
      (let relationships = rev (List.map_filter (snapshot_edge keys) rels) in
       \<lparr> rs_relationships = relationships,
         rs_anchors = rev (List.map_filter (snapshot_anchor keys relationships) anchors),
         rs_columns_by_table = cols \<rparr>))"
    using assms unfolding load_relationship_snapshot_def Let_def
    by (simp split: if_split_asm) blast+
  then obtain keys rels anchors where
    *: "rs_relationships snap = rev (List.map_filter (snapshot_edge keys) rels)"
       "rs_anchors snap = rev (List.map_filter (snapshot_anchor keys (rs_relationships snap)) anchors)"
  proof (elim disjE exE, goal_cases)
    case 1
    show ?case by (rule 1(1) [of Map.empty "[]" "[]"]) (simp_all add: 1(2) empty_snapshot_def List.map_filter_simps)
  next
    case (2 keys rels anchors cols)
    show ?case by (rule 2(1) [of keys rels anchors]) (simp_all add: 2(2) Let_def)
  qed
  show ?thesis
    unfolding snapshot_wf_def list_all_iff
  proof (intro conjI ballI; clarify)
    fix i e
    assume "(i, e) \<in> set (rs_relationships snap)"
    then show "re_id e = i" unfolding *(1) by (auto simp: set_map_filter dest: snapshot_edge_id)
  next
    fix k1 k2 k3 shape
    assume "((k1, k2, k3), shape) \<in> set (rs_anchors snap)"
    then show "case shape of Relationship i \<Rightarrow> i \<in> fst ` set (rs_relationships snap) | AliasAnchor _ \<Rightarrow> True"
      unfolding *(2) by (auto simp: set_map_filter split: anchor_shape.split dest: snapshot_anchor_in)
  qed
qed

lemma load_session_total:
  assumes "u \<in> pu_id ` set (t_proxy_user d)" "name \<in> ds_name ` set (t_data_source d)"
  shows "\<exists>s. load_session lib (open_conn d) (open_catalog c) u name = Inr s"
proof -
  obtain user where user: "find_row pu_id u (t_proxy_user d) = Some user"
    using assms(1) find_row_None [of pu_id u "t_proxy_user d"] by (cases "find_row pu_id u (t_proxy_user d)") auto
  obtain ds where ds: "find (\<lambda>x. ds_name x = name) (t_data_source d) = Some ds"
    using assms(2) by (cases "find (\<lambda>x. ds_name x = name) (t_data_source d)") (auto simp: find_None_iff)
  obtain rs where rs: "resolve_user_roles (open_conn d) u = Inr rs"
    by (rule resolve_user_roles_total)
  obtain bs where bs: "resolve_effective_assignments (open_conn d) u (ds_id ds) = Inr bs"
    by (rule resolve_effective_assignments_total)
  have snap: "\<exists>snap. load_relationship_snapshot (open_catalog c) (ds_id ds) = Inr snap"
    by (simp add: load_relationship_snapshot_def Let_def)
  have pol: "\<exists>ps. load_policies lib (open_conn d) (open_catalog c) bs = Inr ps"
    by (simp add: load_policies_def Let_def)
  from snap pol ds rs bs user show ?thesis
    by (auto simp: load_session_def load_user_attributes_def Let_def)
qed

section \<open>The session cache\<close>

definition CACHE_TTL_SECS :: nat where
  "CACHE_TTL_SECS = 60"

text \<open>Instants are counted in nanoseconds; each entry shares its cache of parent scans with its readers.\<close>

record cache_entry =
  ce_session :: session_data
  ce_parent_scans_cache :: parent_cache
  ce_loaded_at :: nat

type_synonym session_key = "uuid \<times> string"
type_synonym session_cache = "session_key \<rightharpoonup> cache_entry"

definition elapsed_secs :: "nat \<Rightarrow> nat \<Rightarrow> nat" where
  "elapsed_secs since now = (now - since) div 1000000000"

definition live_entry :: "session_cache \<Rightarrow> session_key \<Rightarrow> nat \<Rightarrow> cache_entry option" where
  "live_entry cache key now =
     (case cache key of
        Some s \<Rightarrow> if elapsed_secs (ce_loaded_at s) now < CACHE_TTL_SECS then Some s else None
      | None \<Rightarrow> None)"

text \<open>
  The first look is under the read lock, the second and the load under the write lock; the three
  instants are those of the two looks and of the end of the load.
\<close>

definition get_session ::
  "(string, session_data) result \<Rightarrow> nat \<Rightarrow> nat \<Rightarrow> nat \<Rightarrow> session_key \<Rightarrow> session_cache
    \<Rightarrow> (string, cache_entry) result \<times> session_cache" where
  "get_session loaded t1 t2 t3 key cache =
     (case live_entry cache key t1 of
        Some s \<Rightarrow> (Inr s, cache)
      | None \<Rightarrow>
          (case live_entry cache key t2 of
             Some s \<Rightarrow> (Inr s, cache)
           | None \<Rightarrow>
               (case loaded of
                  Inl e \<Rightarrow> (Inl e, cache)
                | Inr session \<Rightarrow>
                    (let s = \<lparr> ce_session = session, ce_parent_scans_cache = Map.empty, ce_loaded_at = t3 \<rparr>
                     in (Inr s, cache(key \<mapsto> s))))))"

definition hook_invalidate_datasource :: "string \<Rightarrow> session_cache \<Rightarrow> session_cache" where
  "hook_invalidate_datasource datasource_name cache = (\<lambda>k. if snd k \<noteq> datasource_name then cache k else None)"

definition hook_invalidate_user :: "uuid \<Rightarrow> session_cache \<Rightarrow> session_cache" where
  "hook_invalidate_user user_id cache = (\<lambda>k. if fst k \<noteq> user_id then cache k else None)"

section \<open>Histories\<close>

text \<open>
  A history of the hook: time passes, the databases change, sessions are asked for and entries are
  invalidated, in any order.
\<close>

datatype hook_event =
    Elapse nat
  | Write conn catalog_conn
  | Serve session_key
  | InvalidateUserEntry uuid
  | InvalidateSourceEntry string

record hook_world =
  hw_cache :: session_cache
  hw_db :: conn
  hw_catalog :: catalog_conn
  hw_now :: nat

definition load_now :: "session_lib \<Rightarrow> hook_world \<Rightarrow> session_key \<Rightarrow> (string, session_data) result" where
  "load_now lib w key = load_session lib (hw_db w) (hw_catalog w) (fst key) (snd key)"

definition ask :: "session_lib \<Rightarrow> session_key \<Rightarrow> hook_world \<Rightarrow> (string, cache_entry) result \<times> session_cache" where
  "ask lib key w = get_session (load_now lib w key) (hw_now w) (hw_now w) (hw_now w) key (hw_cache w)"

fun hook_step :: "session_lib \<Rightarrow> hook_event \<Rightarrow> hook_world \<Rightarrow> hook_world" where
  "hook_step lib (Elapse n) w = w\<lparr> hw_now := hw_now w + n \<rparr>"
| "hook_step lib (Write db cat) w = w\<lparr> hw_db := db, hw_catalog := cat \<rparr>"
| "hook_step lib (Serve key) w = w\<lparr> hw_cache := snd (ask lib key w) \<rparr>"
| "hook_step lib (InvalidateUserEntry u) w = w\<lparr> hw_cache := hook_invalidate_user u (hw_cache w) \<rparr>"
| "hook_step lib (InvalidateSourceEntry n) w = w\<lparr> hw_cache := hook_invalidate_datasource n (hw_cache w) \<rparr>"

abbreviation history :: "session_lib \<Rightarrow> hook_event list \<Rightarrow> hook_world \<Rightarrow> hook_world" where
  "history lib evs w \<equiv> fold (hook_step lib) evs w"

fun invalidates :: "hook_event \<Rightarrow> session_key \<Rightarrow> bool" where
  "invalidates (InvalidateUserEntry u) k \<longleftrightarrow> fst k = u"
| "invalidates (InvalidateSourceEntry n) k \<longleftrightarrow> snd k = n"
| "invalidates _ k \<longleftrightarrow> False"

text \<open>Where an entry of the cache comes from: a point of the history with no later invalidation.\<close>

definition comes_from :: "session_lib \<Rightarrow> hook_world \<Rightarrow> hook_event list \<Rightarrow> session_key \<Rightarrow> cache_entry \<Rightarrow> bool" where
  "comes_from lib w evs key e \<longleftrightarrow>
     (\<exists>pre post. evs = pre @ post \<and>
        load_now lib (history lib pre w) key = Inr (ce_session e) \<and>
        ce_loaded_at e = hw_now (history lib pre w) \<and>
        list_all (\<lambda>evt. \<not> invalidates evt key) post)"

lemma comes_from_now:
  "load_now lib (history lib evs w) key = Inr (ce_session e) \<Longrightarrow> ce_loaded_at e = hw_now (history lib evs w) \<Longrightarrow>
     comes_from lib w evs key e"
  unfolding comes_from_def by (intro exI [of _ evs] exI [of _ "[]"]) simp

lemma comes_from_later:
  assumes "comes_from lib w evs key e" "\<not> invalidates evt key"
  shows "comes_from lib w (evs @ [evt]) key e"
proof -
  obtain pre post where "evs = pre @ post" "load_now lib (history lib pre w) key = Inr (ce_session e)"
      "ce_loaded_at e = hw_now (history lib pre w)" "list_all (\<lambda>evt. \<not> invalidates evt key) post"
    using assms(1) unfolding comes_from_def by blast
  with assms(2) show ?thesis
    unfolding comes_from_def by (intro exI [of _ pre] exI [of _ "post @ [evt]"]) simp
qed

lemma ask_cases:
  assumes "ask lib key w = (r, cache')"
  obtains (hit) e where "r = Inr e" "cache' = hw_cache w" "hw_cache w key = Some e"
      "elapsed_secs (ce_loaded_at e) (hw_now w) < CACHE_TTL_SECS"
    | (loaded) e where "r = Inr e" "cache' = (hw_cache w)(key \<mapsto> e)" "load_now lib w key = Inr (ce_session e)"
      "ce_loaded_at e = hw_now w"
    | (failed) msg where "r = Inl msg" "cache' = hw_cache w" "load_now lib w key = Inl msg"
proof (cases "live_entry (hw_cache w) key (hw_now w)")
  case (Some e)
  with assms show thesis
    by (intro hit [of e]) (auto simp: ask_def get_session_def live_entry_def split: option.splits if_splits)
next
  case None
  show thesis
  proof (cases "load_now lib w key")
    case (Inl msg)
    with None assms show thesis by (intro failed [of msg]) (simp_all add: ask_def get_session_def)
  next
    case (Inr session)
    let ?e = "\<lparr> ce_session = session, ce_parent_scans_cache = Map.empty, ce_loaded_at = hw_now w \<rparr>"
    from Inr None assms show thesis by (intro loaded [of ?e]) (simp_all add: ask_def get_session_def Let_def)
  qed
qed

lemma cache_entries_come_from:
  assumes "hw_cache w = Map.empty"
  shows "hw_cache (history lib evs w) key = Some e \<Longrightarrow> comes_from lib w evs key e"
proof (induction evs arbitrary: key e rule: rev_induct)
  case Nil
  then show ?case by (simp add: assms)
next
  case (snoc evt evs)
  have kept: "comes_from lib w (evs @ [evt]) key e"
    if "hw_cache (history lib evs w) key = Some e" "\<not> invalidates evt key"
    using comes_from_later [OF snoc.IH [OF that(1)] that(2)] .
  show ?case
  proof (cases evt)
    case (Serve key')
    obtain r cache' where run: "ask lib key' (history lib evs w) = (r, cache')" by fastforce
    then show ?thesis
    proof (cases rule: ask_cases)
      case (loaded e')
      show ?thesis
      proof (cases "key = key'")
        case True
        with loaded snoc.prems Serve run have "e = e'" by simp
        with loaded True show ?thesis
          by (intro comes_from_later comes_from_now) (simp_all add: Serve)
      next
        case False
        with loaded snoc.prems Serve run show ?thesis by (intro kept) simp_all
      qed
    qed (use snoc.prems Serve run in \<open>intro kept; simp\<close>)+
  qed (use snoc.prems in \<open>intro kept; simp add: hook_invalidate_user_def hook_invalidate_datasource_def
      split: if_splits\<close>)+
qed

lemma ask_comes_from:
  assumes "hw_cache w = Map.empty" "ask lib key (history lib evs w) = (Inr e, cache')"
  shows "comes_from lib w evs key e" "elapsed_secs (ce_loaded_at e) (hw_now (history lib evs w)) < CACHE_TTL_SECS"
proof -
  have "comes_from lib w evs key e \<and> elapsed_secs (ce_loaded_at e) (hw_now (history lib evs w)) < CACHE_TTL_SECS"
    using assms(2)
  proof (cases rule: ask_cases)
    case (hit e')
    with cache_entries_come_from [OF assms(1), of lib evs key] show ?thesis by simp
  next
    case (loaded e')
    then show ?thesis
      using comes_from_now [of lib evs w key e] by (simp add: elapsed_secs_def CACHE_TTL_SECS_def)
  qed simp
  then show "comes_from lib w evs key e"
    "elapsed_secs (ce_loaded_at e) (hw_now (history lib evs w)) < CACHE_TTL_SECS" by simp_all
qed

lemma hw_now_mono: "hw_now w \<le> hw_now (history lib evs w)"
proof (induction evs arbitrary: w)
  case (Cons evt evs)
  have "hw_now w \<le> hw_now (hook_step lib evt w)" by (cases evt) simp_all
  also have "\<dots> \<le> hw_now (history lib (evt # evs) w)" using Cons by simp
  finally show ?case .
qed simp

fun is_write :: "hook_event \<Rightarrow> bool" where
  "is_write (Write db cat) \<longleftrightarrow> True"
| "is_write _ \<longleftrightarrow> False"

lemma quiet_databases:
  "list_all (\<lambda>evt. \<not> is_write evt) evs \<Longrightarrow>
     hw_db (history lib evs w) = hw_db w \<and> hw_catalog (history lib evs w) = hw_catalog w"
proof (induction evs arbitrary: w)
  case (Cons evt evs)
  then show ?case by (cases evt) simp_all
qed simp

lemma load_now_after_write:
  "list_all (\<lambda>evt. \<not> is_write evt) mid \<Longrightarrow>
     load_now lib (history lib (evs @ Write db cat # mid) w) key = load_session lib db cat (fst key) (snd key)"
  by (simp add: load_now_def quiet_databases)

text \<open>After a write and either an invalidation or the time to live, the point a session comes from is after the write.\<close>

lemma comes_from_after_write:
  assumes "comes_from lib w (evs @ Write db cat # mid) key e" "list_all (\<lambda>evt. \<not> is_write evt) mid"
    and "list_ex (\<lambda>evt. invalidates evt key) mid \<or>
      elapsed_secs (ce_loaded_at e) (hw_now (history lib (evs @ Write db cat # mid) w)) < CACHE_TTL_SECS \<and>
      CACHE_TTL_SECS \<le> elapsed_secs (hw_now (history lib evs w)) (hw_now (history lib (evs @ Write db cat # mid) w))"
  shows "load_session lib db cat (fst key) (snd key) = Inr (ce_session e)"
proof -
  obtain pre post where p: "evs @ Write db cat # mid = pre @ post" "load_now lib (history lib pre w) key = Inr (ce_session e)"
      "ce_loaded_at e = hw_now (history lib pre w)" "list_all (\<lambda>evt. \<not> invalidates evt key) post"
    using assms(1) unfolding comes_from_def by blast
  consider us where "pre = evs @ Write db cat # us" "mid = us @ post" | us where "evs = pre @ us" "post = us @ Write db cat # mid"
    using p(1) by (auto simp: append_eq_append_conv2 append_eq_Cons_conv Cons_eq_append_conv)
  then show ?thesis
  proof cases
    case 1
    with assms(2) p(2) load_now_after_write [of us lib evs db cat w key] show ?thesis by simp
  next
    case 2
    have "hw_now (history lib pre w) \<le> hw_now (history lib evs w)"
      using hw_now_mono [of "history lib pre w" lib us] 2 by simp
    then have "elapsed_secs (hw_now (history lib evs w)) t \<le> elapsed_secs (ce_loaded_at e) t" for t
      unfolding elapsed_secs_def p(3) by (intro div_le_mono) simp
    with assms(3) have "list_ex (\<lambda>evt. invalidates evt key) mid" by (meson le_trans not_le)
    moreover have "list_all (\<lambda>evt. \<not> invalidates evt key) mid" using p(4) 2(2) by simp
    ultimately show ?thesis by (simp add: list_all_iff list_ex_iff)
  qed
qed

section \<open>Properties\<close>

text \<open>C8. Along any history of requests, database changes, invalidations and passing time, a served session
  equals what loading gave at some point of the history that is less than sixty seconds old, and since that
  point neither the user nor the data source of the session was invalidated.\<close>

theorem served_session_is_recent:
  assumes "hw_cache w = Map.empty" "ask lib key (history lib evs w) = (Inr e, cache')"
  shows "\<exists>pre post. evs = pre @ post \<and>
     load_session lib (hw_db (history lib pre w)) (hw_catalog (history lib pre w)) (fst key) (snd key) = Inr (ce_session e) \<and>
     hw_now (history lib evs w) - hw_now (history lib pre w) < 60 * 10 ^ 9 \<and>
     list_all (\<lambda>evt. \<not> invalidates evt key) post"
proof -
  obtain pre post where p: "evs = pre @ post" "load_now lib (history lib pre w) key = Inr (ce_session e)"
      "ce_loaded_at e = hw_now (history lib pre w)" "list_all (\<lambda>evt. \<not> invalidates evt key) post"
    using ask_comes_from(1) [OF assms] unfolding comes_from_def by blast
  have "hw_now (history lib evs w) - hw_now (history lib pre w) < 60 * 10 ^ 9"
    using ask_comes_from(2) [OF assms] p(3) by (simp add: elapsed_secs_def CACHE_TTL_SECS_def div_less_iff_less_mult)
  with p show ?thesis unfolding load_now_def by blast
qed

text \<open>C9. Once the databases have been written and the user or the data source is invalidated afterwards, or
  sixty seconds have passed since the write, every request for a known user and data source is answered, and
  with the session loaded from the new databases, whatever the cache held before.\<close>

theorem database_change_reaches_sessions:
  assumes "hw_cache w = Map.empty" "list_all (\<lambda>evt. \<not> is_write evt) mid"
    and "fst key \<in> pu_id ` set (t_proxy_user d)" "snd key \<in> ds_name ` set (t_data_source d)"
    and "list_ex (\<lambda>evt. invalidates evt key) mid \<or>
      CACHE_TTL_SECS \<le> elapsed_secs (hw_now (history lib evs w))
        (hw_now (history lib (evs @ Write (open_conn d) (open_catalog c) # mid) w))"
  shows "\<exists>e cache'. ask lib key (history lib (evs @ Write (open_conn d) (open_catalog c) # mid) w) = (Inr e, cache') \<and>
     load_session lib (open_conn d) (open_catalog c) (fst key) (snd key) = Inr (ce_session e)"
proof -
  define now where "now = history lib (evs @ Write (open_conn d) (open_catalog c) # mid) w"
  obtain s where s: "load_session lib (open_conn d) (open_catalog c) (fst key) (snd key) = Inr s"
    using load_session_total [OF assms(3,4)] by blast
  obtain r cache' where run: "ask lib key now = (r, cache')" by fastforce
  then have "\<exists>e cache'. ask lib key now = (Inr e, cache') \<and>
     load_session lib (open_conn d) (open_catalog c) (fst key) (snd key) = Inr (ce_session e)"
  proof (cases rule: ask_cases)
    case (failed msg)
    with s load_now_after_write [OF assms(2), of lib evs "open_conn d" "open_catalog c" w key] show ?thesis
      by (simp add: now_def)
  next
    case (hit e)
    have "load_session lib (open_conn d) (open_catalog c) (fst key) (snd key) = Inr (ce_session e)"
      using hit assms(5) cache_entries_come_from [OF assms(1)] comes_from_after_write [OF _ assms(2)]
      unfolding now_def by blast
    with hit run show ?thesis by blast
  next
    case (loaded e)
    with run load_now_after_write [OF assms(2), of lib evs "open_conn d" "open_catalog c" w key] show ?thesis
      by (auto simp: now_def)
  qed
  then show ?thesis unfolding now_def .
qed

text \<open>C7. A session loaded from the database holds exactly the enabled policies of known type that apply to
  the user on the data source, each with the lowest priority among its applicable assignments; denying and
  permitting policies are kept apart, each in ascending priority.\<close>

theorem session_policies_exact:
  assumes "load_session lib (open_conn d) cat u name = Inr s"
  shows "((i, pr) \<in> (\<lambda>p. (rp_id p, rp_priority p)) ` set (sd_permit_policies s @ sd_deny_policies s) \<longleftrightarrow>
       (\<exists>r \<in> set (t_policy d). po_id r = i \<and> po_is_enabled r \<and> (\<exists>t. from_str (po_policy_type r) = Inr t)) \<and>
       (\<exists>a. applicable d u (sd_datasource_id s) a \<and> pa_policy_id a = i \<and> pa_priority a = pr) \<and>
       (\<forall>a. applicable d u (sd_datasource_id s) a \<longrightarrow> pa_policy_id a = i \<longrightarrow> pr \<le> pa_priority a)) \<and>
     list_all (\<lambda>p. is_deny (rp_policy_type p)) (sd_deny_policies s) \<and>
     list_all (\<lambda>p. \<not> is_deny (rp_policy_type p)) (sd_permit_policies s) \<and>
     sorted (map rp_priority (sd_deny_policies s)) \<and> sorted (map rp_priority (sd_permit_policies s))"
proof -
  from assms obtain ds :: data_source_row and bs ps where *: "resolve_effective_assignments (open_conn d) u (ds_id ds) = Inr bs"
    "load_policies lib (open_conn d) cat bs = Inr ps" "sd_datasource_id s = ds_id ds"
    "sd_permit_policies s = sort_key rp_priority (filter (\<lambda>p. \<not> is_deny (rp_policy_type p)) ps)"
    "sd_deny_policies s = sort_key rp_priority (filter (\<lambda>p. is_deny (rp_policy_type p)) ps)"
    by (rule load_session_parts)
  let ?A = "{a. applicable d u (ds_id ds) a}"
  obtain bs' where "resolve_effective_assignments (open_conn d) u (ds_id ds) = Inr bs'" "best_inv ?A bs'"
    by (rule resolve_effective_assignments_total)
  with *(1) have best: "best_inv ?A bs" by simp
  have ids: "i \<in> pa_policy_id ` set bs \<longleftrightarrow> (\<exists>a. applicable d u (ds_id ds) a \<and> pa_policy_id a = i)"
  proof
    assume "i \<in> pa_policy_id ` set bs"
    then show "\<exists>a. applicable d u (ds_id ds) a \<and> pa_policy_id a = i" using best by (auto simp: best_inv_def)
  next
    assume "\<exists>a. applicable d u (ds_id ds) a \<and> pa_policy_id a = i"
    then show "i \<in> pa_policy_id ` set bs" using best unfolding best_inv_def by (metis imageI mem_Collect_eq)
  qed
  have all: "set (sd_permit_policies s @ sd_deny_policies s) = set ps" unfolding * by auto
  have "(i, pr) \<in> (\<lambda>p. (rp_id p, rp_priority p)) ` set ps \<longleftrightarrow>
      (\<exists>r \<in> set (t_policy d). po_id r = i \<and> po_is_enabled r \<and> (\<exists>t. from_str (po_policy_type r) = Inr t)) \<and>
      i \<in> pa_policy_id ` set bs \<and> unwrap_or (priority_map bs Map.empty i) 100 = pr"
    unfolding load_policies_exact [OF *(2)] by blast
  also have "\<dots> \<longleftrightarrow>
      (\<exists>r \<in> set (t_policy d). po_id r = i \<and> po_is_enabled r \<and> (\<exists>t. from_str (po_policy_type r) = Inr t)) \<and>
      (\<exists>a. applicable d u (ds_id ds) a \<and> pa_policy_id a = i \<and> pa_priority a = pr) \<and>
      (\<forall>a. applicable d u (ds_id ds) a \<longrightarrow> pa_policy_id a = i \<longrightarrow> pr \<le> pa_priority a)"
  proof (cases "i \<in> pa_policy_id ` set bs")
    case True
    obtain pr0 where pr0: "priority_map bs Map.empty i = Some pr0"
      using True priority_map_distinct [of bs _ Map.empty] best by (auto simp: best_inv_def)
    have "unwrap_or (priority_map bs Map.empty i) 100 = pr \<longleftrightarrow> priority_map bs Map.empty i = Some pr"
      by (simp add: pr0)
    with True priority_map_lowest [OF best True, of pr] show ?thesis by simp
  next
    case False
    with ids show ?thesis by blast
  qed
  finally show ?thesis unfolding all *(3) by (simp add: *(4,5) list_all_iff)
qed

text \<open>C35. The relationship snapshot of a loaded session is well-formed: a relationship is stored under its own
  identifier, and every anchor through a relationship finds it, so reading an anchor's edge never fails for an
  anchor of that shape.\<close>

theorem session_snapshot_well_formed:
  assumes "load_session lib db cat u name = Inr s"
  shows "snapshot_wf (sd_relationship_snapshot s) \<and>
     (get_anchor_shape (sd_relationship_snapshot s) k column = Some (Relationship i) \<longrightarrow>
       (\<exists>e. get_anchor_edge (sd_relationship_snapshot s) k column = Some e \<and> re_id e = i))"
proof -
  let ?snap = "sd_relationship_snapshot s"
  have wf: "snapshot_wf ?snap"
    using assms by (rule load_session_parts) (erule load_relationship_snapshot_wf)
  moreover have "\<exists>e. get_anchor_edge ?snap k column = Some e \<and> re_id e = i"
    if shape: "get_anchor_shape ?snap k column = Some (Relationship i)"
  proof -
    have "((fst k, snd k, column), Relationship i) \<in> set (rs_anchors ?snap)"
      using shape unfolding get_anchor_shape_def by (rule map_of_SomeD)
    with wf have "i \<in> fst ` set (rs_relationships ?snap)" unfolding snapshot_wf_def list_all_iff by fastforce
    then obtain e where e: "map_of (rs_relationships ?snap) i = Some e" by (metis map_of_eq_None_iff not_Some_eq)
    with wf have "re_id e = i" unfolding snapshot_wf_def list_all_iff by (fastforce dest: map_of_SomeD)
    with e shape show ?thesis by (simp add: get_anchor_edge_def)
  qed
  ultimately show ?thesis by blast
qed

section \<open>Witnesses\<close>

text \<open>The roles of \<open>sample_db\<close> with its policy 50, its user 100 and its data source 7, and a catalog in which
  orders reach their customers.\<close>

definition session_db :: admin_db where
  "session_db = sample_db\<lparr>
     t_policy := [\<lparr> po_id = 50, po_name = ''hide'', po_description = None, po_policy_type = ''column_deny'',
       po_targets = '''', po_definition = None, po_is_enabled = True, po_version = 1, po_decision_function_id = None,
       po_created_by = 100, po_updated_by = 100, po_created_at = 0, po_updated_at = 0 \<rparr>],
     t_proxy_user := [\<lparr> pu_id = 100, pu_username = ''ann'', pu_password_hash = '''', pu_is_admin = False,
       pu_is_active = True, pu_email = None, pu_display_name = None, pu_last_login_at = None, pu_created_at = 0,
       pu_updated_at = 0, pu_attributes = '''' \<rparr>],
     t_data_source := [\<lparr> ds_id = 7, ds_name = ''crm'', ds_ds_type = ''postgres'', ds_config = '''',
       ds_secure_config = '''', ds_is_active = True, ds_access_mode = ''open'', ds_last_sync_at = None,
       ds_last_sync_result = None, ds_created_at = 0, ds_updated_at = 0 \<rparr>] \<rparr>"

definition session_catalog :: catalog_db where
  "session_catalog =
     \<lparr> t_attribute_definition = [], t_decision_function = [],
       t_discovered_schema = [\<lparr> dsc_id = 1, dsc_data_source_id = 7, dsc_schema_name = ''public'', dsc_schema_alias = None,
         dsc_is_selected = True, dsc_discovered_at = 0 \<rparr>],
       t_discovered_table =
         [\<lparr> dst_id = 2, dst_discovered_schema_id = 1, dst_table_name = ''orders'', dst_table_type = ''table'',
            dst_is_selected = True, dst_discovered_at = 0 \<rparr>,
          \<lparr> dst_id = 3, dst_discovered_schema_id = 1, dst_table_name = ''custs'', dst_table_type = ''table'',
            dst_is_selected = True, dst_discovered_at = 0 \<rparr>],
       t_discovered_column = [],
       t_table_relationship =
         [\<lparr> trl_id = 4, trl_data_source_id = 7, trl_child_table_id = 2, trl_child_column_name = ''cust'',
            trl_parent_table_id = 3, trl_parent_column_name = ''id'', trl_created_at = 0, trl_created_by = None \<rparr>],
       t_column_anchor =
         [\<lparr> can_id = 5, can_data_source_id = 7, can_child_table_id = 2, can_resolved_column_name = ''tenant'',
            can_relationship_id = Some 4, can_actual_column_name = None, can_designated_at = 0,
            can_designated_by = 100 \<rparr>] \<rparr>"

definition plain_session_lib :: session_lib where
  "plain_session_lib =
     \<lparr> sl_targets = (\<lambda>_. Some []), sl_json = (\<lambda>_. None), sl_show_json = (\<lambda>_. ''''), sl_show_uuid = (\<lambda>_. '''') \<rparr>"

abbreviation sample_load :: "(string, session_data) result" where
  "sample_load \<equiv> load_session plain_session_lib (open_conn session_db) (open_catalog session_catalog) 100 ''crm''"

definition sample_hook :: hook_world where
  "sample_hook = \<lparr> hw_cache = Map.empty, hw_db = open_conn session_db, hw_catalog = open_catalog session_catalog, hw_now = 5 \<rparr>"

lemma sample_load_total: "\<exists>s. sample_load = Inr s"
  by (rule load_session_total) (simp_all add: session_db_def sample_db_def)

lemma sample_hook_cache: "hw_cache sample_hook = Map.empty"
  by (simp add: sample_hook_def)

theorem served_session_is_recent_witness:
  "\<exists>e cache'. ask plain_session_lib (100, ''crm'') (history plain_session_lib
       [Serve (100, ''crm''), Elapse (59 * 10 ^ 9), Write (open_conn sample_db) (open_catalog session_catalog)] sample_hook)
       = (Inr e, cache') \<and> ce_loaded_at e = 5 \<and> sample_load = Inr (ce_session e) \<and>
     (\<exists>pre post. [Serve (100, ''crm''), Elapse (59 * 10 ^ 9), Write (open_conn sample_db) (open_catalog session_catalog)]
          = pre @ post \<and>
        load_session plain_session_lib (hw_db (history plain_session_lib pre sample_hook))
          (hw_catalog (history plain_session_lib pre sample_hook)) (fst (100, ''crm'')) (snd (100 :: uuid, ''crm'')) = Inr (ce_session e) \<and>
        hw_now (history plain_session_lib [Serve (100, ''crm''), Elapse (59 * 10 ^ 9),
          Write (open_conn sample_db) (open_catalog session_catalog)] sample_hook)
          - hw_now (history plain_session_lib pre sample_hook) < 60 * 10 ^ 9 \<and>
        list_all (\<lambda>evt. \<not> invalidates evt (100, ''crm'')) post)"
  (is "\<exists>e cache'. ask ?lib ?key (history ?lib ?evs ?w) = _ \<and> _ e \<and> _ \<and> _")
proof -
  obtain s where s: "sample_load = Inr s" using sample_load_total ..
  let ?e = "\<lparr> ce_session = s, ce_parent_scans_cache = Map.empty, ce_loaded_at = 5 \<rparr>"
  have run: "ask ?lib ?key (history ?lib ?evs ?w) = (Inr ?e, [?key \<mapsto> ?e])"
    using s by (simp add: ask_def get_session_def live_entry_def load_now_def sample_hook_def elapsed_secs_def
      CACHE_TTL_SECS_def Let_def)
  show ?thesis
    using run s served_session_is_recent [OF sample_hook_cache run]
    by (intro exI [of _ ?e] exI [of _ "[?key \<mapsto> ?e]"] conjI) simp_all
qed

theorem database_change_reaches_sessions_witness:
  "\<exists>e cache'. ask plain_session_lib (100, ''crm'') (history plain_session_lib
       ([Serve (100, ''crm'')] @ Write (open_conn session_db) (open_catalog session_catalog) #
          [Serve (100, ''crm''), InvalidateUserEntry 100]) (sample_hook\<lparr> hw_db := open_conn sample_db \<rparr>)) = (Inr e, cache') \<and>
     load_session plain_session_lib (open_conn session_db) (open_catalog session_catalog) (fst (100, ''crm''))
       (snd (100 :: uuid, ''crm'')) = Inr (ce_session e)"
  by (rule database_change_reaches_sessions) (simp_all add: sample_hook_def session_db_def)

theorem session_policies_exact_witness:
  "\<exists>s. sample_load = Inr s \<and>
     ((50, 10) \<in> (\<lambda>p. (rp_id p, rp_priority p)) ` set (sd_permit_policies s @ sd_deny_policies s) \<longleftrightarrow>
       (\<exists>r \<in> set (t_policy session_db). po_id r = 50 \<and> po_is_enabled r \<and> (\<exists>t. from_str (po_policy_type r) = Inr t)) \<and>
       (\<exists>a. applicable session_db 100 (sd_datasource_id s) a \<and> pa_policy_id a = 50 \<and> pa_priority a = 10) \<and>
       (\<forall>a. applicable session_db 100 (sd_datasource_id s) a \<longrightarrow> pa_policy_id a = 50 \<longrightarrow> 10 \<le> pa_priority a)) \<and>
     map_sum id (\<lambda>s. map (\<lambda>p. (rp_id p, rp_priority p)) (sd_deny_policies s)) sample_load = Inr [(50, 10)]"
proof -
  obtain s where s: "sample_load = Inr s" using sample_load_total ..
  have "map_sum id (\<lambda>s. map (\<lambda>p. (rp_id p, rp_priority p)) (sd_deny_policies s)) sample_load = Inr [(50, 10)]"
    by code_simp
  with s session_policies_exact [OF s, of 50 10] show ?thesis by blast
qed

theorem session_snapshot_well_formed_witness:
  "\<exists>s. sample_load = Inr s \<and> snapshot_wf (sd_relationship_snapshot s) \<and>
     get_anchor_shape (sd_relationship_snapshot s) (''public'', ''orders'') ''tenant'' = Some (Relationship 4) \<and>
     (\<exists>e. get_anchor_edge (sd_relationship_snapshot s) (''public'', ''orders'') ''tenant'' = Some e \<and> re_id e = 4)"
proof -
  obtain s where s: "sample_load = Inr s" using sample_load_total ..
  have "map_sum id (\<lambda>s. get_anchor_shape (sd_relationship_snapshot s) (''public'', ''orders'') ''tenant'') sample_load
      = Inr (Some (Relationship 4))"
    by code_simp
  with s have "get_anchor_shape (sd_relationship_snapshot s) (''public'', ''orders'') ''tenant'' = Some (Relationship 4)"
    by simp
  with s session_snapshot_well_formed [OF s, of "(''public'', ''orders'')" "''tenant''" 4] show ?thesis by blast
qed

end
