(* ===== verification/PolicyAdmin.thy ===== *)
theory PolicyAdmin
  imports RoleAdmin PolicySession
begin

text \<open>
  The handlers of \<open>admin/policy_handlers.rs\<close> that create, update, delete, assign and unassign policies, with
  the validation of \<open>admin/dto.rs\<close>, the version snapshots they keep, their audit entries and the caches they
  invalidate, over the statements on the policy tables and the constraints the migrations declare.

  Reading and writing JSON text and parsing expressions are parameters. A policy's version is a 32-bit number.
\<close>

section \<open>Validation\<close>

record policy_lib =
  pl_session :: session_lib
  pl_show_targets :: "target_entry list \<Rightarrow> string"
  pl_expr :: expr_lib
  pl_builtins :: registry

definition validate_policy_name :: "string \<Rightarrow> (string, unit) result" where
  "validate_policy_name name =
     (let trimmed = trim name in
      if trimmed = [] \<or> length trimmed > 100 then Inl ''Policy name must be between 1 and 100 characters''
      else if trimmed \<noteq> name then Inl ''Policy name must not have leading or trailing whitespace''
      else if \<not> list_all (\<lambda>c. is_ascii_alphanumeric c \<or> c \<in> set '' _-.:()'' \<or> c = CHR 0x27 \<or> c = CHR 0x22) name
      then Inl ''Policy name contains invalid characters''
      else Inr ())"

definition validate_expression_field :: "policy_lib \<Rightarrow> string \<Rightarrow> string \<Rightarrow> bool \<Rightarrow> json option \<Rightarrow> (string, unit) result" where
  "validate_expression_field lib ptype field is_mask def =
     bind_result (ok_or def (ptype @ '' policy requires a '' @ sq ''definition'' @ '' with '' @ sq field)) (\<lambda>d.
     case json_get d field of
       Some v \<Rightarrow>
         (case json_as_str v of
            Some expr \<Rightarrow> validate_expression (pl_expr lib) (pl_builtins lib) expr is_mask
          | None \<Rightarrow> Inl (ptype @ '': '' @ sq field @ '' must be a string''))
     | None \<Rightarrow> Inl (ptype @ '': missing required field '' @ sq field))"

definition validate_definition :: "policy_lib \<Rightarrow> policy_type \<Rightarrow> json option \<Rightarrow> (string, unit) result" where
  "validate_definition lib policy_type def =
     (case policy_type of
        RowFilter \<Rightarrow> validate_expression_field lib ''row_filter'' ''filter_expression'' False def
      | ColumnMask \<Rightarrow> validate_expression_field lib ''column_mask'' ''mask_expression'' True def
      | _ \<Rightarrow> Inr ())"

definition target_prefix :: "nat \<Rightarrow> string" where
  "target_prefix i = ''targets['' @ show_nat i @ '']: ''"

definition validate_target :: "policy_type \<Rightarrow> nat \<Rightarrow> target_entry \<Rightarrow> (string, unit) result" where
  "validate_target policy_type i entry =
     (if schemas entry = [] then Inl (target_prefix i @ sq ''schemas'' @ '' must not be empty'')
      else if tables entry = [] then Inl (target_prefix i @ sq ''tables'' @ '' must not be empty'')
      else if policy_type \<in> {ColumnMask, ColumnAllow, ColumnDeny} then
        (if columns entry = None \<or> columns entry = Some []
         then Inl (target_prefix i @ sq (as_str policy_type) @ '' requires non-empty '' @ sq ''columns'') else Inr ())
      else
        (if columns entry \<noteq> None
         then Inl (target_prefix i @ sq (as_str policy_type) @ '' must not have '' @ sq ''columns'') else Inr ()))"

fun validate_entries :: "policy_type \<Rightarrow> nat \<Rightarrow> target_entry list \<Rightarrow> (string, unit) result" where
  "validate_entries policy_type i [] = Inr ()"
| "validate_entries policy_type i (e # es) =
     bind_result (validate_target policy_type i e) (\<lambda>_. validate_entries policy_type (Suc i) es)"

definition validate_targets :: "policy_type \<Rightarrow> target_entry list \<Rightarrow> (string, unit) result" where
  "validate_targets policy_type targets =
     (if targets = [] then Inl (sq ''targets'' @ '' must not be empty'') else validate_entries policy_type 0 targets)"

section \<open>Statements\<close>

definition insert_policy :: "policy_row \<Rightarrow> admin_db \<Rightarrow> (db_err, admin_db) result" where
  "insert_policy p d =
     (if has_key po_id (po_id p) (t_policy d) \<or> has_key po_name (po_name p) (t_policy d) then Inl unique_violation
      else Inr (d\<lparr>t_policy := t_policy d @ [p]\<rparr>))"

definition update_policy_row :: "uuid \<Rightarrow> (policy_row \<Rightarrow> policy_row) \<Rightarrow> admin_db \<Rightarrow> (db_err, admin_db) result" where
  "update_policy_row i f d =
     (case find_row po_id i (t_policy d) of
        None \<Rightarrow> Inl record_not_updated
      | Some p \<Rightarrow>
          if list_ex (\<lambda>q. po_id q \<noteq> i \<and> po_name q = po_name (f p)) (t_policy d) then Inl unique_violation
          else Inr (d\<lparr>t_policy := map (\<lambda>p. if po_id p = i then f p else p) (t_policy d)\<rparr>))"

text \<open>Deleting a policy cascades to its versions and its assignments.\<close>

definition delete_policy_row :: "uuid \<Rightarrow> admin_db \<Rightarrow> (db_err, admin_db) result" where
  "delete_policy_row i d =
     Inr (d\<lparr>t_policy := filter (\<lambda>p. po_id p \<noteq> i) (t_policy d),
            t_policy_version := filter (\<lambda>v. pv_policy_id v \<noteq> i) (t_policy_version d),
            t_policy_assignment := filter (\<lambda>a. pa_policy_id a \<noteq> i) (t_policy_assignment d)\<rparr>)"

definition insert_policy_version :: "policy_version_row \<Rightarrow> admin_db \<Rightarrow> (db_err, admin_db) result" where
  "insert_policy_version v d =
     (if has_key pv_id (pv_id v) (t_policy_version d) then Inl unique_violation
      else if \<not> has_key po_id (pv_policy_id v) (t_policy d) then Inl foreign_key_violation
      else Inr (d\<lparr>t_policy_version := t_policy_version d @ [v]\<rparr>))"

text \<open>In the unique index over policy, data source and user, a missing user differs from every other.\<close>

definition insert_policy_assignment :: "policy_assignment_row \<Rightarrow> admin_db \<Rightarrow> (db_err, admin_db) result" where
  "insert_policy_assignment a d =
     (if has_key pa_id (pa_id a) (t_policy_assignment d) \<or>
         (pa_user_id a \<noteq> None \<and>
          has_key (\<lambda>x. (pa_policy_id x, pa_data_source_id x, pa_user_id x)) (pa_policy_id a, pa_data_source_id a, pa_user_id a)
            (t_policy_assignment d))
      then Inl unique_violation
      else if \<not> has_key po_id (pa_policy_id a) (t_policy d) \<or> \<not> has_key ds_id (pa_data_source_id a) (t_data_source d)
      then Inl foreign_key_violation
      else Inr (d\<lparr>t_policy_assignment := t_policy_assignment d @ [a]\<rparr>))"

definition delete_policy_assignment :: "uuid \<Rightarrow> admin_db \<Rightarrow> (db_err, admin_db) result" where
  "delete_policy_assignment i d = Inr (d\<lparr>t_policy_assignment := filter (\<lambda>a. pa_id a \<noteq> i) (t_policy_assignment d)\<rparr>)"

section \<open>Requests and responses\<close>

record CreatePolicyRequest =
  cpr_name :: string
  cpr_policy_type :: policy_type
  cpr_description :: "string option"
  cpr_is_enabled :: bool
  cpr_targets :: "target_entry list"
  cpr_definition :: "json option"
  cpr_decision_function_id :: "uuid option"

record UpdatePolicyRequest =
  upr_name :: "string option"
  upr_policy_type :: "policy_type option"
  upr_description :: "string option"
  upr_is_enabled :: "bool option"
  upr_targets :: "target_entry list option"
  upr_definition :: "json option"
  upr_decision_function_id :: "uuid option option"
  upr_version :: i32

record AssignPolicyRequest =
  apr_policy_id :: uuid
  apr_user_id :: "uuid option"
  apr_role_id :: "uuid option"
  apr_scope :: "string option"
  apr_priority :: i32

record DecisionFunctionSummary =
  dfs_id :: uuid
  dfs_name :: string
  dfs_is_enabled :: bool
  dfs_evaluate_context :: string

record PolicyAssignmentResponse =
  par_id :: uuid
  par_policy_id :: uuid
  par_policy_name :: string
  par_data_source_id :: uuid
  par_datasource_name :: string
  par_user_id :: "uuid option"
  par_username :: "string option"
  par_role_id :: "uuid option"
  par_role_name :: "string option"
  par_assignment_scope :: string
  par_priority :: i32
  par_created_at :: datetime
  par_updated_at :: datetime

record PolicyResponse =
  prs_id :: uuid
  prs_name :: string
  prs_description :: "string option"
  prs_policy_type :: string
  prs_targets :: json
  prs_definition :: "json option"
  prs_is_enabled :: bool
  prs_version :: i32
  prs_decision_function_id :: "uuid option"
  prs_decision_function :: "DecisionFunctionSummary option"
  prs_assignment_count :: nat
  prs_created_by :: uuid
  prs_updated_by :: uuid
  prs_created_at :: datetime
  prs_updated_at :: datetime
  prs_assignments :: "PolicyAssignmentResponse list option"

definition assignment_response ::
  "policy_assignment_row \<Rightarrow> (uuid \<rightharpoonup> string) \<Rightarrow> (uuid \<rightharpoonup> string) \<Rightarrow> (uuid \<rightharpoonup> string) \<Rightarrow> (uuid \<rightharpoonup> string) \<Rightarrow> PolicyAssignmentResponse" where
  "assignment_response m policy_names ds_names user_names role_names =
     \<lparr> par_id = pa_id m, par_policy_id = pa_policy_id m,
       par_policy_name = unwrap_or (policy_names (pa_policy_id m)) [],
       par_data_source_id = pa_data_source_id m,
       par_datasource_name = unwrap_or (ds_names (pa_data_source_id m)) [],
       par_user_id = pa_user_id m, par_username = Option.bind (pa_user_id m) user_names,
       par_role_id = pa_role_id m, par_role_name = Option.bind (pa_role_id m) role_names,
       par_assignment_scope = pa_assignment_scope m, par_priority = pa_priority m,
       par_created_at = pa_created_at m, par_updated_at = pa_updated_at m \<rparr>"

definition df_summary :: "decision_function_row \<Rightarrow> DecisionFunctionSummary" where
  "df_summary df = \<lparr> dfs_id = dfn_id df, dfs_name = dfn_name df, dfs_is_enabled = dfn_is_enabled df,
     dfs_evaluate_context = dfn_evaluate_context df \<rparr>"

definition stored_definition :: "policy_lib \<Rightarrow> policy_row \<Rightarrow> json option" where
  "stored_definition lib p = Option.bind (po_definition p) (sl_json (pl_session lib))"

definition stored_targets :: "policy_lib \<Rightarrow> policy_row \<Rightarrow> target_entry list" where
  "stored_targets lib p = unwrap_or (sl_targets (pl_session lib) (po_targets p)) []"

definition policy_response_basic :: "policy_lib \<Rightarrow> policy_row \<Rightarrow> nat \<Rightarrow> DecisionFunctionSummary option \<Rightarrow> PolicyResponse" where
  "policy_response_basic lib p assignment_count df =
     \<lparr> prs_id = po_id p, prs_name = po_name p, prs_description = po_description p, prs_policy_type = po_policy_type p,
       prs_targets = unwrap_or (sl_json (pl_session lib) (po_targets p)) (JArray []),
       prs_definition = stored_definition lib p, prs_is_enabled = po_is_enabled p, prs_version = po_version p,
       prs_decision_function_id = po_decision_function_id p, prs_decision_function = df,
       prs_assignment_count = assignment_count, prs_created_by = po_created_by p, prs_updated_by = po_updated_by p,
       prs_created_at = po_created_at p, prs_updated_at = po_updated_at p, prs_assignments = None \<rparr>"

section \<open>Lookups\<close>

definition find_policy :: "uuid \<Rightarrow> policy_row adm" where
  "find_policy i =
     bind_adm (query internal (\<lambda>d. find_row po_id i (t_policy d))) (\<lambda>p. from_result (ok_or p (not_found ''Policy not found'')))"

definition find_datasource :: "uuid \<Rightarrow> data_source_row adm" where
  "find_datasource i =
     bind_adm (query internal (\<lambda>d. find_row ds_id i (t_data_source d))) (\<lambda>s.
       from_result (ok_or s (not_found ''Data source not found'')))"

definition policy_assignments :: "uuid \<Rightarrow> admin_db \<Rightarrow> policy_assignment_row list" where
  "policy_assignments i d = filter (\<lambda>a. pa_policy_id a = i) (t_policy_assignment d)"

text \<open>Names for a list of identifiers; nothing is asked for an empty list.\<close>

definition fetch_names :: "(admin_db \<Rightarrow> (uuid \<times> string) list) \<Rightarrow> uuid list \<Rightarrow> (uuid \<rightharpoonup> string) adm" where
  "fetch_names rows ids =
     (if ids = [] then ret Map.empty
      else query internal (\<lambda>d. collect_map (filter (\<lambda>(i, _). i \<in> set ids) (rows d))))"

definition fetch_policy_names :: "uuid list \<Rightarrow> (uuid \<rightharpoonup> string) adm" where
  "fetch_policy_names = fetch_names (\<lambda>d. map (\<lambda>p. (po_id p, po_name p)) (t_policy d))"

definition fetch_ds_names :: "uuid list \<Rightarrow> (uuid \<rightharpoonup> string) adm" where
  "fetch_ds_names = fetch_names (\<lambda>d. map (\<lambda>s. (ds_id s, ds_name s)) (t_data_source d))"

definition fetch_user_names :: "uuid list \<Rightarrow> (uuid \<rightharpoonup> string) adm" where
  "fetch_user_names = fetch_names (\<lambda>d. map (\<lambda>u. (pu_id u, pu_username u)) (t_proxy_user d))"

definition fetch_role_names :: "uuid list \<Rightarrow> (uuid \<rightharpoonup> string) adm" where
  "fetch_role_names = fetch_names (\<lambda>d. map (\<lambda>r. (ro_id r, ro_name r)) (t_role d))"

definition find_decision_function :: "uuid \<Rightarrow> admin_db \<Rightarrow> decision_function_row option" where
  "find_decision_function i d = find_row dfn_id i (t_decision_function (t_catalog d))"

definition require_decision_function :: "uuid \<Rightarrow> decision_function_row adm" where
  "require_decision_function i =
     bind_adm (query internal (find_decision_function i)) (\<lambda>df. from_result (ok_or df
       (ApiErr UNPROCESSABLE_ENTITY ''decision_function_id references a non-existent decision function'')))"

definition attached_summary :: "uuid option \<Rightarrow> DecisionFunctionSummary option adm" where
  "attached_summary fid =
     (case fid of
        None \<Rightarrow> ret None
      | Some i \<Rightarrow> bind_adm (query internal (find_decision_function i)) (\<lambda>df. ret (map_option df_summary df)))"

section \<open>Snapshots and invalidation\<close>

definition next_version :: "i32 \<Rightarrow> i32" where
  "next_version v = (if v = 2 ^ 31 - 1 then - (2 ^ 31) else v + 1)"

definition uuid_json :: "env \<Rightarrow> uuid option \<Rightarrow> json" where
  "uuid_json ae i = opt_json (map_option (e_uuid_str ae) i)"

definition target_json :: "target_entry \<Rightarrow> json" where
  "target_json e = JObject ([(''schemas'', JArray (map JString (schemas e))), (''tables'', JArray (map JString (tables e)))] @
     (case columns e of None \<Rightarrow> [] | Some cs \<Rightarrow> [(''columns'', JArray (map JString cs))]))"

definition snapshot_json :: "policy_lib \<Rightarrow> env \<Rightarrow> policy_row \<Rightarrow> policy_assignment_row list \<Rightarrow> json" where
  "snapshot_json lib ae p as =
     JObject [(''name'', JString (po_name p)), (''policy_type'', JString (po_policy_type p)),
       (''targets'', unwrap_or (sl_json (pl_session lib) (po_targets p)) (JArray [])),
       (''definition'', unwrap_or (stored_definition lib p) JNull),
       (''decision_function_id'', uuid_json ae (po_decision_function_id p)),
       (''assignments'', JArray (map (\<lambda>a. JObject
          [(''id'', JString (e_uuid_str ae (pa_id a))), (''data_source_id'', JString (e_uuid_str ae (pa_data_source_id a))),
           (''user_id'', uuid_json ae (pa_user_id a)), (''role_id'', uuid_json ae (pa_role_id a)),
           (''assignment_scope'', JString (pa_assignment_scope a)), (''priority'', JInt (pa_priority a))]) as))]"

definition create_snapshot ::
  "policy_lib \<Rightarrow> env \<Rightarrow> nat \<Rightarrow> uuid \<Rightarrow> i32 \<Rightarrow> uuid \<Rightarrow> string \<Rightarrow> policy_row \<Rightarrow> policy_assignment_row list \<Rightarrow> txn \<Rightarrow> txn adm" where
  "create_snapshot lib ae k policy_id version changed_by change_type p assignments t =
     exec internal t (insert_policy_version
       \<lparr> pv_id = e_ids ae k, pv_policy_id = policy_id, pv_version = version, pv_snapshot = snapshot_json lib ae p assignments,
         pv_change_type = change_type, pv_changed_by = changed_by, pv_created_at = e_now ae \<rparr>)"

definition invalidate_datasource :: "string \<Rightarrow> unit adm" where
  "invalidate_datasource name = bind_adm (emit (InvalidateDatasource name)) (\<lambda>_. emit (RebuildDatasource name))"

text \<open>A data source that cannot be read, or is gone, is skipped.\<close>

definition invalidate_assigned :: "policy_assignment_row \<Rightarrow> unit adm" where
  "invalidate_assigned a w =
     (case query internal (\<lambda>d. find_row ds_id (pa_data_source_id a) (t_data_source d)) w of
        (Inr (Some ds), w') \<Rightarrow> invalidate_datasource (ds_name ds) w'
      | (_, w') \<Rightarrow> (Inr (), w'))"

section \<open>Handlers\<close>

abbreviation unprocessable :: "string \<Rightarrow> api_err" where
  "unprocessable \<equiv> ApiErr UNPROCESSABLE_ENTITY"

definition validated :: "(string, unit) result \<Rightarrow> unit adm" where
  "validated r = from_result (map_err unprocessable r)"

definition validate_new_name :: "string option \<Rightarrow> unit adm" where
  "validate_new_name name = (case name of None \<Rightarrow> ret () | Some n \<Rightarrow> validated (validate_policy_name n))"

definition given_decision_function :: "uuid option \<Rightarrow> decision_function_row option adm" where
  "given_decision_function fid =
     (case fid of None \<Rightarrow> ret None | Some i \<Rightarrow> bind_adm (require_decision_function i) (\<lambda>df. ret (Some df)))"

definition new_policy :: "policy_lib \<Rightarrow> env \<Rightarrow> uuid \<Rightarrow> CreatePolicyRequest \<Rightarrow> policy_row" where
  "new_policy lib ae actor body =
     \<lparr> po_id = e_ids ae 0, po_name = cpr_name body, po_description = cpr_description body,
       po_policy_type = as_str (cpr_policy_type body), po_targets = pl_show_targets lib (cpr_targets body),
       po_definition = map_option (sl_show_json (pl_session lib)) (cpr_definition body), po_is_enabled = cpr_is_enabled body,
       po_version = 1, po_decision_function_id = cpr_decision_function_id body, po_created_by = actor, po_updated_by = actor,
       po_created_at = e_now ae, po_updated_at = e_now ae \<rparr>"

definition create_policy :: "policy_lib \<Rightarrow> env \<Rightarrow> uuid \<Rightarrow> CreatePolicyRequest \<Rightarrow> (status_code \<times> PolicyResponse) adm" where
  "create_policy lib ae actor body =
     bind_adm (validated (validate_policy_name (cpr_name body))) (\<lambda>_.
     bind_adm (validated (validate_targets (cpr_policy_type body) (cpr_targets body))) (\<lambda>_.
     bind_adm (validated (validate_definition lib (cpr_policy_type body) (cpr_definition body))) (\<lambda>_.
     bind_adm (given_decision_function (cpr_decision_function_id body)) (\<lambda>df.
     let p = new_policy lib ae actor body in
     bind_adm begin_txn (\<lambda>t.
     bind_adm (exec (conflict_or_internal ''Policy name already exists'') t (insert_policy p)) (\<lambda>t.
     bind_adm (create_snapshot lib ae 1 (po_id p) 1 actor ''create'' p [] t) (\<lambda>t.
     let t = audit t ''policy'' (po_id p) Create actor
           (JObject [(''after'', JObject [(''name'', JString (cpr_name body)), (''description'', opt_json (cpr_description body)),
              (''policy_type'', JString (as_str (cpr_policy_type body))), (''targets'', JArray (map target_json (cpr_targets body))),
              (''is_enabled'', JBool (cpr_is_enabled body)),
              (''decision_function_id'', uuid_json ae (cpr_decision_function_id body))])]) in
     bind_adm (commit ae t) (\<lambda>_.
     ret (CREATED, policy_response_basic lib p 0 (map_option df_summary df))))))))))"

definition final_policy_type :: "UpdatePolicyRequest \<Rightarrow> policy_row \<Rightarrow> policy_type" where
  "final_policy_type body p =
     (case upr_policy_type body of
        Some pt \<Rightarrow> pt
      | None \<Rightarrow> (case from_str (po_policy_type p) of Inr pt \<Rightarrow> pt | Inl _ \<Rightarrow> RowFilter))"

definition final_targets :: "policy_lib \<Rightarrow> UpdatePolicyRequest \<Rightarrow> policy_row \<Rightarrow> target_entry list" where
  "final_targets lib body p = (case upr_targets body of Some ts \<Rightarrow> ts | None \<Rightarrow> stored_targets lib p)"

definition final_definition :: "policy_lib \<Rightarrow> UpdatePolicyRequest \<Rightarrow> policy_row \<Rightarrow> json option" where
  "final_definition lib body p = (if upr_definition body \<noteq> None then upr_definition body else stored_definition lib p)"

text \<open>The columns an update sets; the definition is cleared for types that have none.\<close>

definition apply_policy_update :: "policy_lib \<Rightarrow> env \<Rightarrow> uuid \<Rightarrow> UpdatePolicyRequest \<Rightarrow> policy_row \<Rightarrow> policy_row \<Rightarrow> policy_row" where
  "apply_policy_update lib ae actor body p x =
     (let x = (case upr_name body of None \<Rightarrow> x | Some n \<Rightarrow> x\<lparr>po_name := n\<rparr>);
          x = (case upr_policy_type body of None \<Rightarrow> x | Some pt \<Rightarrow> x\<lparr>po_policy_type := as_str pt\<rparr>);
          x = (case upr_description body of None \<Rightarrow> x | Some s \<Rightarrow> x\<lparr>po_description := Some s\<rparr>);
          x = (case upr_is_enabled body of None \<Rightarrow> x | Some b \<Rightarrow> x\<lparr>po_is_enabled := b\<rparr>);
          x = (case upr_targets body of None \<Rightarrow> x | Some ts \<Rightarrow> x\<lparr>po_targets := pl_show_targets lib ts\<rparr>);
          x = (if final_policy_type body p \<in> {RowFilter, ColumnMask}
               then (case upr_definition body of None \<Rightarrow> x | Some j \<Rightarrow> x\<lparr>po_definition := Some (sl_show_json (pl_session lib) j)\<rparr>)
               else x\<lparr>po_definition := None\<rparr>);
          x = (case upr_decision_function_id body of None \<Rightarrow> x | Some i \<Rightarrow> x\<lparr>po_decision_function_id := i\<rparr>) in
      x\<lparr>po_version := next_version (po_version p), po_updated_by := actor, po_updated_at := e_now ae\<rparr>)"

definition policy_update_changes :: "env \<Rightarrow> UpdatePolicyRequest \<Rightarrow> policy_row \<Rightarrow> json" where
  "policy_update_changes ae body p =
     (let name = (case upr_name body of None \<Rightarrow> [] | Some n \<Rightarrow> [(''name'', JString (po_name p), JString n)]);
          type = (case upr_policy_type body of
                    None \<Rightarrow> [] | Some pt \<Rightarrow> [(''policy_type'', JString (po_policy_type p), JString (as_str pt))]);
          desc = (case upr_description body of
                    None \<Rightarrow> [] | Some s \<Rightarrow> [(''description'', opt_json (po_description p), JString s)]);
          enabled = (case upr_is_enabled body of
                       None \<Rightarrow> [] | Some b \<Rightarrow> [(''is_enabled'', JBool (po_is_enabled p), JBool b)]);
          targets = (case upr_targets body of
                       None \<Rightarrow> [] | Some ts \<Rightarrow> [(''targets'', JString (po_targets p), JArray (map target_json ts))]);
          defs = (if final_policy_type body p \<in> {RowFilter, ColumnMask} \<and> upr_definition body \<noteq> None
                  then [(''definition_changed'', JBool True)] else []);
          fid = (case upr_decision_function_id body of
                   None \<Rightarrow> []
                 | Some i \<Rightarrow> [(''decision_function_id'', uuid_json ae (po_decision_function_id p), uuid_json ae i)]);
          changes = name @ type @ desc @ enabled @ targets;
          version = (''version'', JInt (po_version p), JInt (next_version (po_version p)));
          before = (\<lambda>(k, b, a). (k, b));
          after = (\<lambda>(k, b, a). (k, a)) in
      JObject [(''before'', JObject (map before (changes @ fid @ [version]))),
               (''after'', JObject (map after changes @ defs @ map after (fid @ [version])))])"

definition named_response :: "policy_lib \<Rightarrow> policy_row \<Rightarrow> policy_assignment_row list \<Rightarrow> PolicyResponse adm" where
  "named_response lib p assignments =
     bind_adm (fetch_ds_names (map pa_data_source_id assignments)) (\<lambda>ds_names.
     bind_adm (fetch_user_names (List.map_filter pa_user_id assignments)) (\<lambda>user_names.
     bind_adm (fetch_role_names (List.map_filter pa_role_id assignments)) (\<lambda>role_names.
     bind_adm (attached_summary (po_decision_function_id p)) (\<lambda>df.
       ret ((policy_response_basic lib p (length assignments) df)\<lparr> prs_assignments := Some
         (map (\<lambda>a. assignment_response a [po_id p \<mapsto> po_name p] ds_names user_names role_names) assignments) \<rparr>)))))"

definition update_policy :: "policy_lib \<Rightarrow> env \<Rightarrow> uuid \<Rightarrow> uuid \<Rightarrow> UpdatePolicyRequest \<Rightarrow> PolicyResponse adm" where
  "update_policy lib ae actor i body =
     bind_adm (find_policy i) (\<lambda>p.
     bind_adm (validate_new_name (upr_name body)) (\<lambda>_.
     if po_version p \<noteq> upr_version body then
       fail (conflict (''Policy version conflict: expected '' @ show_int (po_version p) @ '', got '' @ show_int (upr_version body)))
     else
     bind_adm (validated (validate_targets (final_policy_type body p) (final_targets lib body p))) (\<lambda>_.
     bind_adm (validated (validate_definition lib (final_policy_type body p) (final_definition lib body p))) (\<lambda>_.
     bind_adm (given_decision_function (unwrap_or (upr_decision_function_id body) None)) (\<lambda>_.
     let new_version = next_version (po_version p);
         updated = apply_policy_update lib ae actor body p p in
     bind_adm begin_txn (\<lambda>t.
     bind_adm (exec (conflict_or_internal ''Policy name already exists'') t
         (update_policy_row i (apply_policy_update lib ae actor body p))) (\<lambda>t.
     bind_adm (tx_query internal t (policy_assignments i)) (\<lambda>assignments.
     bind_adm (create_snapshot lib ae 0 i new_version actor ''update'' updated assignments t) (\<lambda>t.
     let t = audit t ''policy'' i Update actor (policy_update_changes ae body p) in
     bind_adm (commit ae t) (\<lambda>_.
     bind_adm (for_each invalidate_assigned assignments) (\<lambda>_.
     named_response lib updated assignments)))))))))))"

definition delete_policy :: "policy_lib \<Rightarrow> env \<Rightarrow> uuid \<Rightarrow> uuid \<Rightarrow> status_code adm" where
  "delete_policy lib ae actor i =
     bind_adm (find_policy i) (\<lambda>p.
     bind_adm (query internal (policy_assignments i)) (\<lambda>assignments.
     bind_adm begin_txn (\<lambda>t.
     bind_adm (create_snapshot lib ae 0 i (next_version (po_version p)) actor ''delete'' p assignments t) (\<lambda>t.
     let t = audit t ''policy'' i Delete actor
           (JObject [(''before'', JObject [(''name'', JString (po_name p)), (''description'', opt_json (po_description p)),
              (''policy_type'', JString (po_policy_type p)), (''is_enabled'', JBool (po_is_enabled p)),
              (''version'', JInt (po_version p)), (''decision_function_id'', uuid_json ae (po_decision_function_id p))])]) in
     bind_adm (exec internal t (delete_policy_row i)) (\<lambda>t.
     bind_adm (commit ae t) (\<lambda>_.
     bind_adm (for_each invalidate_assigned assignments) (\<lambda>_.
     ret NO_CONTENT)))))))"

definition inferred_scope :: "AssignPolicyRequest \<Rightarrow> string" where
  "inferred_scope body =
     (case apr_scope body of
        Some s \<Rightarrow> s
      | None \<Rightarrow> if apr_role_id body \<noteq> None then ''role'' else if apr_user_id body \<noteq> None then ''user'' else ''all'')"

abbreviation bad_request :: "string \<Rightarrow> 'a adm" where
  "bad_request msg \<equiv> fail (ApiErr BAD_REQUEST msg)"

definition check_scope :: "string \<Rightarrow> AssignPolicyRequest \<Rightarrow> unit adm" where
  "check_scope scope body =
     (if scope = ''user'' then
        (if apr_user_id body = None then bad_request (''scope '' @ sq ''user'' @ '' requires user_id'')
         else if apr_role_id body \<noteq> None then bad_request (''scope '' @ sq ''user'' @ '' must not have role_id'')
         else ret ())
      else if scope = ''role'' then
        (case apr_role_id body of
           None \<Rightarrow> bad_request (''scope '' @ sq ''role'' @ '' requires role_id'')
         | Some r \<Rightarrow>
             if apr_user_id body \<noteq> None then bad_request (''scope '' @ sq ''role'' @ '' must not have user_id'')
             else bind_adm (find_role r ''Role not found'') (\<lambda>_. ret ()))
      else if scope = ''all'' then
        (if apr_user_id body \<noteq> None \<or> apr_role_id body \<noteq> None
         then bad_request (''scope '' @ sq ''all'' @ '' must not have user_id or role_id'') else ret ())
      else bad_request (''scope must be '' @ sq ''user'' @ '', '' @ sq ''role'' @ '', or '' @ sq ''all''))"

definition touch_policy :: "env \<Rightarrow> uuid \<Rightarrow> i32 \<Rightarrow> policy_row \<Rightarrow> policy_row" where
  "touch_policy ae actor version x = x\<lparr>po_version := version, po_updated_by := actor, po_updated_at := e_now ae\<rparr>"

definition new_assignment :: "env \<Rightarrow> uuid \<Rightarrow> string \<Rightarrow> AssignPolicyRequest \<Rightarrow> policy_assignment_row" where
  "new_assignment ae i scope body =
     \<lparr> pa_id = e_ids ae 0, pa_policy_id = apr_policy_id body, pa_data_source_id = i, pa_user_id = apr_user_id body,
       pa_role_id = apr_role_id body, pa_assignment_scope = scope, pa_priority = apr_priority body,
       pa_created_at = e_now ae, pa_updated_at = e_now ae \<rparr>"

definition assign_changes :: "env \<Rightarrow> policy_assignment_row \<Rightarrow> (string \<times> json) list" where
  "assign_changes ae a =
     [(''assignment_id'', JString (e_uuid_str ae (pa_id a))), (''datasource_id'', JString (e_uuid_str ae (pa_data_source_id a))),
      (''scope'', JString (pa_assignment_scope a)), (''user_id'', uuid_json ae (pa_user_id a)),
      (''role_id'', uuid_json ae (pa_role_id a))]"

definition refuse_duplicate :: "uuid \<Rightarrow> string \<Rightarrow> AssignPolicyRequest \<Rightarrow> unit adm" where
  "refuse_duplicate i scope body =
     (if scope = ''all'' then
        bind_adm (query internal (\<lambda>d. list_ex (\<lambda>a. pa_policy_id a = apr_policy_id body \<and> pa_data_source_id a = i \<and>
            pa_assignment_scope a = ''all'') (t_policy_assignment d))) (\<lambda>existing.
        if existing then fail (conflict ''This policy is already assigned to this datasource for all users'') else ret ())
      else ret ())"

definition invalidate_assigned_role :: "string \<Rightarrow> AssignPolicyRequest \<Rightarrow> unit adm" where
  "invalidate_assigned_role scope body =
     (if scope = ''role'' then (case apr_role_id body of None \<Rightarrow> ret () | Some r \<Rightarrow> invalidate_role_members r) else ret ())"

definition assign_policy ::
  "policy_lib \<Rightarrow> env \<Rightarrow> uuid \<Rightarrow> uuid \<Rightarrow> AssignPolicyRequest \<Rightarrow> (status_code \<times> PolicyAssignmentResponse) adm" where
  "assign_policy lib ae actor i body =
     bind_adm (find_datasource i) (\<lambda>ds.
     bind_adm (find_policy (apr_policy_id body)) (\<lambda>p.
     let scope = inferred_scope body in
     bind_adm (check_scope scope body) (\<lambda>_.
     bind_adm (refuse_duplicate i scope body) (\<lambda>_.
     let assignment = new_assignment ae i scope body;
         new_version = next_version (po_version p) in
     bind_adm begin_txn (\<lambda>t.
     bind_adm (exec (conflict_or_internal ''This policy assignment already exists'') t (insert_policy_assignment assignment)) (\<lambda>t.
     bind_adm (exec internal t (update_policy_row (po_id p) (touch_policy ae actor new_version))) (\<lambda>t.
     bind_adm (tx_query internal t (policy_assignments (po_id p))) (\<lambda>assignments.
     bind_adm (create_snapshot lib ae 1 (po_id p) new_version actor ''assignment_change'' (touch_policy ae actor new_version p)
         assignments t) (\<lambda>t.
     let t = audit t ''policy'' (po_id p) Assign actor
           (JObject (assign_changes ae assignment @ [(''priority'', JInt (apr_priority body))])) in
     bind_adm (commit ae t) (\<lambda>_.
     bind_adm (invalidate_datasource (ds_name ds)) (\<lambda>_.
     bind_adm (invalidate_assigned_role scope body) (\<lambda>_.
     bind_adm (fetch_user_names (case apr_user_id body of None \<Rightarrow> [] | Some u \<Rightarrow> [u])) (\<lambda>user_names.
     bind_adm (fetch_role_names (case apr_role_id body of None \<Rightarrow> [] | Some r \<Rightarrow> [r])) (\<lambda>role_names.
     ret (CREATED, assignment_response assignment [po_id p \<mapsto> po_name p] [i \<mapsto> ds_name ds] user_names role_names)))))))))))))))"

text \<open>The data source named in the path only selects what is invalidated.\<close>

definition remove_assignment :: "policy_lib \<Rightarrow> env \<Rightarrow> uuid \<Rightarrow> uuid \<Rightarrow> uuid \<Rightarrow> status_code adm" where
  "remove_assignment lib ae actor i assignment_id =
     bind_adm (find_datasource i) (\<lambda>ds.
     bind_adm (query internal (\<lambda>d. find_row pa_id assignment_id (t_policy_assignment d))) (\<lambda>ao.
     bind_adm (from_result (ok_or ao (not_found ''Assignment not found''))) (\<lambda>assignment.
     bind_adm (find_policy (pa_policy_id assignment)) (\<lambda>p.
     let new_version = next_version (po_version p) in
     bind_adm begin_txn (\<lambda>t.
     bind_adm (exec internal t (delete_policy_assignment (pa_id assignment))) (\<lambda>t.
     bind_adm (exec internal t (update_policy_row (po_id p) (touch_policy ae actor new_version))) (\<lambda>t.
     bind_adm (tx_query internal t (policy_assignments (po_id p))) (\<lambda>remaining.
     bind_adm (create_snapshot lib ae 0 (po_id p) new_version actor ''assignment_change'' (touch_policy ae actor new_version p)
         remaining t) (\<lambda>t.
     let t = audit t ''policy'' (po_id p) Unassign actor (JObject (assign_changes ae assignment)) in
     bind_adm (commit ae t) (\<lambda>_.
     bind_adm (invalidate_datasource (ds_name ds)) (\<lambda>_.
     ret NO_CONTENT)))))))))))"

section \<open>Reading\<close>

definition get_policy :: "policy_lib \<Rightarrow> uuid \<Rightarrow> PolicyResponse adm" where
  "get_policy lib i =
     bind_adm (find_policy i) (\<lambda>p.
     bind_adm (query internal (policy_assignments i)) (\<lambda>assignments.
       named_response lib p assignments))"

definition list_datasource_policies :: "uuid \<Rightarrow> PolicyAssignmentResponse list adm" where
  "list_datasource_policies i =
     bind_adm (find_datasource i) (\<lambda>ds.
     bind_adm (query internal (\<lambda>d. sort_key pa_priority (filter (\<lambda>a. pa_data_source_id a = i) (t_policy_assignment d)))) (\<lambda>assignments.
     bind_adm (fetch_policy_names (map pa_policy_id assignments)) (\<lambda>policy_names.
     bind_adm (fetch_user_names (List.map_filter pa_user_id assignments)) (\<lambda>user_names.
     bind_adm (fetch_role_names (List.map_filter pa_role_id assignments)) (\<lambda>role_names.
       ret (map (\<lambda>a. assignment_response a policy_names [i \<mapsto> ds_name ds] user_names role_names) assignments))))))"

definition get_effective_policies :: "uuid \<Rightarrow> uuid \<Rightarrow> EffectivePolicyEntry list adm" where
  "get_effective_policies user_id i =
     bind_adm (query internal (\<lambda>d. find_row pu_id user_id (t_proxy_user d))) (\<lambda>u.
     bind_adm (from_result (ok_or u (not_found ''User not found''))) (\<lambda>_.
     bind_adm (find_datasource i) (\<lambda>ds.
       (\<lambda>w. call internal (\<lambda>c. resolve_effective_policies c user_id i (ds_name ds)) (w_db w) w))))"

section \<open>What a request may change\<close>

text \<open>What validation establishes for a stored policy.\<close>

definition valid_policy :: "policy_lib \<Rightarrow> policy_row \<Rightarrow> bool" where
  "valid_policy lib p \<longleftrightarrow> validate_policy_name (po_name p) = Inr () \<and>
     (\<exists>pt. from_str (po_policy_type p) = Inr pt \<and> validate_targets pt (stored_targets lib p) = Inr () \<and>
        validate_definition lib pt (stored_definition lib p) = Inr ())"

text \<open>The text written for the values of a request is read back as these values.\<close>

definition reads_back :: "policy_lib \<Rightarrow> target_entry list option \<Rightarrow> json option \<Rightarrow> bool" where
  "reads_back lib ts def \<longleftrightarrow>
     (\<forall>x. ts = Some x \<longrightarrow> sl_targets (pl_session lib) (pl_show_targets lib x) = Some x) \<and>
     (\<forall>j. def = Some j \<longrightarrow> sl_json (pl_session lib) (sl_show_json (pl_session lib) j) = Some j)"

definition snapshot_of :: "string \<Rightarrow> uuid \<Rightarrow> i32 \<Rightarrow> policy_version_row \<Rightarrow> bool" where
  "snapshot_of change_type i version v \<longleftrightarrow> pv_change_type v = change_type \<and> pv_policy_id v = i \<and> pv_version v = version"

inductive policy_change :: "policy_lib \<Rightarrow> admin_db \<Rightarrow> admin_db \<Rightarrow> bool" for lib where
  pc_create: "valid_policy lib p \<Longrightarrow> insert_policy p d = Inr d1 \<Longrightarrow> snapshot_of ''create'' (po_id p) (po_version p) v \<Longrightarrow>
    insert_policy_version v d1 = Inr d' \<Longrightarrow> policy_change lib d d'"
| pc_update: "find_row po_id i (t_policy d) = Some p \<Longrightarrow> (valid_policy lib p \<Longrightarrow> valid_policy lib (f p)) \<Longrightarrow>
    po_id (f p) = i \<Longrightarrow> po_version (f p) = next_version (po_version p) \<Longrightarrow> update_policy_row i f d = Inr d1 \<Longrightarrow>
    snapshot_of ''update'' i (po_version (f p)) v \<Longrightarrow> insert_policy_version v d1 = Inr d' \<Longrightarrow> policy_change lib d d'"
| pc_assign: "insert_policy_assignment a d = Inr d0 \<Longrightarrow> find_row po_id (pa_policy_id a) (t_policy d) = Some p \<Longrightarrow>
    update_policy_row (po_id p) (touch_policy ae actor (next_version (po_version p))) d0 = Inr d1 \<Longrightarrow>
    snapshot_of ''assignment_change'' (po_id p) (next_version (po_version p)) v \<Longrightarrow> insert_policy_version v d1 = Inr d' \<Longrightarrow>
    policy_change lib d d'"
| pc_unassign: "find_row pa_id i (t_policy_assignment d) = Some a \<Longrightarrow> delete_policy_assignment i d = Inr d0 \<Longrightarrow>
    find_row po_id (pa_policy_id a) (t_policy d) = Some p \<Longrightarrow>
    update_policy_row (po_id p) (touch_policy ae actor (next_version (po_version p))) d0 = Inr d1 \<Longrightarrow>
    snapshot_of ''assignment_change'' (po_id p) (next_version (po_version p)) v \<Longrightarrow> insert_policy_version v d1 = Inr d' \<Longrightarrow>
    policy_change lib d d'"
| pc_delete: "insert_policy_version v d = Inr d1 \<Longrightarrow> snapshot_of ''delete'' i version v \<Longrightarrow> delete_policy_row i d1 = Inr d' \<Longrightarrow>
    policy_change lib d d'"

abbreviation policy_changes :: "policy_lib \<Rightarrow> admin_db \<Rightarrow> admin_db \<Rightarrow> bool" where
  "policy_changes lib \<equiv> (policy_change lib)\<^sup>=\<^sup>="

lemma new_policy_valid:
  assumes "validate_policy_name (cpr_name body) = Inr ()" "validate_targets (cpr_policy_type body) (cpr_targets body) = Inr ()"
    "validate_definition lib (cpr_policy_type body) (cpr_definition body) = Inr ()"
    "reads_back lib (Some (cpr_targets body)) (cpr_definition body)"
  shows "valid_policy lib (new_policy lib ae actor body)"
proof -
  have "stored_definition lib (new_policy lib ae actor body) = cpr_definition body"
    using assms(4) by (cases "cpr_definition body") (simp_all add: stored_definition_def new_policy_def reads_back_def)
  then show ?thesis
    using assms by (simp add: valid_policy_def new_policy_def stored_targets_def reads_back_def)
qed

lemma apply_policy_update_fields:
  fixes lib ae actor body p
  defines "x \<equiv> apply_policy_update lib ae actor body p p"
  shows "po_id x = po_id p" "po_name x = unwrap_or (upr_name body) (po_name p)" "po_version x = next_version (po_version p)"
    "po_policy_type x = (case upr_policy_type body of None \<Rightarrow> po_policy_type p | Some pt \<Rightarrow> as_str pt)"
    "po_targets x = (case upr_targets body of None \<Rightarrow> po_targets p | Some ts \<Rightarrow> pl_show_targets lib ts)"
    "po_definition x = (if final_policy_type body p \<in> {RowFilter, ColumnMask}
       then (case upr_definition body of None \<Rightarrow> po_definition p | Some j \<Rightarrow> Some (sl_show_json (pl_session lib) j)) else None)"
  by (simp_all add: x_def apply_policy_update_def Let_def split: option.split)

lemma updated_policy_valid:
  assumes "\<And>n. upr_name body = Some n \<Longrightarrow> validate_policy_name n = Inr ()"
    "validate_targets (final_policy_type body p) (final_targets lib body p) = Inr ()"
    "validate_definition lib (final_policy_type body p) (final_definition lib body p) = Inr ()"
    "reads_back lib (upr_targets body) (upr_definition body)" "valid_policy lib p"
  shows "valid_policy lib (apply_policy_update lib ae actor body p p)"
proof -
  let ?x = "apply_policy_update lib ae actor body p p"
  have "from_str (po_policy_type ?x) = Inr (final_policy_type body p)"
    using assms(5) by (auto simp: apply_policy_update_fields final_policy_type_def valid_policy_def split: option.split)
  moreover have "stored_targets lib ?x = final_targets lib body p"
    using assms(4) by (auto simp: stored_targets_def apply_policy_update_fields final_targets_def reads_back_def split: option.split)
  moreover have "validate_definition lib (final_policy_type body p) (stored_definition lib ?x) = Inr ()"
  proof (cases "final_policy_type body p \<in> {RowFilter, ColumnMask}")
    case True
    then have "stored_definition lib ?x = final_definition lib body p"
      using assms(4) by (auto simp: stored_definition_def apply_policy_update_fields final_definition_def reads_back_def split: option.split)
    with assms(3) show ?thesis by simp
  next
    case False
    then show ?thesis by (cases "final_policy_type body p") (simp_all add: validate_definition_def)
  qed
  moreover have "validate_policy_name (po_name ?x) = Inr ()"
    using assms(1,5) by (cases "upr_name body") (auto simp: apply_policy_update_fields valid_policy_def)
  ultimately show ?thesis using assms(2) by (simp add: valid_policy_def)
qed

section \<open>The handlers refine the changes\<close>

lemma wp_find_policy [wp_intros]:
  assumes "\<And>p w'. find_row po_id i (t_policy (w_db w)) = Some p \<Longrightarrow> same w w' \<Longrightarrow> Q p w'" "\<And>w'. same w w' \<Longrightarrow> E w'"
  shows "wp (find_policy i) Q E w"
  unfolding find_policy_def by (intro wp_intros) (auto intro: assms)

lemma wp_find_datasource [wp_intros]:
  assumes "\<And>s w'. find_row ds_id i (t_data_source (w_db w)) = Some s \<Longrightarrow> same w w' \<Longrightarrow> Q s w'" "\<And>w'. same w w' \<Longrightarrow> E w'"
  shows "wp (find_datasource i) Q E w"
  unfolding find_datasource_def by (intro wp_intros) (auto intro: assms)

lemma wp_validated [wp_intros]:
  assumes "r = Inr () \<Longrightarrow> Q () w" "E w"
  shows "wp (validated r) Q E w"
  unfolding validated_def using assms by (cases r) (auto simp: wp_def from_result_def)

lemma wp_require_decision_function [wp_intros]:
  assumes "\<And>df w'. same w w' \<Longrightarrow> Q df w'" "\<And>w'. same w w' \<Longrightarrow> E w'"
  shows "wp (require_decision_function i) Q E w"
  unfolding require_decision_function_def by (intro wp_intros) (auto intro: assms)

lemma wp_given_decision_function [wp_intros]:
  assumes "\<And>df w'. same w w' \<Longrightarrow> Q df w'" "\<And>w'. same w w' \<Longrightarrow> E w'"
  shows "wp (given_decision_function i) Q E w"
  unfolding given_decision_function_def by (cases i) (auto intro!: wp_intros assms)

lemma wp_validate_new_name [wp_intros]:
  assumes "(\<And>n. x = Some n \<Longrightarrow> validate_policy_name n = Inr ()) \<Longrightarrow> Q () w" "E w"
  shows "wp (validate_new_name x) Q E w"
  unfolding validate_new_name_def using assms by (cases x) (auto intro!: wp_intros)

lemma wp_fetch_names:
  assumes "\<And>m w'. same w w' \<Longrightarrow> Q m w'" "\<And>w'. same w w' \<Longrightarrow> E w'"
  shows "wp (fetch_names rows ids) Q E w"
  unfolding fetch_names_def by (auto intro!: wp_intros assms)

lemma wp_fetch [wp_intros]:
  assumes "\<And>m w'. same w w' \<Longrightarrow> Q m w'" "\<And>w'. same w w' \<Longrightarrow> E w'"
  shows "wp (fetch_policy_names ids) Q E w" "wp (fetch_ds_names ids) Q E w" "wp (fetch_user_names ids) Q E w"
    "wp (fetch_role_names ids) Q E w"
  unfolding fetch_policy_names_def fetch_ds_names_def fetch_user_names_def fetch_role_names_def
  by (auto intro!: wp_fetch_names assms)

lemma wp_attached_summary [wp_intros]:
  assumes "\<And>df w'. same w w' \<Longrightarrow> Q df w'" "\<And>w'. same w w' \<Longrightarrow> E w'"
  shows "wp (attached_summary i) Q E w"
  unfolding attached_summary_def by (cases i) (auto intro!: wp_intros assms)

lemma wp_named_response [wp_intros]:
  assumes "\<And>x w'. same w w' \<Longrightarrow> Q x w'" "\<And>w'. same w w' \<Longrightarrow> E w'"
  shows "wp (named_response lib p as) Q E w"
  unfolding named_response_def by (intro wp_intros) (auto intro: assms same_trans)

lemma wp_create_snapshot [wp_intros]:
  assumes "\<And>v d w'. insert_policy_version v (tx_db t) = Inr d \<Longrightarrow> snapshot_of change_type i version v \<Longrightarrow>
      same w w' \<Longrightarrow> Q (t\<lparr>tx_db := d\<rparr>) w'" "\<And>w'. same w w' \<Longrightarrow> E w'"
  shows "wp (create_snapshot lib ae k i version actor change_type p as t) Q E w"
  unfolding create_snapshot_def by (intro wp_intros) (auto intro!: assms simp: snapshot_of_def)

lemma wp_invalidate_datasource [wp_intros]:
  "(\<And>w'. quiet w w' \<Longrightarrow> Q () w') \<Longrightarrow> wp (invalidate_datasource n) Q E w"
  unfolding invalidate_datasource_def by (intro wp_intros) simp

lemma wp_invalidate_assigned [wp_intros]:
  assumes "\<And>w'. quiet w w' \<Longrightarrow> Q () w'"
  shows "wp (invalidate_assigned a) Q E w"
proof -
  have "wp (query internal (\<lambda>d. find_row ds_id (pa_data_source_id a) (t_data_source d))) (\<lambda>_. quiet w) (quiet w) w"
    by (intro wp_intros) (auto intro: same_quiet)
  moreover have "wp (invalidate_datasource n) (\<lambda>_. quiet w) (\<lambda>_. False) w'" if "quiet w w'" for n w'
    using that by (intro wp_intros) (rule quiet_trans)
  ultimately show ?thesis using assms
    by (fastforce simp: wp_def invalidate_assigned_def split: sum.splits prod.splits option.splits)
qed

lemma wp_invalidate_all_assigned [wp_intros]:
  assumes "\<And>w'. quiet w w' \<Longrightarrow> Q () w'"
  shows "wp (for_each invalidate_assigned as) Q E w"
  by (rule wp_for_each [where I = "quiet w"]) (auto intro!: wp_intros intro: quiet_trans assms)

lemma wp_check_scope [wp_intros]:
  assumes "\<And>w'. same w w' \<Longrightarrow> Q () w'" "\<And>w'. same w w' \<Longrightarrow> E w'"
  shows "wp (check_scope scope body) Q E w"
proof -
  have "wp (bind_adm (find_role r m) (\<lambda>_. ret ())) Q E w" for r m
    by (intro wp_intros) (auto intro: assms)
  moreover have "wp (fail e) Q E w" for e by (intro wp_fail assms) simp
  moreover have "wp (ret ()) Q E w" by (intro wp_ret assms) simp
  ultimately show ?thesis unfolding check_scope_def by (simp split: option.split)
qed

lemma wp_refuse_duplicate [wp_intros]:
  assumes "\<And>w'. same w w' \<Longrightarrow> Q () w'" "\<And>w'. same w w' \<Longrightarrow> E w'"
  shows "wp (refuse_duplicate i scope body) Q E w"
  unfolding refuse_duplicate_def by (auto intro!: wp_intros assms)

lemma wp_invalidate_assigned_role [wp_intros]:
  assumes "\<And>w'. quiet w w' \<Longrightarrow> Q () w'"
  shows "wp (invalidate_assigned_role scope body) Q E w"
  unfolding invalidate_assigned_role_def by (auto intro!: wp_intros assms)

abbreviation policy_refines :: "policy_lib \<Rightarrow> uuid \<Rightarrow> 'a adm \<Rightarrow> bool" where
  "policy_refines lib actor m \<equiv>
     \<forall>w. wp m (\<lambda>_. step_ok (policy_changes lib) actor w) (step_ok (policy_changes lib) actor w) w"

lemma policy_quiet: "w_db w' = w_db w \<Longrightarrow> w_audit w' = w_audit w \<Longrightarrow> step_ok (policy_changes lib) actor w w'"
  by (auto simp: step_ok_def audited_def)

lemma policy_changed:
  assumes "w_audit w' = w_audit w @ map (audit_log ae) (tx_entries t)" "policy_change lib (w_db w) d'" "w_db w' = d'"
    "by_actor actor t" "tx_entries t \<noteq> []"
  shows "step_ok (policy_changes lib) actor w w'"
  using assms by (auto simp: step_ok_def audited_def by_actor_def audit_log_def)

lemma pc_new_policy:
  assumes "insert_policy (new_policy lib ae actor body) d = Inr d1" "insert_policy_version v d1 = Inr d'"
    "snapshot_of ''create'' (po_id (new_policy lib ae actor body)) 1 v" "valid_policy lib (new_policy lib ae actor body)"
  shows "policy_change lib d d'"
  using assms by (intro pc_create [of lib "new_policy lib ae actor body" d d1 v]) (auto simp: new_policy_def)

lemma create_policy_ok:
  assumes "reads_back lib (Some (cpr_targets body)) (cpr_definition body)"
  shows "policy_refines lib actor (create_policy lib ae actor body)"
  unfolding create_policy_def Let_def
  by (intro allI wp_intros, auto simp: same_def intro: policy_quiet)
    (erule policy_changed, erule pc_new_policy, auto intro!: new_policy_valid [OF _ _ _ assms])+

lemma delete_policy_ok: "policy_refines lib actor (delete_policy lib ae actor i)"
  unfolding delete_policy_def Let_def
  by (intro allI wp_intros, auto simp: same_def quiet_def intro: policy_quiet)
    (erule policy_changed, erule pc_delete, auto)+

lemma pc_updated_policy:
  assumes "find_row po_id i (t_policy d) = Some p" "update_policy_row i (apply_policy_update lib ae actor body p) d = Inr d1"
    "insert_policy_version v d1 = Inr d'" "snapshot_of ''update'' i version v" "version = next_version (po_version p)"
    "valid_policy lib p \<Longrightarrow> valid_policy lib (apply_policy_update lib ae actor body p p)"
  shows "policy_change lib d d'"
  using assms
  by (intro pc_update [of i d p lib "apply_policy_update lib ae actor body p" d1 v])
    (auto simp: apply_policy_update_fields dest: find_row_Some)

lemma update_policy_ok:
  assumes "reads_back lib (upr_targets body) (upr_definition body)"
  shows "policy_refines lib actor (update_policy lib ae actor i body)"
  unfolding update_policy_def Let_def
  by (intro allI wp_intros, auto simp: same_def quiet_def intro: policy_quiet)
    (erule policy_changed, erule (3) pc_updated_policy, auto intro!: updated_policy_valid [OF _ _ _ assms])+

lemma pc_assigned:
  assumes "insert_policy_assignment (new_assignment ae i scope body) d = Inr d0"
    "find_row po_id (apr_policy_id body) (t_policy d) = Some p"
    "update_policy_row (po_id p) (touch_policy ae actor (next_version (po_version p))) d0 = Inr d1"
    "insert_policy_version v d1 = Inr d'" "snapshot_of ''assignment_change'' (po_id p) (next_version (po_version p)) v"
  shows "policy_change lib d d'"
  using assms by (intro pc_assign [of "new_assignment ae i scope body"]) (auto simp: new_assignment_def)

lemma assign_policy_ok: "policy_refines lib actor (assign_policy lib ae actor i body)"
  unfolding assign_policy_def Let_def
  by (intro allI wp_intros, simp_all add: same_def quiet_def policy_quiet)
    (elim conjE, erule policy_changed, erule (4) pc_assigned, simp_all)+

lemma pc_unassigned:
  assumes "find_row pa_id i (t_policy_assignment d) = Some a" "delete_policy_assignment (pa_id a) d = Inr d0"
    "find_row po_id (pa_policy_id a) (t_policy d) = Some p"
    "update_policy_row (po_id p) (touch_policy ae actor (next_version (po_version p))) d0 = Inr d1"
    "insert_policy_version v d1 = Inr d'" "snapshot_of ''assignment_change'' (po_id p) (next_version (po_version p)) v"
  shows "policy_change lib d d'"
  using assms find_row_Some [OF assms(1)] by (intro pc_unassign [of i d a]) auto

lemma remove_assignment_ok: "policy_refines lib actor (remove_assignment lib ae actor i a)"
  unfolding remove_assignment_def Let_def
  by (intro allI wp_intros, auto simp: same_def quiet_def intro: policy_quiet)
    (erule policy_changed, erule (5) pc_unassigned, auto)+

end
