(* ===== verification/RoleInvariants.thy ===== *)
theory RoleInvariants
  imports RoleAdmin
begin

text \<open>
  The role administration as a state machine: requests served one after the other, each under any
  pattern of database failures. Invariants of the tables are stated once for the abstract changes of
  \<open>RoleAdmin\<close> (locale \<open>role_invariant\<close>) and hold in every state the machine reaches; the instances are
  the absence of inheritance cycles, the referential integrity of the role tables and the validity of
  role names. The second half shows that a request that changes what a user may see invalidates that
  user's cached session.
\<close>

section \<open>Requests\<close>

datatype role_request =
    CreateRole CreateRoleRequest
  | UpdateRole uuid UpdateRoleRequest
  | DeleteRole uuid
  | AddMembers uuid "uuid list"
  | RemoveMember uuid uuid
  | AddParent uuid uuid
  | RemoveParent uuid uuid
  | SetRoleAccess uuid "uuid list"

fun serve :: "env \<Rightarrow> uuid \<Rightarrow> role_request \<Rightarrow> world \<Rightarrow> world" where
  "serve ev actor (CreateRole body) w = snd (create_role ev actor body w)"
| "serve ev actor (UpdateRole i body) w = snd (update_role ev actor i body w)"
| "serve ev actor (DeleteRole i) w = snd (delete_role ev actor i w)"
| "serve ev actor (AddMembers i us) w = snd (add_members ev actor i us w)"
| "serve ev actor (RemoveMember i u) w = snd (remove_member ev actor i u w)"
| "serve ev actor (AddParent i p) w = snd (add_parent ev actor i p w)"
| "serve ev actor (RemoveParent i p) w = snd (remove_parent ev actor i p w)"
| "serve ev actor (SetRoleAccess i rs) w = snd (set_datasource_role_access ev actor i rs w)"

lemmas handlers_ok =
  create_role_ok update_role_ok delete_role_ok add_members_ok remove_member_ok add_parent_ok
  remove_parent_ok set_datasource_role_access_ok

lemma serve_ok: "step_ok role_changes actor w (serve ev actor req w)"
  by (cases req) (simp_all only: serve.simps, (rule wp_snd, rule handlers_ok [rule_format])+)

text \<open>Between two requests the database may start or stop failing.\<close>

inductive role_step :: "world \<Rightarrow> world \<Rightarrow> bool" where
  step_serve: "role_step w (serve ev actor req w)"
| step_weather: "role_step w (w\<lparr>w_faults := fs\<rparr>)"

abbreviation role_reachable :: "world \<Rightarrow> world \<Rightarrow> bool" where
  "role_reachable \<equiv> role_step\<^sup>*\<^sup>*"

section \<open>Invariants\<close>

locale role_invariant =
  fixes I :: "admin_db \<Rightarrow> bool"
  assumes change: "role_change d d' \<Longrightarrow> I d \<Longrightarrow> I d'"
begin

lemma changes: "role_changes d d' \<Longrightarrow> I d \<Longrightarrow> I d'"
  by (induction rule: rtranclp_induct) (auto intro: change)

lemma served: "I (w_db w) \<Longrightarrow> I (w_db (serve ev actor req w))"
  using serve_ok [of actor w ev req] changes by (auto simp: step_ok_def)

lemma step: "role_step w w' \<Longrightarrow> I (w_db w) \<Longrightarrow> I (w_db w')"
  by (cases rule: role_step.cases) (auto intro: served)

lemma reached: "role_reachable w w' \<Longrightarrow> I (w_db w) \<Longrightarrow> I (w_db w')"
  by (induction rule: rtranclp_induct) (auto intro: step)

end

subsection \<open>No inheritance cycles\<close>

lemma insert_role_inheritance_rel:
  "insert_role_inheritance e d = Inr d' \<Longrightarrow>
   parent_rel d' = insert (ri_child_role_id e, ri_parent_role_id e) (parent_rel d)"
  by (auto simp: insert_role_inheritance_def parent_rel_def edge_rel_def split: if_splits)

lemma role_change_rel:
  assumes "role_change d d'"
  shows "parent_rel d' \<subseteq> parent_rel d \<or>
    (\<exists>c p. parent_rel d' = insert (c, p) (parent_rel d) \<and> (p, c) \<notin> (parent_rel d)\<^sup>*)"
  using assms
proof cases
  case (rc_add_parent e)
  with insert_role_inheritance_rel [OF rc_add_parent(5)] show ?thesis by blast
qed (auto simp: parent_rel_def edge_rel_def insert_role_def update_role_row_def delete_role_row_def
    insert_role_member_def delete_role_member_def delete_role_inheritance_def delete_access_of_def
    insert_data_source_access_def split: if_splits option.splits)

interpretation no_cycles: role_invariant "\<lambda>d. acyclic (parent_rel d)"
proof
  fix d d' assume *: "role_change d d'" "acyclic (parent_rel d)"
  from role_change_rel [OF *(1)] *(2) show "acyclic (parent_rel d')"
    by (auto intro: acyclic_subset)
qed

subsection \<open>Referential integrity\<close>

definition integrity :: "admin_db \<Rightarrow> bool" where
  "integrity d \<longleftrightarrow>
     distinct (map ro_id (t_role d)) \<and> distinct (map ro_name (t_role d)) \<and>
     distinct (map rm_id (t_role_member d)) \<and> distinct (map (\<lambda>m. (rm_role_id m, rm_user_id m)) (t_role_member d)) \<and>
     distinct (map ri_id (t_role_inheritance d)) \<and>
     distinct (map (\<lambda>e. (ri_parent_role_id e, ri_child_role_id e)) (t_role_inheritance d)) \<and>
     (\<forall>m \<in> set (t_role_member d). rm_role_id m \<in> ro_id ` set (t_role d) \<and> rm_user_id m \<in> pu_id ` set (t_proxy_user d)) \<and>
     (\<forall>e \<in> set (t_role_inheritance d).
        ri_parent_role_id e \<in> ro_id ` set (t_role d) \<and> ri_child_role_id e \<in> ro_id ` set (t_role d))"

lemma apply_role_update_id [simp]: "ro_id (apply_role_update ev body r x) = ro_id x"
  by (auto simp: apply_role_update_def Let_def split: option.splits)

lemma map_update_id:
  "(\<And>x. ro_id (f x) = ro_id x) \<Longrightarrow> map ro_id (map (\<lambda>r. if ro_id r = i then f r else r) rs) = map ro_id rs"
  by (induction rs) auto

lemma distinct_update_name:
  assumes "distinct (map ro_id rs)" "distinct (map ro_name rs)" "find_row ro_id i rs = Some r"
    "\<not> list_ex (\<lambda>r'. ro_id r' \<noteq> i \<and> ro_name r' = ro_name (f r)) rs"
  shows "distinct (map ro_name (map (\<lambda>r. if ro_id r = i then f r else r) rs))"
proof -
  have uniq: "x = r" if "x \<in> set rs" "ro_id x = i" for x
    using that assms(1) find_row_Some [OF assms(3)] by (metis distinct_map inj_onD)
  have "inj_on (\<lambda>x. ro_name (if ro_id x = i then f x else x)) (set rs)"
  proof (rule inj_onI)
    fix x y assume xy: "x \<in> set rs" "y \<in> set rs"
      "ro_name (if ro_id x = i then f x else x) = ro_name (if ro_id y = i then f y else y)"
    then show "x = y"
      using uniq assms(2,4) by (auto simp: list_ex_iff distinct_map inj_on_def split: if_splits)
  qed
  moreover have "distinct rs" using assms(1) by (simp add: distinct_map)
  ultimately show ?thesis by (simp add: distinct_map comp_def)
qed

lemma distinct_map_filter: "distinct (map f xs) \<Longrightarrow> distinct (map f (filter P xs))"
  by (auto simp: distinct_map inj_on_def)

lemmas statement_defs =
  insert_role_def update_role_row_def delete_role_row_def insert_role_member_def delete_role_member_def
  insert_role_inheritance_def delete_role_inheritance_def delete_access_of_def insert_data_source_access_def

interpretation tables_ok: role_invariant integrity
proof
  fix d d' assume "role_change d d'" "integrity d"
  then show "integrity d'"
  proof cases
    case (rc_update i r body ev)
    let ?f = "apply_role_update ev body r"
    from rc_update(3) have d': "d' = d\<lparr>t_role := map (\<lambda>r. if ro_id r = i then ?f r else r) (t_role d)\<rparr>"
      and ok: "\<not> list_ex (\<lambda>r'. ro_id r' \<noteq> i \<and> ro_name r' = ro_name (?f r)) (t_role d)"
      using rc_update(1) by (auto simp: update_role_row_def split: if_splits)
    have ids: "map ro_id (t_role d') = map ro_id (t_role d)"
      unfolding d' using map_update_id [of ?f i "t_role d"] by simp
    then have "ro_id ` set (t_role d') = ro_id ` set (t_role d)" by (metis list.set_map)
    moreover have "distinct (map ro_name (t_role d'))"
      using distinct_update_name [OF _ _ rc_update(1), of ?f] ok \<open>integrity d\<close> unfolding d' integrity_def by simp
    moreover have "t_role_member d' = t_role_member d" "t_role_inheritance d' = t_role_inheritance d"
      "t_proxy_user d' = t_proxy_user d"
      by (simp_all add: d')
    ultimately show ?thesis
      using ids \<open>integrity d\<close> unfolding integrity_def by simp
  next
    case (rc_create r)
    then show ?thesis
      using \<open>integrity d\<close> by (auto simp: integrity_def insert_role_def split: if_splits)
  next
    case (rc_delete i)
    then have d': "d' = d\<lparr>t_role := filter (\<lambda>r. ro_id r \<noteq> i) (t_role d),
            t_role_member := filter (\<lambda>m. rm_role_id m \<noteq> i) (t_role_member d),
            t_role_inheritance :=
              filter (\<lambda>e. ri_parent_role_id e \<noteq> i \<and> ri_child_role_id e \<noteq> i) (t_role_inheritance d)\<rparr>"
      by (simp add: delete_role_row_def)
    have "ro_id ` set (t_role d') = ro_id ` set (t_role d) - {i}" by (auto simp: d')
    then show ?thesis
      using \<open>integrity d\<close> unfolding integrity_def by (simp add: d' distinct_map_filter)
  next
    case (rc_add_member m)
    then show ?thesis
      using \<open>integrity d\<close> by (auto simp: integrity_def insert_role_member_def split: if_splits)
  next
    case (rc_remove_member i)
    then show ?thesis
      using \<open>integrity d\<close> by (auto simp: integrity_def delete_role_member_def distinct_map_filter)
  next
    case (rc_add_parent e a b)
    from rc_add_parent(5) show ?thesis
      using \<open>integrity d\<close> by (auto simp: integrity_def insert_role_inheritance_def split: if_splits)
  next
    case (rc_remove_parent i)
    then show ?thesis
      using \<open>integrity d\<close> by (auto simp: integrity_def delete_role_inheritance_def distinct_map_filter)
  next
    case (rc_clear_access i)
    then show ?thesis
      using \<open>integrity d\<close> by (auto simp: integrity_def delete_access_of_def)
  next
    case (rc_add_access a r)
    then show ?thesis
      using \<open>integrity d\<close> by (auto simp: integrity_def insert_data_source_access_def split: if_splits)
  qed
qed

subsection \<open>Valid names\<close>

definition names_valid :: "admin_db \<Rightarrow> bool" where
  "names_valid d \<longleftrightarrow> (\<forall>r \<in> set (t_role d). validate_role_name (ro_name r) = Inr ())"

lemma apply_role_update_name:
  "ro_name (apply_role_update ev body r x) = unwrap_or (urr_name body) (ro_name x)"
  by (auto simp: apply_role_update_def Let_def split: option.splits)

interpretation names_ok: role_invariant names_valid
proof
  fix d d' assume "role_change d d'" "names_valid d"
  then show "names_valid d'"
  proof cases
    case (rc_update i r body ev)
    then show ?thesis
      using \<open>names_valid d\<close>
      by (auto simp: names_valid_def update_role_row_def apply_role_update_name unwrap_or_eq
          split: if_splits option.splits)
  next
    case (rc_create r)
    then show ?thesis
      using \<open>names_valid d\<close> by (auto simp: names_valid_def insert_role_def split: if_splits)
  next
    case (rc_add_parent e a b)
    from rc_add_parent(5) show ?thesis
      using \<open>names_valid d\<close> by (auto simp: names_valid_def insert_role_inheritance_def split: if_splits)
  qed (auto simp: names_valid_def statement_defs split: if_splits)
qed

section \<open>Sessions whose view changes\<close>

text \<open>The roles a user is connected to, whether active or not and at any distance.\<close>

definition reaches :: "admin_db \<Rightarrow> uuid \<Rightarrow> uuid set" where
  "reaches d u = {r. \<exists>s. member_of d u s \<and> (s, r) \<in> (parent_rel d)\<^sup>*}"

lemma reaches_closed: "r \<in> reaches d u \<Longrightarrow> (r, p) \<in> parent_rel d \<Longrightarrow> p \<in> reaches d u"
  by (auto simp: reaches_def intro: rtrancl_into_rtrancl)

lemma member_reaches: "member_of d u r \<Longrightarrow> r \<in> reaches d u"
  by (auto simp: reaches_def)

text \<open>
  Role resolution looks only at what the user reaches: two databases that agree there give the user
  the same effective roles.
\<close>

lemma effective_roles_cong:
  assumes members: "\<And>r. member_of d' u r \<longleftrightarrow> member_of d u r"
    and active: "\<And>r. r \<in> reaches d u \<Longrightarrow> role_active (t_role d') r = role_active (t_role d) r"
    and edges: "\<And>r p. r \<in> reaches d u \<Longrightarrow> (r, p) \<in> parent_rel d' \<longleftrightarrow> (r, p) \<in> parent_rel d"
  shows "effective_roles d' u = effective_roles d u"
proof -
  have path: "((s, r) \<in> active_parent_rel d' ^^ n \<longleftrightarrow> (s, r) \<in> active_parent_rel d ^^ n) \<and>
      ((s, r) \<in> active_parent_rel d ^^ n \<longrightarrow> r \<in> reaches d u)" if s: "member_of d u s" for s r n
  proof (induction n arbitrary: r)
    case 0
    then show ?case using s by (auto intro: member_reaches)
  next
    case (Suc n)
    have step: "(q, r) \<in> active_parent_rel d' \<longleftrightarrow> (q, r) \<in> active_parent_rel d" if q: "q \<in> reaches d u" for q
      using edges [OF q, of r] active [of r] reaches_closed [OF q, of r] by (auto simp: active_parent_rel_def)
    have "(s, r) \<in> active_parent_rel d' ^^ Suc n \<longleftrightarrow> (s, r) \<in> active_parent_rel d ^^ Suc n"
      using Suc.IH step by (auto simp: relcomp_unfold)
    moreover have "(s, r) \<in> active_parent_rel d ^^ Suc n \<longrightarrow> r \<in> reaches d u"
      using Suc.IH active_parent_rel_sub [of d] by (auto intro: reaches_closed)
    ultimately show ?case by blast
  qed
  show ?thesis
    unfolding effective_roles_def using path members active member_reaches by blast
qed

text \<open>What the proxy takes from the role tables for a session: the roles and the data sources.\<close>

definition view :: "admin_db \<Rightarrow> uuid \<Rightarrow> uuid set \<times> uuid set" where
  "view d u = (effective_roles d u, {ds. has_access d u ds})"

lemma view_cong:
  assumes "\<And>r. member_of d' u r \<longleftrightarrow> member_of d u r"
    "\<And>r. r \<in> reaches d u \<Longrightarrow> role_active (t_role d') r = role_active (t_role d) r"
    "\<And>r p. r \<in> reaches d u \<Longrightarrow> (r, p) \<in> parent_rel d' \<longleftrightarrow> (r, p) \<in> parent_rel d"
    "t_data_source_access d' = t_data_source_access d"
  shows "view d' u = view d u"
  using effective_roles_cong [OF assms(1-3)] assms(4) by (simp add: view_def has_access_def)

subsection \<open>The effect of one statement on a view\<close>

lemma role_active_append:
  "role_active (rs @ [r]) i = (if i = ro_id r then ro_is_active r else role_active rs i)"
  by (simp add: role_active_def roles_by_id_def collect_map_def)

lemma role_active_map_of: "role_active rs i = (case map_of (map (\<lambda>r. (ro_id r, r)) (rev rs)) i of None \<Rightarrow> False | Some r \<Rightarrow> ro_is_active r)"
  by (simp add: role_active_def roles_by_id_def collect_map_def rev_map)

lemma map_of_update_other:
  assumes "\<And>x. ro_id (f x) = ro_id x" "j \<noteq> i"
  shows "map_of (map (\<lambda>r. (ro_id r, r)) (map (\<lambda>r. if ro_id r = i then f r else r) rs)) j =
    map_of (map (\<lambda>r. (ro_id r, r)) rs) j"
  using assms by (induction rs) auto

lemma role_active_update_other:
  assumes "\<And>x. ro_id (f x) = ro_id x" "j \<noteq> i"
  shows "role_active (map (\<lambda>r. if ro_id r = i then f r else r) rs) j = role_active rs j"
  unfolding role_active_map_of rev_map using map_of_update_other [OF assms, of "rev rs"] by simp

lemma role_active_update_keep:
  assumes "\<And>x. ro_id (f x) = ro_id x" "\<And>x. x \<in> set rs \<Longrightarrow> ro_id x = i \<Longrightarrow> ro_is_active (f x) = ro_is_active x"
  shows "role_active (map (\<lambda>r. if ro_id r = i then f r else r) rs) j = role_active rs j"
proof -
  have "(case map_of (map (\<lambda>r. (ro_id r, r)) (map (\<lambda>r. if ro_id r = i then f r else r) qs)) j of
        None \<Rightarrow> False | Some r \<Rightarrow> ro_is_active r) =
      (case map_of (map (\<lambda>r. (ro_id r, r)) qs) j of None \<Rightarrow> False | Some r \<Rightarrow> ro_is_active r)"
    if "set qs \<subseteq> set rs" for qs
    using that assms by (induction qs) auto
  from this [of "rev rs"] show ?thesis unfolding role_active_map_of rev_map by simp
qed

lemma role_active_filter: "j \<noteq> i \<Longrightarrow> role_active (filter (\<lambda>r. ro_id r \<noteq> i) rs) j = role_active rs j"
proof -
  assume "j \<noteq> i"
  then have "map_of (map (\<lambda>r. (ro_id r, r)) (filter (\<lambda>r. ro_id r \<noteq> i) qs)) j = map_of (map (\<lambda>r. (ro_id r, r)) qs) j" for qs :: "role_row list"
    by (induction qs) auto
  then show ?thesis unfolding role_active_map_of rev_filter by (simp only:)
qed

lemma reaches_exists:
  assumes "integrity d" "r \<in> reaches d u"
  shows "r \<in> ro_id ` set (t_role d)"
proof -
  obtain s where s: "member_of d u s" "(s, r) \<in> (parent_rel d)\<^sup>*" using assms(2) by (auto simp: reaches_def)
  from s(2,1) show ?thesis
  proof (cases rule: rtranclE)
    case base
    with s(1) assms(1) show ?thesis by (auto simp: member_of_def integrity_def)
  next
    case (step y)
    with assms(1) show ?thesis by (auto simp: parent_rel_def edge_rel_def integrity_def)
  qed
qed

lemma view_insert_role:
  assumes "insert_role r d = Inr d'" "integrity d"
  shows "view d' u = view d u"
proof -
  from assms(1) have d': "d' = d\<lparr>t_role := t_role d @ [r]\<rparr>" and new: "ro_id r \<notin> ro_id ` set (t_role d)"
    by (auto simp: insert_role_def split: if_splits)
  show ?thesis
    using new reaches_exists [OF assms(2)]
    by (intro view_cong) (auto simp: d' member_of_def parent_rel_def role_active_append)
qed

lemma view_update_role:
  assumes "update_role_row i f d = Inr d'" "\<And>x. ro_id (f x) = ro_id x"
    and "i \<notin> reaches d u \<or> (\<forall>x \<in> set (t_role d). ro_id x = i \<longrightarrow> ro_is_active (f x) = ro_is_active x)"
  shows "view d' u = view d u"
proof -
  from assms(1) have d': "d' = d\<lparr>t_role := map (\<lambda>r. if ro_id r = i then f r else r) (t_role d)\<rparr>"
    by (auto simp: update_role_row_def split: if_splits option.splits)
  have "role_active (t_role d') r = role_active (t_role d) r" if "r \<in> reaches d u" for r
    using assms(3)
  proof
    assume "i \<notin> reaches d u"
    with that role_active_update_other [OF assms(2), of r i] show ?thesis by (auto simp: d')
  next
    assume "\<forall>x \<in> set (t_role d). ro_id x = i \<longrightarrow> ro_is_active (f x) = ro_is_active x"
    with role_active_update_keep [OF assms(2), of "t_role d" i r] show ?thesis by (simp add: d')
  qed
  then show ?thesis by (intro view_cong) (auto simp: d' member_of_def parent_rel_def)
qed

lemma view_delete_role:
  assumes "delete_role_row i d = Inr d'" "i \<notin> reaches d u"
  shows "view d' u = view d u"
proof -
  have d': "d' = d\<lparr>t_role := filter (\<lambda>r. ro_id r \<noteq> i) (t_role d),
            t_role_member := filter (\<lambda>m. rm_role_id m \<noteq> i) (t_role_member d),
            t_role_inheritance :=
              filter (\<lambda>e. ri_parent_role_id e \<noteq> i \<and> ri_child_role_id e \<noteq> i) (t_role_inheritance d)\<rparr>"
    using assms(1) by (simp add: delete_role_row_def)
  have rel: "parent_rel d' = {(c, p) \<in> parent_rel d. c \<noteq> i \<and> p \<noteq> i}"
    by (auto simp: d' parent_rel_def edge_rel_def image_iff)
  show ?thesis
  proof (rule view_cong)
    fix r
    show "member_of d' u r \<longleftrightarrow> member_of d u r"
      using assms(2) member_reaches [of d u] by (auto simp: d' member_of_def)
    assume r: "r \<in> reaches d u"
    then show "role_active (t_role d') r = role_active (t_role d) r"
      using assms(2) role_active_filter [of r i] by (cases "r = i") (simp_all add: d')
    show "(r, p) \<in> parent_rel d' \<longleftrightarrow> (r, p) \<in> parent_rel d" for p
      using r assms(2) reaches_closed [OF r, of p] by (auto simp: rel)
  qed (simp add: d')
qed

lemma view_insert_member:
  assumes "insert_role_member m d = Inr d'" "rm_user_id m \<noteq> u"
  shows "view d' u = view d u"
proof -
  from assms(1) have d': "d' = d\<lparr>t_role_member := t_role_member d @ [m]\<rparr>"
    by (auto simp: insert_role_member_def split: if_splits)
  show ?thesis using assms(2) by (intro view_cong) (auto simp: d' member_of_def parent_rel_def)
qed

lemma view_delete_member:
  assumes "delete_role_member i d = Inr d'" "\<And>m. m \<in> set (t_role_member d) \<Longrightarrow> rm_id m = i \<Longrightarrow> rm_user_id m \<noteq> u"
  shows "view d' u = view d u"
proof -
  from assms(1) have d': "d' = d\<lparr>t_role_member := filter (\<lambda>m. rm_id m \<noteq> i) (t_role_member d)\<rparr>"
    by (simp add: delete_role_member_def)
  show ?thesis using assms(2) by (intro view_cong) (auto simp: d' member_of_def parent_rel_def)
qed

lemma view_insert_edge:
  assumes "insert_role_inheritance e d = Inr d'" "ri_child_role_id e \<notin> reaches d u"
  shows "view d' u = view d u"
proof -
  from assms(1) have d': "d' = d\<lparr>t_role_inheritance := t_role_inheritance d @ [e]\<rparr>"
    by (auto simp: insert_role_inheritance_def split: if_splits)
  show ?thesis
    using assms(2) insert_role_inheritance_rel [OF assms(1)]
    by (intro view_cong) (auto simp: d' member_of_def)
qed

lemma view_delete_edge:
  assumes "delete_role_inheritance i d = Inr d'"
    "\<And>e. e \<in> set (t_role_inheritance d) \<Longrightarrow> ri_id e = i \<Longrightarrow> ri_child_role_id e \<notin> reaches d u"
  shows "view d' u = view d u"
proof -
  from assms(1) have d': "d' = d\<lparr>t_role_inheritance := filter (\<lambda>e. ri_id e \<noteq> i) (t_role_inheritance d)\<rparr>"
    by (simp add: delete_role_inheritance_def)
  have "(r, p) \<in> parent_rel d' \<longleftrightarrow> (r, p) \<in> parent_rel d" if "r \<in> reaches d u" for r p
    using assms(2) that by (auto simp: d' parent_rel_def edge_rel_def image_iff)
  then show ?thesis by (intro view_cong) (auto simp: d' member_of_def)
qed

subsection \<open>Requests on a healthy database\<close>

named_theorems wph_intros

lemma next_fault_healthy: "w_faults w = [] \<Longrightarrow> next_fault w = (None, w)"
  by (simp add: next_fault_def)

lemma wph_query [wph_intros]: "w_faults w = [] \<Longrightarrow> Q (q (w_db w)) w \<Longrightarrow> wp (query conv q) Q E w"
  by (simp add: wp_def query_def next_fault_healthy)

lemma wph_tx_query [wph_intros]: "w_faults w = [] \<Longrightarrow> Q (q (tx_db t)) w \<Longrightarrow> wp (tx_query conv t q) Q E w"
  by (simp add: wp_def tx_query_def next_fault_healthy)

lemma wph_call [wph_intros]:
  "w_faults w = [] \<Longrightarrow> (\<And>x. f (open_conn d) = Inr x \<Longrightarrow> Q x w) \<Longrightarrow> E w \<Longrightarrow> wp (call conv f d) Q E w"
  by (cases "f (open_conn d)") (auto simp: wp_def call_def next_fault_healthy)

lemma wph_call_db [wph_intros]:
  "w_faults w = [] \<Longrightarrow> (\<And>x. f (open_conn (w_db w)) = Inr x \<Longrightarrow> Q x w) \<Longrightarrow> E w \<Longrightarrow>
   wp (\<lambda>w. call conv f (w_db w) w) Q E w"
  using wph_call [of w f "w_db w" Q E conv] by (simp add: wp_def)

lemma wph_begin [wph_intros]:
  "w_faults w = [] \<Longrightarrow> Q \<lparr> tx_db = w_db w, tx_entries = [] \<rparr> w \<Longrightarrow> wp begin_txn Q E w"
  by (simp add: wp_def begin_txn_def next_fault_healthy)

lemma wph_exec [wph_intros]:
  "w_faults w = [] \<Longrightarrow> (\<And>d. op (tx_db t) = Inr d \<Longrightarrow> Q (t\<lparr>tx_db := d\<rparr>) w) \<Longrightarrow> E w \<Longrightarrow> wp (exec conv t op) Q E w"
  by (cases "op (tx_db t)") (auto simp: wp_def exec_def next_fault_healthy)

lemma write_entries_healthy: "w_faults w = [] \<Longrightarrow> write_entries ev es w = (Inr (map (audit_log ev) es), w)"
  by (induction ev es w rule: write_entries.induct) (simp_all add: next_fault_healthy)

definition committed :: "env \<Rightarrow> txn \<Rightarrow> world \<Rightarrow> world" where
  "committed ev t w = w\<lparr>w_db := tx_db t, w_audit := w_audit w @ map (audit_log ev) (tx_entries t),
     w_events := w_events w @ [Committed]\<rparr>"

lemma committed_simps [simp]:
  "w_db (committed ev t w) = tx_db t" "w_events (committed ev t w) = w_events w @ [Committed]"
  "w_faults (committed ev t w) = w_faults w"
  by (simp_all add: committed_def)

lemma wph_commit [wph_intros]:
  "w_faults w = [] \<Longrightarrow> Q () (committed ev t w) \<Longrightarrow> E w \<Longrightarrow> wp (commit ev t) Q E w"
  by (simp add: wp_def commit_def fail_def bind_adm_def write_entries_healthy next_fault_healthy committed_def)

definition told :: "uuid list \<Rightarrow> world \<Rightarrow> world" where
  "told us w = w\<lparr>w_events := w_events w @ map InvalidateUser us\<rparr>"

lemma told_simps [simp]:
  "w_db (told us w) = w_db w" "w_events (told us w) = w_events w @ map InvalidateUser us"
  "w_faults (told us w) = w_faults w"
  by (simp_all add: told_def)

lemma invalidate_users_run: "for_each invalidate_user us w = (Inr (), told us w)"
  by (induction us arbitrary: w) (simp_all add: ret_def bind_adm_def invalidate_user_def emit_def told_def)

lemma wph_invalidate_users [wph_intros]: "Q () (told us w) \<Longrightarrow> wp (for_each invalidate_user us) Q E w"
  by (simp add: wp_def invalidate_users_run)

lemma wph_invalidate_user [wph_intros]: "Q () (told [u] w) \<Longrightarrow> wp (invalidate_user u) Q E w"
  by (simp add: wp_def invalidate_user_def emit_def told_def)

lemma wph_members [wph_intros]:
  assumes "w_faults w = []" "\<And>us. set us = {u. i \<in> reaches (w_db w) u} \<Longrightarrow> Q us w"
  shows "wp (members_or_default i) Q E w"
proof -
  obtain us where us: "resolve_all_role_members (open_conn (w_db w)) i = Inr us"
    "set us = {u. i \<in> reaches (w_db w) u}"
    by (rule resolve_all_role_members_total) (auto simp: reaches_def)
  with assms show ?thesis
    by (simp add: wp_def members_or_default_def call_def next_fault_healthy)
qed

lemma wph_invalidate_role_members [wph_intros]:
  assumes "w_faults w = []" "\<And>us. set us = {u. i \<in> reaches (w_db w) u} \<Longrightarrow> Q () (told us w)"
  shows "wp (invalidate_role_members i) Q E w"
  unfolding invalidate_role_members_def using assms by (intro wp_bind wph_intros) auto

lemma wph_find_role [wph_intros]:
  assumes "w_faults w = []" "\<And>r. find_row ro_id i (t_role (w_db w)) = Some r \<Longrightarrow> Q r w" "E w"
  shows "wp (find_role i msg) Q E w"
  unfolding find_role_def using assms by (intro wp_bind wph_intros wp_from_result) auto

lemmas wph_structure = wp_bind wp_ret wp_fail wp_from_result wp_if wp_case_option

subsection \<open>Every changed view is told\<close>

text \<open>
  The events of a request are some before the commit and some after it; a user whose view changed is
  invalidated after the commit, or, unless \<open>late\<close>, possibly only before it.
\<close>

definition tells :: "bool \<Rightarrow> world \<Rightarrow> world \<Rightarrow> bool" where
  "tells late w w' \<longleftrightarrow>
     (\<forall>u. view (w_db w') u \<noteq> view (w_db w) u \<longrightarrow>
        (\<exists>pre post. w_events w' = w_events w @ pre @ Committed # post \<and>
           (InvalidateUser u \<in> set post \<or> \<not> late \<and> InvalidateUser u \<in> set pre)))"

lemma tells_unchanged: "(\<And>u. view (w_db w') u = view (w_db w) u) \<Longrightarrow> tells late w w'"
  by (simp add: tells_def)

lemma tells_refl [simp]: "tells late w w"
  by (simp add: tells_def)

lemma tells_told_eq [simp]: "tells late w (told us w)"
  by (simp add: tells_unchanged)

lemma tells_after:
  assumes "\<And>u. u \<notin> set us \<Longrightarrow> view (tx_db t) u = view (w_db w) u"
  shows "tells late w (told us (committed ev t w))"
  unfolding tells_def
proof (intro allI impI)
  fix u assume "view (w_db (told us (committed ev t w))) u \<noteq> view (w_db w) u"
  then have "u \<in> set us" using assms by auto
  then show "\<exists>pre post. w_events (told us (committed ev t w)) = w_events w @ pre @ Committed # post \<and>
      (InvalidateUser u \<in> set post \<or> \<not> late \<and> InvalidateUser u \<in> set pre)"
    by (intro exI [of _ "[]"] exI [of _ "map InvalidateUser us"]) simp
qed

lemma tells_committed:
  "(\<And>u. view (tx_db t) u = view (w_db w) u) \<Longrightarrow> tells late w (committed ev t w)"
  by (simp add: tells_def)

lemma tells_before:
  assumes "\<And>u. u \<notin> set us \<Longrightarrow> view (tx_db t) u = view (w_db w) u"
  shows "tells False w (committed ev t (told us w))"
  unfolding tells_def
proof (intro allI impI)
  fix u assume "view (w_db (committed ev t (told us w))) u \<noteq> view (w_db w) u"
  then have "u \<in> set us" using assms by auto
  then show "\<exists>pre post. w_events (committed ev t (told us w)) = w_events w @ pre @ Committed # post \<and>
      (InvalidateUser u \<in> set post \<or> \<not> False \<and> InvalidateUser u \<in> set pre)"
    by (intro exI [of _ "map InvalidateUser us"] exI [of _ "[]"]) simp
qed

lemma create_role_tells:
  assumes "w_faults w = []" "integrity (w_db w)"
  shows "wp (create_role ev actor body) (\<lambda>_. tells True w) (tells True w) w"
  unfolding create_role_def Let_def
  using assms by (intro wph_structure wph_intros) (auto intro!: tells_committed view_insert_role)

lemma reaches_cong:
  assumes "\<And>r. member_of d' u r \<longleftrightarrow> member_of d u r" "parent_rel d' = parent_rel d"
  shows "reaches d' u = reaches d u"
  using assms by (simp add: reaches_def)

lemma update_role_reaches: "update_role_row i f d = Inr d' \<Longrightarrow> reaches d' u = reaches d u"
  by (intro reaches_cong) (auto simp: update_role_row_def member_of_def parent_rel_def split: option.splits if_splits)

lemma apply_role_update_active:
  "\<not> (case urr_is_active body of None \<Rightarrow> False | Some b \<Rightarrow> b \<noteq> ro_is_active r) \<Longrightarrow>
   ro_is_active (apply_role_update ev body r x) = ro_is_active x"
  by (auto simp: apply_role_update_def Let_def split: option.splits)

lemma view_updated:
  assumes "update_role_row i (apply_role_update ev body r) d = Inr d'"
    "i \<notin> reaches d' u \<or> \<not> (case urr_is_active body of None \<Rightarrow> False | Some b \<Rightarrow> b \<noteq> ro_is_active r)"
  shows "view d' u = view d u"
proof (rule view_update_role [OF assms(1)])
  show "i \<notin> reaches d u \<or>
      (\<forall>x \<in> set (t_role d). ro_id x = i \<longrightarrow> ro_is_active (apply_role_update ev body r x) = ro_is_active x)"
    using assms(2)
  proof
    assume "i \<notin> reaches d' u"
    then show ?thesis using update_role_reaches [OF assms(1), of u] by simp
  next
    assume "\<not> (case urr_is_active body of None \<Rightarrow> False | Some b \<Rightarrow> b \<noteq> ro_is_active r)"
    from apply_role_update_active [OF this] show ?thesis by simp
  qed
qed simp

lemma update_role_tells:
  assumes "w_faults w = []" "integrity (w_db w)"
  shows "wp (update_role ev actor i body) (\<lambda>_. tells True w) (tells True w) w"
  unfolding update_role_def Let_def
  using assms
  by (intro wph_structure wph_intros)
    (simp_all add: tells_committed view_updated, (intro conjI impI; rule tells_after, rule view_updated, simp, simp)+)

lemma delete_role_tells:
  assumes "w_faults w = []"
  shows "wp (delete_role ev actor i) (\<lambda>_. tells False w) (tells False w) w"
  unfolding delete_role_def Let_def
  using assms
  by (intro wph_structure wph_intros)
    (simp_all, (rule tells_before, simp add: delete_role_entries view_delete_role)+)

lemma wph_add_members_loop:
  assumes "w_faults w = []" "E w"
    "\<And>t'. (\<And>u. u \<notin> set us \<Longrightarrow> view (tx_db t') u = view (tx_db t) u) \<Longrightarrow> Q t' w"
  shows "wp (add_members_loop ev actor i r k us t) Q E w"
  using assms
proof (induction us arbitrary: k t)
  case Nil
  then show ?case by (simp add: wp_ret)
next
  case (Cons v us)
  show ?case
    unfolding add_members_loop.simps
    using Cons.prems
    by (intro wph_structure wph_intros Cons.IH, auto intro!: Cons.prems(3))
      (erule view_insert_member, simp)
qed

lemma add_members_tells:
  assumes "w_faults w = []"
  shows "wp (add_members ev actor i us) (\<lambda>_. tells True w) (tells True w) w"
  unfolding add_members_def Let_def
  using assms by (intro wph_structure wph_intros wph_add_members_loop) (auto intro!: tells_after)

lemma find_pair:
  "find P xs = Some x \<Longrightarrow> x \<in> set xs \<and> P x"
  by (auto simp: find_Some_iff)

lemma remove_member_tells:
  assumes "w_faults w = []" "integrity (w_db w)"
  shows "wp (remove_member ev actor i u) (\<lambda>_. tells True w) (tells True w) w"
proof -
  have key: "x = y" if "x \<in> set (t_role_member (w_db w))" "y \<in> set (t_role_member (w_db w))" "rm_id x = rm_id y" for x y
    using assms(2) that by (metis integrity_def distinct_map inj_onD)
  show ?thesis
    unfolding remove_member_def Let_def
    using assms(1)
    by (intro wph_structure wph_intros) (auto intro!: tells_after view_delete_member dest!: find_pair dest: key)
qed

lemma insert_edge_reaches:
  assumes "insert_role_inheritance e d = Inr d'" "r = ri_child_role_id e"
  shows "r \<in> reaches d u \<Longrightarrow> r \<in> reaches d' u"
proof -
  assume "r \<in> reaches d u"
  moreover have "parent_rel d \<subseteq> parent_rel d'" using insert_role_inheritance_rel [OF assms(1)] by blast
  then have "(parent_rel d)\<^sup>* \<subseteq> (parent_rel d')\<^sup>*" by (rule rtrancl_mono)
  moreover have "member_of d' u s = member_of d u s" for s
    using assms(1) by (auto simp: insert_role_inheritance_def member_of_def split: if_splits)
  ultimately show ?thesis by (auto simp: reaches_def)
qed

lemma add_parent_tells:
  assumes "w_faults w = []"
  shows "wp (add_parent ev actor i p) (\<lambda>_. tells True w) (tells True w) w"
  unfolding add_parent_def Let_def
  using assms
  apply (intro wph_structure wph_intros)
  apply (auto intro!: tells_after view_insert_edge dest: insert_edge_reaches)
  done

lemma remove_parent_tells:
  assumes "w_faults w = []" "integrity (w_db w)"
  shows "wp (remove_parent ev actor i p) (\<lambda>_. tells True w) (tells True w) w"
proof -
  have key: "x = y" if "x \<in> set (t_role_inheritance (w_db w))" "y \<in> set (t_role_inheritance (w_db w))" "ri_id x = ri_id y" for x y
    using assms(2) that by (metis integrity_def distinct_map inj_onD)
  show ?thesis
    unfolding remove_parent_def Let_def
    using assms(1)
    by (intro wph_structure wph_intros) (auto intro!: tells_after view_delete_edge dest!: find_pair dest: key)
qed

lemma view_access:
  assumes d': "d' = d\<lparr>t_data_source_access := A\<rparr>"
    and old: "\<And>a. a \<in> set (t_data_source_access d) - set A \<Longrightarrow>
      dsa_assignment_scope a = ''role'' \<and> dsa_role_id a \<notin> Some ` effective_roles d u"
    and new: "\<And>a. a \<in> set A - set (t_data_source_access d) \<Longrightarrow>
      dsa_assignment_scope a = ''role'' \<and> dsa_role_id a \<notin> Some ` effective_roles d u"
  shows "view d' u = view d u"
proof -
  have e: "effective_roles d' u = effective_roles d u"
    by (rule effective_roles_cong) (simp_all add: d' member_of_def parent_rel_def)
  have "has_access d' u ds = has_access d u ds" for ds
  proof
    assume "has_access d' u ds"
    then obtain a where a: "a \<in> set A" "dsa_data_source_id a = ds"
      "dsa_assignment_scope a = ''all'' \<or> dsa_assignment_scope a = ''user'' \<and> dsa_user_id a = Some u \<or>
       dsa_assignment_scope a = ''role'' \<and> dsa_role_id a \<in> Some ` effective_roles d u"
      unfolding has_access_def e by (auto simp: d')
    with new [of a] have "a \<in> set (t_data_source_access d)" by (cases "a \<in> set (t_data_source_access d)") auto
    with a(2,3) show "has_access d u ds" unfolding has_access_def by blast
  next
    assume "has_access d u ds"
    then obtain a where a: "a \<in> set (t_data_source_access d)" "dsa_data_source_id a = ds"
      "dsa_assignment_scope a = ''all'' \<or> dsa_assignment_scope a = ''user'' \<and> dsa_user_id a = Some u \<or>
       dsa_assignment_scope a = ''role'' \<and> dsa_role_id a \<in> Some ` effective_roles d u"
      unfolding has_access_def by auto
    with old [of a] have "a \<in> set A" by (cases "a \<in> set A") auto
    with a(2,3) show "has_access d' u ds" unfolding has_access_def e by (auto simp: d')
  qed
  then show ?thesis by (simp add: view_def e)
qed

lemma effective_reaches: "r \<in> effective_roles d u \<Longrightarrow> r \<in> reaches d u"
  by (erule effective_roles_reach) (auto simp: reaches_def)

lemma wph_insert_access_loop:
  assumes "w_faults w = []" "E w"
    "\<And>t' rows. tx_db t' = (tx_db t)\<lparr>t_data_source_access := t_data_source_access (tx_db t) @ rows\<rparr> \<Longrightarrow>
      (\<forall>a \<in> set rows. dsa_assignment_scope a = ''role'' \<and> dsa_role_id a \<in> Some ` set rs) \<Longrightarrow> Q t' w"
  shows "wp (insert_access_loop ev i k rs t) Q E w"
  using assms
proof (induction rs arbitrary: k t)
  case Nil
  show ?case using Nil(3) [of t "[]"] by (simp add: wp_ret)
next
  case (Cons r rs)
  have step: "Q t' w" if d: "insert_data_source_access a (tx_db t) = Inr d" and a: "dsa_assignment_scope a = ''role''"
      "dsa_role_id a = Some r"
    and t': "tx_db t' = d\<lparr>t_data_source_access := t_data_source_access d @ rows\<rparr>"
      "\<forall>a \<in> set rows. dsa_assignment_scope a = ''role'' \<and> dsa_role_id a \<in> Some ` set rs" for a d t' rows
  proof (rule Cons.prems(3))
    show "tx_db t' = (tx_db t)\<lparr>t_data_source_access := t_data_source_access (tx_db t) @ (a # rows)\<rparr>"
      using d t'(1) by (auto simp: insert_data_source_access_def split: if_splits)
    show "\<forall>a' \<in> set (a # rows). dsa_assignment_scope a' = ''role'' \<and> dsa_role_id a' \<in> Some ` set (r # rs)"
      using a t'(2) by auto
  qed
  show ?case
    unfolding insert_access_loop.simps
    using Cons.prems(1,2)
    by (intro wph_structure wph_intros Cons.IH) (auto intro: step)
qed

lemma wph_check_role_active [wph_intros]:
  "w_faults w = [] \<Longrightarrow> Q () w \<Longrightarrow> E w \<Longrightarrow> wp (check_role_active ev r) Q E w"
  unfolding check_role_active_def by (intro wph_structure wph_intros) auto

lemma wph_check_roles_active [wph_intros]:
  "w_faults w = [] \<Longrightarrow> Q () w \<Longrightarrow> E w \<Longrightarrow> wp (for_each (check_role_active ev) rs) Q E w"
  by (rule wp_for_each [where I = "\<lambda>w'. w' = w"]) (auto intro: wph_check_role_active)

lemma wph_invalidate_roles:
  assumes "w_faults w = []"
    "\<And>us. set us = {u. \<exists>r \<in> set rs. r \<in> reaches (w_db w) u} \<Longrightarrow> Q () (told us w)"
  shows "wp (for_each invalidate_role_members rs) Q E w"
  using assms
proof (induction rs arbitrary: w Q)
  case Nil
  from Nil(2) [of "[]"] show ?case by (simp add: wp_ret told_def)
next
  case (Cons r rs)
  have "wp (for_each invalidate_role_members rs) Q E (told us w)" if us: "set us = {u. r \<in> reaches (w_db w) u}" for us
  proof (rule Cons.IH)
    fix us' assume us': "set us' = {u. \<exists>r \<in> set rs. r \<in> reaches (w_db (told us w)) u}"
    have "told us' (told us w) = told (us @ us') w" by (simp add: told_def)
    moreover have "Q () (told (us @ us') w)" by (rule Cons.prems(2)) (use us us' in auto)
    ultimately show "Q () (told us' (told us w))" by simp
  qed (simp add: Cons.prems(1))
  then show ?case using Cons.prems(1) by (auto intro!: wp_bind wph_invalidate_role_members)
qed

lemma set_access_view:
  assumes del: "delete_access_of i ''role'' d = Inr d1"
    and ins: "d' = d1\<lparr>t_data_source_access := t_data_source_access d1 @ rows\<rparr>"
    "\<forall>a \<in> set rows. dsa_assignment_scope a = ''role'' \<and> dsa_role_id a \<in> Some ` set rs"
    and u: "\<And>r. r \<in> set (List.map_filter dsa_role_id (role_access_of i d)) \<union> set rs \<Longrightarrow> r \<notin> reaches d' u"
  shows "view d' u = view d u"
proof -
  let ?A = "filter (\<lambda>a. \<not> (dsa_data_source_id a = i \<and> dsa_assignment_scope a = ''role'')) (t_data_source_access d) @ rows"
  have d': "d' = d\<lparr>t_data_source_access := ?A\<rparr>"
    using del ins(1) by (auto simp: delete_access_of_def)
  have reach: "reaches d' u = reaches d u"
    by (rule reaches_cong) (simp_all add: d' member_of_def parent_rel_def)
  show ?thesis
  proof (rule view_access [OF d'])
    fix a assume "a \<in> set (t_data_source_access d) - set ?A"
    then have a: "a \<in> set (role_access_of i d)" by (auto simp: role_access_of_def)
    have "dsa_role_id a \<notin> Some ` effective_roles d u"
    proof
      assume "dsa_role_id a \<in> Some ` effective_roles d u"
      then obtain r where r: "dsa_role_id a = Some r" "r \<in> effective_roles d u" by auto
      then have "r \<in> set (List.map_filter dsa_role_id (role_access_of i d))" using a by (auto simp: set_map_filter)
      with u effective_reaches [OF r(2)] reach show False by auto
    qed
    with a show "dsa_assignment_scope a = ''role'' \<and> dsa_role_id a \<notin> Some ` effective_roles d u"
      by (simp add: role_access_of_def)
  next
    fix a assume "a \<in> set ?A - set (t_data_source_access d)"
    then have "a \<in> set rows" by auto
    then have a: "dsa_assignment_scope a = ''role''" "dsa_role_id a \<in> Some ` set rs" using ins(2) by auto
    then obtain r where r: "dsa_role_id a = Some r" "r \<in> set rs" by auto
    with u [of r] reach have "r \<notin> effective_roles d u" using effective_reaches by auto
    with a(1) r(1) show "dsa_assignment_scope a = ''role'' \<and> dsa_role_id a \<notin> Some ` effective_roles d u"
      by auto
  qed
qed

lemma set_datasource_role_access_tells:
  assumes "w_faults w = []"
  shows "wp (set_datasource_role_access ev actor i rs) (\<lambda>_. tells True w) (tells True w) w"
  unfolding set_datasource_role_access_def Let_def
  using assms
  by (intro wph_structure wph_intros wph_insert_access_loop wph_invalidate_roles)
    (simp_all, rule tells_after, rule set_access_view, assumption, simp, assumption, simp)

lemma serve_tells:
  assumes "w_faults w = []" "integrity (w_db w)"
  shows "tells (\<forall>i. req \<noteq> DeleteRole i) w (serve ev actor req w)"
proof (cases "\<exists>i. req = DeleteRole i")
  case True
  then obtain i where "req = DeleteRole i" by blast
  with wp_snd [OF delete_role_tells [OF assms(1)]] show ?thesis by simp
next
  case False
  then have "tells True w (serve ev actor req w)"
    using wp_snd [OF create_role_tells [OF assms]] wp_snd [OF update_role_tells [OF assms]]
      wp_snd [OF add_members_tells [OF assms(1)]] wp_snd [OF remove_member_tells [OF assms]]
      wp_snd [OF add_parent_tells [OF assms(1)]] wp_snd [OF remove_parent_tells [OF assms]]
      wp_snd [OF set_datasource_role_access_tells [OF assms(1)]]
    by (cases req) simp_all
  with False show ?thesis by simp
qed

section \<open>Properties\<close>

text \<open>
  C16. Refinement: whatever the database does, a request to the role administration leaves the tables
  as they were or moves them by the changes \<open>role_change\<close> allows (a new edge, in particular, only when
  it closes no cycle and the depth sum stays within ten), and the tables never move without new audit
  rows, all of them naming the caller.
\<close>

theorem role_admin_refines:
  "role_changes (w_db w) (w_db (serve ev actor req w)) \<and> audited actor w (serve ev actor req w)"
  using serve_ok [of actor w ev req] by (simp add: step_ok_def)

text \<open>
  C24. No sequence of role requests, with any database failures in between, ever makes the role
  inheritance cyclic.
\<close>

theorem inheritance_stays_acyclic:
  assumes "role_reachable w w'" "acyclic (parent_rel (w_db w))"
  shows "acyclic (parent_rel (w_db w'))"
  using assms by (rule no_cycles.reached)

text \<open>
  C29. In every reachable state the role tables keep their referential integrity (unique keys, no
  membership or edge of a missing role, no membership of a missing user) and every role name is valid.
\<close>

theorem role_tables_stay_sound:
  assumes "role_reachable w w'" "integrity (w_db w)" "names_valid (w_db w)"
  shows "integrity (w_db w') \<and> names_valid (w_db w')"
  using tables_ok.reached [OF assms(1,2)] names_ok.reached [OF assms(1,3)] by blast

text \<open>
  C14. No stale session: when a role request on a healthy database changes the effective roles or the
  accessible data sources of any user, it invalidates that user's session, and, unless it deletes a
  role, does so after the commit that makes the change visible.
\<close>

theorem changed_views_are_invalidated:
  assumes "w_faults w = []" "integrity (w_db w)"
    and "view (w_db (serve ev actor req w)) u \<noteq> view (w_db w) u"
  shows "\<exists>pre post. w_events (serve ev actor req w) = w_events w @ pre @ Committed # post \<and>
    (InvalidateUser u \<in> set post \<or> (\<exists>i. req = DeleteRole i) \<and> InvalidateUser u \<in> set pre)"
  using serve_tells [OF assms(1,2), of req ev actor] assms(3) unfolding tells_def by blast

lemma delete_role_frame:
  "wp (delete_role ev actor i)
     (\<lambda>_ w'. t_policy_assignment (w_db w') = t_policy_assignment (w_db w) \<and>
        t_data_source_access (w_db w') = t_data_source_access (w_db w))
     (\<lambda>w'. t_policy_assignment (w_db w') = t_policy_assignment (w_db w) \<and>
        t_data_source_access (w_db w') = t_data_source_access (w_db w)) w"
  unfolding delete_role_def Let_def
  by (intro wp_intros) (auto simp: same_def quiet_def delete_role_entries delete_role_row_def)

text \<open>
  Deleting a role leaves its role-scoped policy assignments and data source access rows in place:
  the schema cascades to memberships and inheritance edges only.
\<close>

theorem delete_role_leaves_assignments:
  "t_policy_assignment (w_db (serve ev actor (DeleteRole i) w)) = t_policy_assignment (w_db w) \<and>
   t_data_source_access (w_db (serve ev actor (DeleteRole i) w)) = t_data_source_access (w_db w)"
  using wp_snd [OF delete_role_frame [of ev actor i w]] by simp

section \<open>Sample runs\<close>

definition sample_env :: env where
  "sample_env = \<lparr> e_now = 5, e_ids = (\<lambda>k. 900 + of_nat k), e_uuid_str = (\<lambda>u. ''id'') \<rparr>"

definition sample_world :: "admin_db \<Rightarrow> world" where
  "sample_world d = \<lparr> w_db = d, w_audit = [], w_events = [], w_faults = [] \<rparr>"

text \<open>Ten roles in a chain, user 100 at its bottom, and an eleventh role not connected yet.\<close>

definition chain_db :: admin_db where
  "chain_db = sample_db
     \<lparr>t_role := map (\<lambda>i. \<lparr> ro_id = i, ro_name = ''role'', ro_description = None, ro_is_active = True,
                    ro_created_at = 0, ro_updated_at = 0 \<rparr>) [1, 2, 3, 4, 5, 6, 7, 8, 9, 10, 11],
      t_role_inheritance := map (\<lambda>i. \<lparr> ri_id = i, ri_parent_role_id = i + 1, ri_child_role_id = i, ri_created_at = 0 \<rparr>)
        [1, 2, 3, 4, 5, 6, 7, 8, 9]\<rparr>"

lemma sample_acyclic: "acyclic (parent_rel sample_db)"
proof -
  have "parent_rel sample_db \<subseteq> measure unat"
    by (auto simp: parent_rel_def edge_rel_def sample_db_def)
  then show ?thesis by (rule acyclic_subset [OF wf_acyclic [OF wf_measure]])
qed

theorem inheritance_stays_acyclic_witness:
  "role_reachable (sample_world sample_db) (serve sample_env 7 (AddParent 3 1) (sample_world sample_db)) \<and>
   acyclic (parent_rel (w_db (serve sample_env 7 (AddParent 3 1) (sample_world sample_db))))"
proof -
  have r: "role_reachable (sample_world sample_db) (serve sample_env 7 (AddParent 3 1) (sample_world sample_db))"
    by (intro r_into_rtranclp step_serve)
  moreover have "acyclic (parent_rel (w_db (sample_world sample_db)))"
    by (simp add: sample_world_def sample_acyclic)
  ultimately show ?thesis using inheritance_stays_acyclic by blast
qed

definition tidy_db :: admin_db where
  "tidy_db = sample_db\<lparr>t_proxy_user := [\<lparr> pu_id = 100, pu_username = ''ann'', pu_password_hash = [],
     pu_is_admin = False, pu_is_active = True, pu_email = None, pu_display_name = None,
     pu_last_login_at = None, pu_created_at = 0, pu_updated_at = 0, pu_attributes = [] \<rparr>]\<rparr>"

lemma tidy_integrity: "integrity tidy_db"
  by code_simp

lemma tidy_names: "names_valid tidy_db"
  by code_simp

theorem role_tables_stay_sound_witness:
  "role_reachable (sample_world tidy_db) (serve sample_env 7 (DeleteRole 2) (sample_world tidy_db)) \<and>
   integrity (w_db (serve sample_env 7 (DeleteRole 2) (sample_world tidy_db))) \<and>
   names_valid (w_db (serve sample_env 7 (DeleteRole 2) (sample_world tidy_db)))"
proof -
  have r: "role_reachable (sample_world tidy_db) (serve sample_env 7 (DeleteRole 2) (sample_world tidy_db))"
    by (intro r_into_rtranclp step_serve)
  with role_tables_stay_sound [OF r] show ?thesis
    by (simp add: sample_world_def tidy_integrity tidy_names)
qed

theorem changed_views_are_invalidated_witness:
  "\<exists>pre post. w_events (serve sample_env 7 (RemoveMember 1 100) (sample_world tidy_db)) =
       w_events (sample_world tidy_db) @ pre @ Committed # post \<and>
     (InvalidateUser 100 \<in> set post \<or> (\<exists>i. RemoveMember 1 100 = DeleteRole i) \<and> InvalidateUser 100 \<in> set pre)"
proof (rule changed_views_are_invalidated)
  show "w_faults (sample_world tidy_db) = []" "integrity (w_db (sample_world tidy_db))"
    by (simp_all add: sample_world_def tidy_integrity)
  have m: "t_role_member (w_db (serve sample_env 7 (RemoveMember 1 100) (sample_world tidy_db))) = []"
    by code_simp
  then have "effective_roles (w_db (serve sample_env 7 (RemoveMember 1 100) (sample_world tidy_db))) 100 = {}"
    by (simp add: effective_roles_def member_of_def)
  moreover have "1 \<in> effective_roles tidy_db 100"
  proof -
    have "member_of tidy_db 100 1" "role_active (t_role tidy_db) 1" by code_simp+
    then show ?thesis
      unfolding effective_roles_def MAX_INHERITANCE_DEPTH_def mem_Collect_eq
      by (intro exI [of _ "1 :: uuid"] exI [of _ "0 :: nat"]) simp
  qed
  ultimately show "view (w_db (serve sample_env 7 (RemoveMember 1 100) (sample_world tidy_db))) 100 \<noteq>
      view (w_db (sample_world tidy_db)) 100"
    by (auto simp: view_def sample_world_def)
qed

subsection \<open>The depth limits\<close>

lemma eccentricity_unique:
  assumes "eccentricity R r m" "eccentricity R r n"
  shows "m = n"
proof -
  have "i \<le> j" if i: "eccentricity R r i" and j: "eccentricity R r j" for i j
  proof -
    obtain v where v: "(r, v) \<in> R ^^ i" "\<forall>k < i. (r, v) \<notin> R ^^ k" using i unfolding eccentricity_def by blast
    then obtain k where "k \<le> j" "(r, v) \<in> R ^^ k" using j unfolding eccentricity_def by (meson relpow_imp_rtrancl)
    with v(2) show ?thesis by (meson le_trans not_le)
  qed
  with assms show ?thesis by (meson le_antisym)
qed

lemma invalidate_role_members_run:
  assumes "w_faults w = []"
  obtains us where "invalidate_role_members i w = (Inr (), told us w)"
proof -
  obtain us where "resolve_all_role_members (open_conn (w_db w)) i = Inr us" by (rule resolve_all_role_members_total)
  then have "invalidate_role_members i w = (Inr (), told us w)"
    using assms
    by (simp add: invalidate_role_members_def members_or_default_def call_def next_fault_healthy bind_adm_def invalidate_users_run)
  then show thesis by (rule that)
qed

lemma add_parent_outcome:
  assumes healthy: "w_faults w = []"
    and depth: "eccentricity (parent_rel (w_db w)) p a" "eccentricity ((parent_rel (w_db w))\<inverse>) i b"
  shows "fst (add_parent ev actor i p w) = Inr NO_CONTENT \<longleftrightarrow>
    i \<in> ro_id ` set (t_role (w_db w)) \<and> p \<in> ro_id ` set (t_role (w_db w)) \<and> (p, i) \<notin> (parent_rel (w_db w))\<^sup>* \<and> a + 1 + b \<le> 10 \<and>
    (i, p) \<notin> parent_rel (w_db w) \<and> e_ids ev 0 \<notin> ri_id ` set (t_role_inheritance (w_db w))"
proof -
  let ?d = "w_db w"
  let ?e = "\<lparr> ri_id = e_ids ev 0, ri_parent_role_id = p, ri_child_role_id = i, ri_created_at = e_now ev \<rparr>"
  have depths: "check_inheritance_depth (open_conn ?d) p = Inr a" "check_inheritance_depth_down (open_conn ?d) i = Inr b"
    using check_inheritance_depth_ecc [of ?d p] check_inheritance_depth_down_ecc [of ?d i] depth eccentricity_unique by metis+
  have role: "find_row ro_id k (t_role ?d) = None \<longleftrightarrow> k \<notin> ro_id ` set (t_role ?d)" for k
    by (auto simp: find_row_def find_None_iff)
  have edge: "(\<exists>d. insert_role_inheritance ?e ?d = Inr d) \<longleftrightarrow> e_ids ev 0 \<notin> ri_id ` set (t_role_inheritance ?d) \<and> (i, p) \<notin> parent_rel ?d \<and>
      p \<in> ro_id ` set (t_role ?d) \<and> i \<in> ro_id ` set (t_role ?d)"
    by (auto simp: insert_role_inheritance_def parent_rel_def edge_rel_def image_iff)
  note run = add_parent_def find_role_def bind_adm_def query_def call_def begin_txn_def exec_def next_fault_healthy from_result_def
    fail_def ret_def detect_cycle_eq depths Let_def
  show ?thesis
  proof (cases "find_row ro_id i (t_role ?d)")
    case None
    with healthy role [of i] show ?thesis by (simp add: run)
  next
    case i: (Some x)
    then have i': "i \<in> ro_id ` set (t_role ?d)" using role [of i] by simp
    show ?thesis
    proof (cases "find_row ro_id p (t_role ?d)")
      case None
      with healthy i role [of p] show ?thesis by (simp add: run)
    next
      case p: (Some y)
      then have p': "p \<in> ro_id ` set (t_role ?d)" using role [of p] by simp
      show ?thesis
      proof (cases "insert_role_inheritance ?e ?d")
        case (Inl e)
        with healthy i p edge i' p' show ?thesis by (auto simp: run split: sum.splits)
      next
        case (Inr d')
        obtain us where "invalidate_role_members i (committed ev (audit \<lparr>tx_db = d', tx_entries = []\<rparr> ''role'' i AddInheritance actor
            (JObject [(''parent_role_id'', JString (e_uuid_str ev p)), (''parent_role_name'', JString (ro_name y))])) w) =
            (Inr (), told us (committed ev (audit \<lparr>tx_db = d', tx_entries = []\<rparr> ''role'' i AddInheritance actor
            (JObject [(''parent_role_id'', JString (e_uuid_str ev p)), (''parent_role_name'', JString (ro_name y))])) w))"
          by (rule invalidate_role_members_run [of "committed ev _ w"]) (use healthy in simp)
        with healthy i p edge i' p' Inr show ?thesis
          by (auto simp: run commit_def write_entries_healthy committed_def audit_def split: sum.splits)
      qed
    qed
  qed
qed

lemma resolved_within_nine:
  assumes "resolve_user_roles (open_conn d) u = Inr rs" "r \<in> set rs"
  obtains s n where "member_of d u s" "(s, r) \<in> parent_rel d ^^ n" "n < 10"
proof -
  obtain rs' where "resolve_user_roles (open_conn d) u = Inr rs'" "set rs' = effective_roles d u" by (rule resolve_user_roles_total)
  with assms obtain s n where s: "member_of d u s" "n < MAX_INHERITANCE_DEPTH" "(s, r) \<in> active_parent_rel d ^^ n"
    by (auto simp: effective_roles_def)
  have "active_parent_rel d ^^ k \<subseteq> parent_rel d ^^ k" for k
    by (induction k) (auto simp: active_parent_rel_def)
  with s show thesis by (intro that [of s n]) (auto simp: MAX_INHERITANCE_DEPTH_def)
qed

text \<open>
  C30. The two depth limits disagree by one. On a healthy database \<open>add_parent\<close> accepts an edge exactly when both roles
  exist, the edge and its identifier are new, no cycle would arise, and the longest way up from the parent, the
  edge itself and the longest way down from the child make at most ten edges. \<open>resolve_user_roles\<close> never returns a
  role that is ten or more edges away from every role the user is a member of.
\<close>

theorem accepted_depth_exceeds_resolved_depth:
  assumes "w_faults w = []"
    and "eccentricity (parent_rel (w_db w)) p a" "eccentricity ((parent_rel (w_db w))\<inverse>) i b"
  shows "(fst (add_parent ev actor i p w) = Inr NO_CONTENT \<longleftrightarrow>
      i \<in> ro_id ` set (t_role (w_db w)) \<and> p \<in> ro_id ` set (t_role (w_db w)) \<and> (p, i) \<notin> (parent_rel (w_db w))\<^sup>* \<and> a + 1 + b \<le> 10 \<and>
      (i, p) \<notin> parent_rel (w_db w) \<and> e_ids ev 0 \<notin> ri_id ` set (t_role_inheritance (w_db w))) \<and>
    (\<forall>d u rs r. resolve_user_roles (open_conn d) u = Inr rs \<longrightarrow>
      (\<forall>s n. member_of d u s \<longrightarrow> (s, r) \<in> parent_rel d ^^ n \<longrightarrow> 10 \<le> n) \<longrightarrow> r \<notin> set rs)"
proof (intro conjI allI impI)
  show "fst (add_parent ev actor i p w) = Inr NO_CONTENT \<longleftrightarrow>
      i \<in> ro_id ` set (t_role (w_db w)) \<and> p \<in> ro_id ` set (t_role (w_db w)) \<and> (p, i) \<notin> (parent_rel (w_db w))\<^sup>* \<and> a + 1 + b \<le> 10 \<and>
      (i, p) \<notin> parent_rel (w_db w) \<and> e_ids ev 0 \<notin> ri_id ` set (t_role_inheritance (w_db w))"
    by (rule add_parent_outcome [OF assms])
  show "r \<notin> set rs" if "resolve_user_roles (open_conn d) u = Inr rs" "\<forall>s n. member_of d u s \<longrightarrow> (s, r) \<in> parent_rel d ^^ n \<longrightarrow> 10 \<le> n" for d u rs r
    using that by (meson not_le resolved_within_nine)
qed

text \<open>The edge from role 10 to role 11 makes a chain of ten; role 11 is active, but user 100 does not get it.\<close>

theorem accepted_depth_exceeds_resolved_depth_witness:
  "fst (add_parent sample_env 7 10 11 (sample_world chain_db)) = Inr NO_CONTENT \<and>
   resolve_ancestor_roles (open_conn (w_db (serve sample_env 7 (AddParent 10 11) (sample_world chain_db)))) 1 =
     Inr [2, 3, 4, 5, 6, 7, 8, 9, 10, 11] \<and>
   resolve_user_roles (open_conn (w_db (serve sample_env 7 (AddParent 10 11) (sample_world chain_db)))) 100 =
     Inr [1, 2, 3, 4, 5, 6, 7, 8, 9, 10]"
proof (intro conjI)
  let ?w = "sample_world chain_db"
  have depth: "eccentricity (parent_rel (w_db ?w)) 11 0" "eccentricity ((parent_rel (w_db ?w))\<inverse>) 10 9"
    by (rule depth_checked, code_simp)+
  have cycle: "(11, 10) \<notin> (parent_rel (w_db ?w))\<^sup>*"
  proof -
    have "detect_cycle (open_conn (w_db ?w)) 11 10 = Inr False" by code_simp
    then show ?thesis by (simp add: detect_cycle_eq)
  qed
  have "w_faults ?w = []" "10 \<in> ro_id ` set (t_role (w_db ?w))" "11 \<in> ro_id ` set (t_role (w_db ?w))"
    "(10, 11) \<notin> parent_rel (w_db ?w)" "e_ids sample_env 0 \<notin> ri_id ` set (t_role_inheritance (w_db ?w))"
    by (simp_all add: sample_world_def chain_db_def sample_env_def parent_rel_def edge_rel_def)
  with accepted_depth_exceeds_resolved_depth [OF _ depth, of sample_env 7] cycle
  show "fst (add_parent sample_env 7 10 11 ?w) = Inr NO_CONTENT" by simp
  show "resolve_ancestor_roles (open_conn (w_db (serve sample_env 7 (AddParent 10 11) ?w))) 1 = Inr [2, 3, 4, 5, 6, 7, 8, 9, 10, 11]"
    by code_simp
  show "resolve_user_roles (open_conn (w_db (serve sample_env 7 (AddParent 10 11) ?w))) 100 = Inr [1, 2, 3, 4, 5, 6, 7, 8, 9, 10]"
    by code_simp
qed

end
