(* ===== verification/PolicyInvariants.thy ===== *)
theory PolicyInvariants
  imports PolicyAdmin RoleInvariants
begin

text \<open>
  The policy administration as a state machine: requests served one after the other under any pattern of
  database failures. Invariants of the policy tables are stated once for the abstract changes of
  \<open>PolicyAdmin\<close> (locale \<open>policy_invariant\<close>); the instances are the validity of stored policies and the
  version history. The last part shows which changes invalidate the sessions of a data source.
\<close>

section \<open>Requests\<close>

datatype policy_request =
    CreatePolicy CreatePolicyRequest
  | UpdatePolicy uuid UpdatePolicyRequest
  | DeletePolicy uuid
  | AssignPolicy uuid AssignPolicyRequest
  | RemoveAssignment uuid uuid

fun serve_policy :: "policy_lib \<Rightarrow> env \<Rightarrow> uuid \<Rightarrow> policy_request \<Rightarrow> world \<Rightarrow> world" where
  "serve_policy lib ae actor (CreatePolicy body) w = snd (create_policy lib ae actor body w)"
| "serve_policy lib ae actor (UpdatePolicy i body) w = snd (update_policy lib ae actor i body w)"
| "serve_policy lib ae actor (DeletePolicy i) w = snd (delete_policy lib ae actor i w)"
| "serve_policy lib ae actor (AssignPolicy i body) w = snd (assign_policy lib ae actor i body w)"
| "serve_policy lib ae actor (RemoveAssignment i a) w = snd (remove_assignment lib ae actor i a w)"

fun request_reads_back :: "policy_lib \<Rightarrow> policy_request \<Rightarrow> bool" where
  "request_reads_back lib (CreatePolicy body) = reads_back lib (Some (cpr_targets body)) (cpr_definition body)"
| "request_reads_back lib (UpdatePolicy i body) = reads_back lib (upr_targets body) (upr_definition body)"
| "request_reads_back lib _ = True"

lemmas policy_handlers_ok = create_policy_ok update_policy_ok delete_policy_ok assign_policy_ok remove_assignment_ok

lemma serve_policy_ok:
  "request_reads_back lib req \<Longrightarrow> step_ok (policy_changes lib) actor w (serve_policy lib ae actor req w)"
  by (cases req) (simp_all only: serve_policy.simps request_reads_back.simps,
    (rule wp_snd, (rule policy_handlers_ok [rule_format], assumption?))+)

inductive policy_step :: "policy_lib \<Rightarrow> world \<Rightarrow> world \<Rightarrow> bool" for lib where
  policy_serve: "request_reads_back lib req \<Longrightarrow> policy_step lib w (serve_policy lib ae actor req w)"
| policy_weather: "policy_step lib w (w\<lparr>w_faults := fs\<rparr>)"

abbreviation policy_reachable :: "policy_lib \<Rightarrow> world \<Rightarrow> world \<Rightarrow> bool" where
  "policy_reachable lib \<equiv> (policy_step lib)\<^sup>*\<^sup>*"

section \<open>Invariants\<close>

locale policy_invariant =
  fixes lib :: policy_lib and I :: "admin_db \<Rightarrow> bool"
  assumes change: "policy_change lib d d' \<Longrightarrow> I d \<Longrightarrow> I d'"
begin

lemma served: "request_reads_back lib req \<Longrightarrow> I (w_db w) \<Longrightarrow> I (w_db (serve_policy lib ae actor req w))"
  using serve_policy_ok [of lib req actor w ae] change by (auto simp: step_ok_def)

lemma step: "policy_step lib w w' \<Longrightarrow> I (w_db w) \<Longrightarrow> I (w_db w')"
  by (cases rule: policy_step.cases) (auto intro: served)

lemma reached: "policy_reachable lib w w' \<Longrightarrow> I (w_db w) \<Longrightarrow> I (w_db w')"
  by (induction rule: rtranclp_induct) (auto intro: step)

end

lemma insert_policy_Inr:
  "insert_policy p d = Inr d' \<longleftrightarrow> po_id p \<notin> po_id ` set (t_policy d) \<and> po_name p \<notin> po_name ` set (t_policy d) \<and>
     d' = d\<lparr>t_policy := t_policy d @ [p]\<rparr>"
  by (auto simp: insert_policy_def)

lemma insert_policy_version_Inr:
  "insert_policy_version v d = Inr d' \<longleftrightarrow> pv_id v \<notin> pv_id ` set (t_policy_version d) \<and>
     pv_policy_id v \<in> po_id ` set (t_policy d) \<and> d' = d\<lparr>t_policy_version := t_policy_version d @ [v]\<rparr>"
  by (auto simp: insert_policy_version_def)

lemma update_policy_row_rows:
  assumes "update_policy_row i f d = Inr d'" "find_row po_id i (t_policy d) = Some p" "distinct (map po_id (t_policy d))"
    "po_id (f p) = i"
  shows "map po_id (t_policy d') = map po_id (t_policy d)" "t_policy_version d' = t_policy_version d"
    "q \<in> set (t_policy d') \<longleftrightarrow> q = f p \<or> q \<in> set (t_policy d) \<and> po_id q \<noteq> i"
    "t_policy_assignment d' = t_policy_assignment d" "t_data_source d' = t_data_source d"
proof -
  have d': "d' = d\<lparr>t_policy := map (\<lambda>p. if po_id p = i then f p else p) (t_policy d)\<rparr>"
    using assms(1,2) by (simp add: update_policy_row_def split: if_splits)
  have p: "p \<in> set (t_policy d)" "po_id p = i" using find_row_Some [OF assms(2)] by auto
  have only: "x = p" if "x \<in> set (t_policy d)" "po_id x = i" for x
    using that p assms(3) unfolding distinct_map inj_on_def by blast
  have ids: "po_id (f x) = po_id x" if "x \<in> set (t_policy d)" "po_id x = i" for x
    using only [OF that] assms(4) that by simp
  show "map po_id (t_policy d') = map po_id (t_policy d)" unfolding d' by (simp add: ids cong: map_cong)
  show "t_policy_version d' = t_policy_version d" "t_policy_assignment d' = t_policy_assignment d"
    "t_data_source d' = t_data_source d" unfolding d' by simp_all
  have "q \<in> set (t_policy d') \<longleftrightarrow> (\<exists>x \<in> set (t_policy d). q = (if po_id x = i then f x else x))"
    unfolding d' by (simp del: if_image_distrib add: image_def)
  then show "q \<in> set (t_policy d') \<longleftrightarrow> q = f p \<or> q \<in> set (t_policy d) \<and> po_id q \<noteq> i"
    using p only by metis
qed

lemma find_row_distinct: "distinct (map key rows) \<Longrightarrow> r \<in> set rows \<Longrightarrow> find_row key (key r) rows = Some r"
  by (induction rows) (auto simp: find_row_def)

lemma kept_keys: "x \<in> f ` {y \<in> A. f y \<noteq> i} \<longleftrightarrow> x \<in> f ` A \<and> x \<noteq> i"
  by auto

lemma touch_policy_fields [simp]:
  "po_id (touch_policy ae actor n p) = po_id p" "po_version (touch_policy ae actor n p) = n"
  "po_name (touch_policy ae actor n p) = po_name p"
  "valid_policy lib (touch_policy ae actor n p) = valid_policy lib p"
  by (simp_all add: touch_policy_def valid_policy_def stored_targets_def stored_definition_def)

text \<open>On the policies and their versions, assigning and unassigning are updates.\<close>

lemma policy_change_rows:
  assumes "policy_change lib d d'"
  obtains
    (created) p v d1 where "valid_policy lib p" "insert_policy p d = Inr d1" "snapshot_of ''create'' (po_id p) (po_version p) v"
      "insert_policy_version v d1 = Inr d'"
  | (revised) i p f d0 d1 v c where
      "\<And>a. a \<in> set (t_policy_assignment d0) \<Longrightarrow> pa_policy_id a = i \<or> a \<in> set (t_policy_assignment d)" "t_policy d0 = t_policy d" "t_policy_version d0 = t_policy_version d"
      "find_row po_id i (t_policy d) = Some p" "valid_policy lib p \<Longrightarrow> valid_policy lib (f p)" "po_id (f p) = i"
      "po_version (f p) = next_version (po_version p)" "update_policy_row i f d0 = Inr d1"
      "snapshot_of c i (po_version (f p)) v" "c \<noteq> ''delete''" "insert_policy_version v d1 = Inr d'"
  | (deleted) v d1 i version where "insert_policy_version v d = Inr d1" "snapshot_of ''delete'' i version v"
      "delete_policy_row i d1 = Inr d'"
  using assms
proof (cases rule: policy_change.cases)
  case (pc_create p d1 v)
  then show thesis by (rule created)
next
  case (pc_update i p f d1 v)
  then show thesis by (intro revised [of d i p f d1 "''update''" v]) simp_all
next
  case (pc_assign a d0 p ae actor d1 v)
  moreover have "po_id p = pa_policy_id a" using find_row_Some [OF pc_assign(2)] by simp
  ultimately show thesis
    by (intro revised [of d0 "po_id p" p "touch_policy ae actor (next_version (po_version p))" d1 "''assignment_change''" v])
      (auto simp: insert_policy_assignment_def split: if_splits)
next
  case (pc_unassign i a d0 p ae actor d1 v)
  moreover have "po_id p = pa_policy_id a" using find_row_Some [OF pc_unassign(3)] by simp
  ultimately show thesis
    by (intro revised [of d0 "po_id p" p "touch_policy ae actor (next_version (po_version p))" d1 "''assignment_change''" v])
      (auto simp: delete_policy_assignment_def)
next
  case (pc_delete v d1 i version)
  then show thesis by (rule deleted)
qed

subsection \<open>Stored policies are valid\<close>

definition policies_sound :: "policy_lib \<Rightarrow> admin_db \<Rightarrow> bool" where
  "policies_sound lib d \<longleftrightarrow> distinct (map po_id (t_policy d)) \<and> list_all (valid_policy lib) (t_policy d) \<and>
     list_all (\<lambda>a. pa_policy_id a \<in> po_id ` set (t_policy d)) (t_policy_assignment d)"

interpretation sound_policies: policy_invariant lib "policies_sound lib" for lib
proof unfold_locales
  fix d d' assume change: "policy_change lib d d'" and sound: "policies_sound lib d"
  from change show "policies_sound lib d'"
  proof (cases rule: policy_change_rows)
    case (created p v d1)
    with sound show ?thesis by (auto simp: policies_sound_def insert_policy_Inr insert_policy_version_Inr list_all_iff)
  next
    case (revised i p f d0 d1 v c)
    have p: "p \<in> set (t_policy d)" "po_id p = i" using find_row_Some [OF revised(4)] by auto
    have "find_row po_id i (t_policy d0) = Some p" "distinct (map po_id (t_policy d0))"
      using sound revised(2,4) by (simp_all add: policies_sound_def)
    note rows = update_policy_row_rows [OF revised(8) this revised(6)]
    have ids: "map po_id (t_policy d1) = map po_id (t_policy d)" using rows(1) revised(2) by simp
    then have idset: "po_id ` set (t_policy d1) = po_id ` set (t_policy d)" by (metis list.set_map)
    have "valid_policy lib q" if "q \<in> set (t_policy d1)" for q
      using that rows(3) revised(2,5) p sound by (auto simp: policies_sound_def list_all_iff)
    moreover have "pa_policy_id a \<in> po_id ` set (t_policy d1)" if "a \<in> set (t_policy_assignment d1)" for a
    proof -
      have "pa_policy_id a = i \<or> a \<in> set (t_policy_assignment d)" using that revised(1) rows(4) by simp
      then show ?thesis using p sound unfolding idset by (auto simp: policies_sound_def list_all_iff)
    qed
    ultimately show ?thesis
      using sound revised(11) ids by (simp add: policies_sound_def insert_policy_version_Inr list_all_iff)
  next
    case (deleted v d1 i version)
    with sound show ?thesis
      by (auto simp: policies_sound_def insert_policy_version_Inr delete_policy_row_def list_all_iff distinct_map_filter kept_keys)
  qed
qed

subsection \<open>Version history\<close>

definition versioned :: "admin_db \<Rightarrow> bool" where
  "versioned d \<longleftrightarrow> distinct (map po_id (t_policy d)) \<and>
     list_all (\<lambda>p. list_ex (\<lambda>v. pv_policy_id v = po_id p \<and> pv_version v = po_version p) (t_policy_version d)) (t_policy d) \<and>
     list_all (\<lambda>v. pv_policy_id v \<in> po_id ` set (t_policy d) \<and> pv_change_type v \<noteq> ''delete'') (t_policy_version d)"

interpretation version_history: policy_invariant lib versioned for lib
proof unfold_locales
  fix d d' assume change: "policy_change lib d d'" and old: "versioned d"
  from change show "versioned d'"
  proof (cases rule: policy_change_rows)
    case (created p v d1)
    with old show ?thesis
      by (auto simp: versioned_def insert_policy_Inr insert_policy_version_Inr list_all_iff list_ex_iff snapshot_of_def)
  next
    case (revised i p f d0 d1 v c)
    have "find_row po_id i (t_policy d0) = Some p" "distinct (map po_id (t_policy d0))"
      using old revised(2,4) by (simp_all add: versioned_def)
    note rows = update_policy_row_rows [OF revised(8) this revised(6)]
    have ids: "map po_id (t_policy d1) = map po_id (t_policy d)" using rows(1) revised(2) by simp
    then have "po_id ` set (t_policy d1) = po_id ` set (t_policy d)" by (metis list.set_map)
    then show ?thesis
      using old revised(2,3,6,7,9-11) rows(2,3) ids
      by (auto simp: versioned_def insert_policy_version_Inr list_all_iff list_ex_iff snapshot_of_def)
  next
    case (deleted v d1 i version)
    then have d': "t_policy d' = filter (\<lambda>p. po_id p \<noteq> i) (t_policy d)"
      "t_policy_version d' = filter (\<lambda>v. pv_policy_id v \<noteq> i) (t_policy_version d)"
      by (auto simp: insert_policy_version_Inr delete_policy_row_def snapshot_of_def)
    have "pv_policy_id v \<in> po_id ` set (t_policy d')" if "v \<in> set (t_policy_version d')" for v
      using that old by (simp add: d' kept_keys versioned_def list_all_iff)
    then show ?thesis
      using old d' unfolding versioned_def list_all_iff list_ex_iff by (fastforce simp: distinct_map_filter)
  qed
qed

section \<open>Changes that sessions must learn of\<close>

text \<open>
  What a session on data source \<open>s\<close> enforces: its assignments with their policies, apart from the version and the
  time of the last update.
\<close>

definition policy_content :: "policy_row \<Rightarrow> policy_row" where
  "policy_content p = p\<lparr>po_version := 0, po_updated_by := 0, po_updated_at := 0\<rparr>"

definition enforced :: "admin_db \<Rightarrow> uuid \<Rightarrow> (policy_assignment_row \<times> policy_row) set" where
  "enforced d s = {(a, policy_content p) | a p. a \<in> set (t_policy_assignment d) \<and> pa_data_source_id a = s \<and>
     p \<in> set (t_policy d) \<and> po_id p = pa_policy_id a}"

text \<open>The data source of a request to remove an assignment is the one of the assignment.\<close>

fun well_addressed :: "admin_db \<Rightarrow> policy_request \<Rightarrow> bool" where
  "well_addressed d (RemoveAssignment i a) = list_all (\<lambda>x. pa_id x = a \<longrightarrow> pa_data_source_id x = i) (t_policy_assignment d)"
| "well_addressed d _ = True"

definition announce :: "string \<Rightarrow> admin_event list" where
  "announce n = [InvalidateDatasource n, RebuildDatasource n]"

definition announces :: "world \<Rightarrow> world \<Rightarrow> bool" where
  "announces w w' \<longleftrightarrow> (\<forall>s \<in> set (t_data_source (w_db w)). enforced (w_db w') (ds_id s) \<noteq> enforced (w_db w) (ds_id s) \<longrightarrow>
     (\<exists>post. w_events w' = w_events w @ Committed # post \<and> set (announce (ds_name s)) \<subseteq> set post))"

lemma announces_same: "w_db w' = w_db w \<Longrightarrow> announces w w'"
  by (simp add: announces_def)

subsection \<open>What a healthy request does\<close>

definition assigned_events :: "admin_db \<Rightarrow> policy_assignment_row list \<Rightarrow> admin_event list" where
  "assigned_events d as = concat (map (\<lambda>a. case find_row ds_id (pa_data_source_id a) (t_data_source d) of
     None \<Rightarrow> [] | Some s \<Rightarrow> announce (ds_name s)) as)"

definition notified :: "admin_event list \<Rightarrow> world \<Rightarrow> world" where
  "notified es w = w\<lparr>w_events := w_events w @ es\<rparr>"

lemma notified_simps [simp]:
  "w_db (notified es w) = w_db w" "w_events (notified es w) = w_events w @ es" "w_faults (notified es w) = w_faults w"
  by (simp_all add: notified_def)

lemma wph_invalidate_datasource [wph_intros]:
  "Q () (notified (announce n) w) \<Longrightarrow> wp (invalidate_datasource n) Q E w"
  by (simp add: wp_def invalidate_datasource_def bind_adm_def emit_def notified_def announce_def)

lemma invalidate_assigned_run:
  "w_faults w = [] \<Longrightarrow> for_each invalidate_assigned as w = (Inr (), notified (assigned_events (w_db w) as) w)"
proof (induction as arbitrary: w)
  case Nil
  then show ?case by (simp add: ret_def notified_def assigned_events_def)
next
  case (Cons a as)
  then show ?case
    by (cases "find_row ds_id (pa_data_source_id a) (t_data_source (w_db w))")
      (simp_all add: bind_adm_def invalidate_assigned_def query_def next_fault_healthy assigned_events_def
        invalidate_datasource_def emit_def announce_def notified_def)
qed

lemma wph_invalidate_assigned [wph_intros]:
  "w_faults w = [] \<Longrightarrow> Q () (notified (assigned_events (w_db w) as) w) \<Longrightarrow> wp (for_each invalidate_assigned as) Q E w"
  by (simp add: wp_def invalidate_assigned_run)

lemma wph_find_policy [wph_intros]:
  assumes "w_faults w = []" "\<And>p. find_row po_id i (t_policy (w_db w)) = Some p \<Longrightarrow> Q p w" "E w"
  shows "wp (find_policy i) Q E w"
  unfolding find_policy_def using assms by (intro wp_bind wph_intros wp_from_result) auto

lemma wph_find_datasource [wph_intros]:
  assumes "w_faults w = []" "\<And>s. find_row ds_id i (t_data_source (w_db w)) = Some s \<Longrightarrow> Q s w" "E w"
  shows "wp (find_datasource i) Q E w"
  unfolding find_datasource_def using assms by (intro wp_bind wph_intros wp_from_result) auto

lemma wph_given_decision_function [wph_intros]:
  assumes "w_faults w = []" "\<And>df. Q df w" "E w"
  shows "wp (given_decision_function i) Q E w"
  unfolding given_decision_function_def require_decision_function_def
  using assms by (cases i) (auto intro!: wp_bind wp_ret wph_intros wp_from_result)

lemma wph_fetch_names:
  assumes "w_faults w = []" "\<And>m. Q m w"
  shows "wp (fetch_names rows ids) Q E w"
  unfolding fetch_names_def using assms by (auto intro!: wp_ret wph_intros)

lemma wph_fetch [wph_intros]:
  assumes "w_faults w = []" "\<And>m. Q m w"
  shows "wp (fetch_ds_names ids) Q E w" "wp (fetch_user_names ids) Q E w" "wp (fetch_role_names ids) Q E w"
  unfolding fetch_ds_names_def fetch_user_names_def fetch_role_names_def
  using assms by (auto intro!: wph_fetch_names)

lemma wph_named_response [wph_intros]:
  assumes "w_faults w = []" "\<And>x. Q x w"
  shows "wp (named_response lib p as) Q E w"
  unfolding named_response_def attached_summary_def
  using assms by (intro wph_structure wph_intros) auto

lemma wph_create_snapshot [wph_intros]:
  assumes "w_faults w = []" "\<And>v d. insert_policy_version v (tx_db t) = Inr d \<Longrightarrow> Q (t\<lparr>tx_db := d\<rparr>) w" "E w"
  shows "wp (create_snapshot lib ae k i version actor change_type p as t) Q E w"
  unfolding create_snapshot_def using assms by (intro wph_intros) auto

lemma wph_check_scope [wph_intros]:
  assumes "w_faults w = []" "Q () w" "E w"
  shows "wp (check_scope scope body) Q E w"
proof -
  have "wp (bind_adm (find_role r m) (\<lambda>_. ret ())) Q E w" for r m
    using assms by (intro wph_structure wph_intros) auto
  moreover have "wp (fail e) Q E w" for e using assms by (intro wp_fail)
  moreover have "wp (ret ()) Q E w" using assms by (intro wp_ret)
  ultimately show ?thesis unfolding check_scope_def by (simp split: option.split)
qed

lemma wph_refuse_duplicate [wph_intros]:
  assumes "w_faults w = []" "Q () w" "E w"
  shows "wp (refuse_duplicate i scope body) Q E w"
  unfolding refuse_duplicate_def using assms by (auto intro!: wph_structure wph_intros)

lemma told_notified: "told us w = notified (map InvalidateUser us) w"
  by (simp add: told_def notified_def)

lemma wph_invalidate_assigned_role [wph_intros]:
  assumes "w_faults w = []" "\<And>es. Q () (notified es w)"
  shows "wp (invalidate_assigned_role scope body) Q E w"
proof -
  have "Q () w" using assms(2) [of "[]"] by (simp add: notified_def)
  with assms show ?thesis
    unfolding invalidate_assigned_role_def by (auto intro!: wph_structure wph_intros simp: told_notified)
qed

subsection \<open>Every changed data source is announced\<close>

lemma notified_notified [simp]: "notified fs (notified es w) = notified (es @ fs) w"
  by (simp add: notified_def)

lemma announces_notified:
  assumes "\<And>s. s \<in> set (t_data_source (w_db w)) \<Longrightarrow> enforced (tx_db t) (ds_id s) \<noteq> enforced (w_db w) (ds_id s) \<Longrightarrow>
    set (announce (ds_name s)) \<subseteq> set es"
  shows "announces w (notified es (committed ae t w))"
  using assms by (simp add: announces_def)

lemma announces_committed:
  "(\<And>s. enforced (tx_db t) s = enforced (w_db w) s) \<Longrightarrow> announces w (committed ae t w)"
  by (simp add: announces_def)

lemma announces_assigned:
  assumes "distinct (map ds_id (t_data_source (w_db w)))" "t_data_source (tx_db t) = t_data_source (w_db w)"
    "\<And>s. enforced (tx_db t) s \<noteq> enforced (w_db w) s \<Longrightarrow> s \<in> pa_data_source_id ` set as"
  shows "announces w (notified (assigned_events (tx_db t) as) (committed ae t w))"
proof (rule announces_notified)
  fix s assume s: "s \<in> set (t_data_source (w_db w))" "enforced (tx_db t) (ds_id s) \<noteq> enforced (w_db w) (ds_id s)"
  obtain a where "a \<in> set as" "pa_data_source_id a = ds_id s" using assms(3) [OF s(2)] by auto
  moreover have "find_row ds_id (ds_id s) (t_data_source (tx_db t)) = Some s"
    using assms(1,2) s(1) by (simp add: find_row_distinct)
  ultimately show "set (announce (ds_name s)) \<subseteq> set (assigned_events (tx_db t) as)"
    by (auto simp: assigned_events_def intro!: bexI [of _ a])
qed

lemma enforced_version [simp]: "insert_policy_version v d = Inr d' \<Longrightarrow> enforced d' s = enforced d s"
  by (simp add: insert_policy_version_Inr enforced_def)

lemma enforced_created:
  assumes "insert_policy p d = Inr d'" "list_all (\<lambda>a. pa_policy_id a \<in> po_id ` set (t_policy d)) (t_policy_assignment d)"
  shows "enforced d' s = enforced d s"
  using assms by (fastforce simp: insert_policy_Inr enforced_def list_all_iff)

lemma enforced_updated:
  assumes "update_policy_row i f d = Inr d'" "\<And>x. po_id (f x) = po_id x"
    "\<And>a. a \<in> set (t_policy_assignment d) \<Longrightarrow> pa_policy_id a = i \<Longrightarrow> pa_data_source_id a \<noteq> s"
  shows "enforced d' s = enforced d s"
proof -
  have d': "d' = d\<lparr>t_policy := map (\<lambda>p. if po_id p = i then f p else p) (t_policy d)\<rparr>"
    using assms(1) by (simp add: update_policy_row_def split: option.splits if_splits)
  show ?thesis using assms(2,3) by (fastforce simp: d' enforced_def image_iff)
qed

lemma policy_content_touch [simp]: "policy_content (touch_policy ae actor n p) = policy_content p"
  by (simp add: policy_content_def touch_policy_def)

lemma enforced_touched:
  assumes "update_policy_row i (touch_policy ae actor n) d = Inr d'"
  shows "enforced d' s = enforced d s"
proof -
  define g where "g p = (if po_id p = i then touch_policy ae actor n p else p)" for p
  have d': "t_policy d' = map g (t_policy d)" "t_policy_assignment d' = t_policy_assignment d"
    using assms by (auto simp: update_policy_row_def g_def split: option.splits if_splits)
  have "po_id (g p) = po_id p" "policy_content (g p) = policy_content p" for p by (simp_all add: g_def)
  then have "(\<lambda>p. (po_id p, policy_content p)) ` set (t_policy d') = (\<lambda>p. (po_id p, policy_content p)) ` set (t_policy d)"
    by (simp add: d' image_image)
  moreover have "enforced x s = {(a, c). a \<in> set (t_policy_assignment x) \<and> pa_data_source_id a = s \<and>
      (pa_policy_id a, c) \<in> (\<lambda>p. (po_id p, policy_content p)) ` set (t_policy x)}" for x
    by (force simp: enforced_def)
  ultimately show ?thesis by (simp add: d')
qed

lemma enforced_deleted:
  assumes "delete_policy_row i d = Inr d'"
    "\<And>a. a \<in> set (t_policy_assignment d) \<Longrightarrow> pa_policy_id a = i \<Longrightarrow> pa_data_source_id a \<noteq> s"
  shows "enforced d' s = enforced d s"
  using assms by (fastforce simp: delete_policy_row_def enforced_def)

lemma enforced_assigned:
  "insert_policy_assignment a d = Inr d' \<Longrightarrow> pa_data_source_id a \<noteq> s \<Longrightarrow> enforced d' s = enforced d s"
  by (auto simp: insert_policy_assignment_def enforced_def split: if_splits)

lemma enforced_unassigned:
  assumes "delete_policy_assignment i d = Inr d'"
    "\<And>a. a \<in> set (t_policy_assignment d) \<Longrightarrow> pa_id a = i \<Longrightarrow> pa_data_source_id a \<noteq> s"
  shows "enforced d' s = enforced d s"
  using assms by (fastforce simp: delete_policy_assignment_def enforced_def)

lemma create_policy_announces:
  assumes "w_faults w = []" "policies_sound lib (w_db w)"
  shows "wp (create_policy lib ae actor body) (\<lambda>_. announces w) (announces w) w"
  unfolding create_policy_def Let_def
  using assms
  by (intro wph_structure wph_intros wp_validated)
    (simp_all add: announces_same announces_committed enforced_created policies_sound_def)

lemma apply_policy_update_id [simp]: "po_id (apply_policy_update lib ae actor body p x) = po_id x"
  by (simp add: apply_policy_update_def Let_def split: option.split)

lemma update_policy_row_keeps:
  assumes "update_policy_row i f d = Inr d'"
  shows "t_policy_assignment d' = t_policy_assignment d" "t_data_source d' = t_data_source d"
  using assms by (auto simp: update_policy_row_def split: option.splits if_splits)

lemma insert_policy_version_keeps:
  assumes "insert_policy_version v d = Inr d'"
  shows "t_policy_assignment d' = t_policy_assignment d" "t_data_source d' = t_data_source d"
  using assms by (auto simp: insert_policy_version_Inr)

lemma announces_updated:
  assumes "distinct (map ds_id (t_data_source (w_db w)))" "update_policy_row i f (w_db w) = Inr d"
    "insert_policy_version v d = Inr (tx_db t)" "\<And>x. po_id (f x) = po_id x"
  shows "announces w (notified (assigned_events (tx_db t) (policy_assignments i d)) (committed ae t w))"
proof (rule announces_assigned [OF assms(1)])
  show "t_data_source (tx_db t) = t_data_source (w_db w)"
    using insert_policy_version_keeps [OF assms(3)] update_policy_row_keeps [OF assms(2)] by simp
  show "s \<in> pa_data_source_id ` set (policy_assignments i d)" if "enforced (tx_db t) s \<noteq> enforced (w_db w) s" for s
    using that enforced_version [OF assms(3)] enforced_updated [OF assms(2,4), of s] update_policy_row_keeps [OF assms(2)]
    by (auto simp: policy_assignments_def)
qed

lemma delete_policy_row_keeps: "delete_policy_row i d = Inr d' \<Longrightarrow> t_data_source d' = t_data_source d"
  by (auto simp: delete_policy_row_def)

lemma announces_deleted:
  assumes "distinct (map ds_id (t_data_source (w_db w)))" "insert_policy_version v (w_db w) = Inr d"
    "delete_policy_row i d = Inr (tx_db t)"
  shows "announces w (notified (assigned_events (tx_db t) (policy_assignments i (w_db w))) (committed ae t w))"
proof (rule announces_assigned [OF assms(1)])
  show "t_data_source (tx_db t) = t_data_source (w_db w)"
    using insert_policy_version_keeps [OF assms(2)] delete_policy_row_keeps [OF assms(3)] by simp
  show "s \<in> pa_data_source_id ` set (policy_assignments i (w_db w))" if "enforced (tx_db t) s \<noteq> enforced (w_db w) s" for s
    using that enforced_version [OF assms(2)] enforced_deleted [OF assms(3), of s] insert_policy_version_keeps [OF assms(2)]
    by (auto simp: policy_assignments_def)
qed

lemma announces_moved:
  assumes "\<And>s. s \<noteq> ds_id ds \<Longrightarrow> enforced d0 s = enforced (w_db w) s" "distinct (map ds_id (t_data_source (w_db w)))"
    "ds \<in> set (t_data_source (w_db w))" "update_policy_row i (touch_policy ae actor n) d0 = Inr d1"
    "insert_policy_version v d1 = Inr (tx_db t)"
  shows "announces w (notified (announce (ds_name ds) @ es) (committed ae t w))"
proof (rule announces_notified)
  fix s assume s: "s \<in> set (t_data_source (w_db w))" "enforced (tx_db t) (ds_id s) \<noteq> enforced (w_db w) (ds_id s)"
  then have "ds_id s = ds_id ds"
    using assms(1) enforced_version [OF assms(5)] enforced_touched [OF assms(4)] by force
  then have "s = ds" using s(1) assms(2,3) unfolding distinct_map inj_on_def by blast
  then show "set (announce (ds_name s)) \<subseteq> set (announce (ds_name ds) @ es)" by simp
qed

lemma update_policy_announces:
  assumes "w_faults w = []" "distinct (map ds_id (t_data_source (w_db w)))"
  shows "wp (update_policy lib ae actor i body) (\<lambda>_. announces w) (announces w) w"
  unfolding update_policy_def Let_def
  using assms
  by (intro wph_structure wph_intros wp_validated wp_validate_new_name)
    (simp_all add: announces_same announces_updated [where t = "audit \<lparr>tx_db = _, tx_entries = []\<rparr> _ _ _ _ _", simplified])

lemma delete_policy_announces:
  assumes "w_faults w = []" "distinct (map ds_id (t_data_source (w_db w)))"
  shows "wp (delete_policy lib ae actor i) (\<lambda>_. announces w) (announces w) w"
  unfolding delete_policy_def Let_def
  using assms
  by (intro wph_structure wph_intros)
    (simp_all add: announces_same announces_deleted [where t = "_\<lparr>tx_db := _\<rparr>", simplified])

lemma announces_assign:
  assumes "distinct (map ds_id (t_data_source (w_db w)))" "find_row ds_id i (t_data_source (w_db w)) = Some ds"
    "insert_policy_assignment (new_assignment ae i scope body) (w_db w) = Inr d0"
    "update_policy_row j (touch_policy ae actor n) d0 = Inr d1" "insert_policy_version v d1 = Inr (tx_db t)"
  shows "announces w (notified (announce (ds_name ds) @ es) (committed ae t w))"
proof (rule announces_moved [OF _ assms(1) _ assms(4,5)])
  show "ds \<in> set (t_data_source (w_db w))" using find_row_Some [OF assms(2)] by simp
  show "enforced d0 s = enforced (w_db w) s" if "s \<noteq> ds_id ds" for s
    using that find_row_Some [OF assms(2)] by (intro enforced_assigned [OF assms(3)]) (auto simp: new_assignment_def)
qed

lemma announces_unassign:
  assumes "distinct (map ds_id (t_data_source (w_db w)))" "find_row ds_id i (t_data_source (w_db w)) = Some ds"
    "well_addressed (w_db w) (RemoveAssignment i a)" "delete_policy_assignment a (w_db w) = Inr d0"
    "update_policy_row j (touch_policy ae actor n) d0 = Inr d1" "insert_policy_version v d1 = Inr (tx_db t)"
  shows "announces w (notified (announce (ds_name ds)) (committed ae t w))"
proof -
  have "announces w (notified (announce (ds_name ds) @ []) (committed ae t w))"
  proof (rule announces_moved [OF _ assms(1) _ assms(5,6)])
    show "ds \<in> set (t_data_source (w_db w))" using find_row_Some [OF assms(2)] by simp
    show "enforced d0 s = enforced (w_db w) s" if "s \<noteq> ds_id ds" for s
      using that find_row_Some [OF assms(2)] assms(3)
      by (intro enforced_unassigned [OF assms(4)]) (auto simp: list_all_iff)
  qed
  then show ?thesis by simp
qed

lemma assign_policy_announces:
  assumes "w_faults w = []" "distinct (map ds_id (t_data_source (w_db w)))"
  shows "wp (assign_policy lib ae actor i body) (\<lambda>_. announces w) (announces w) w"
  unfolding assign_policy_def Let_def
  using assms by (intro wph_structure wph_intros) (simp_all add: announces_same, erule (3) announces_assign, simp)

lemma remove_assignment_announces:
  assumes "w_faults w = []" "distinct (map ds_id (t_data_source (w_db w)))"
    "well_addressed (w_db w) (RemoveAssignment i a)"
  shows "wp (remove_assignment lib ae actor i a) (\<lambda>_. announces w) (announces w) w"
  unfolding remove_assignment_def Let_def
  using assms
  by (intro wph_structure wph_intros)
    (simp_all add: announces_same del: well_addressed.simps,
      frule find_row_Some [where key = pa_id], elim conjE, erule (1) announces_unassign, simp_all del: well_addressed.simps)

lemma serve_policy_announces:
  assumes "w_faults w = []" "policies_sound lib (w_db w)" "distinct (map ds_id (t_data_source (w_db w)))"
    "well_addressed (w_db w) req"
  shows "announces w (serve_policy lib ae actor req w)"
  using assms wp_snd [OF create_policy_announces [OF assms(1,2)]] wp_snd [OF update_policy_announces [OF assms(1,3)]]
    wp_snd [OF delete_policy_announces [OF assms(1,3)]] wp_snd [OF assign_policy_announces [OF assms(1,3)]]
    wp_snd [OF remove_assignment_announces [OF assms(1,3)]]
  by (cases req) simp_all

subsection \<open>Which data source a removal announces\<close>

lemma removed_enforced:
  assumes "delete_policy_assignment k d = Inr d0" "update_policy_row i (touch_policy ae actor n) d0 = Inr d1"
    "insert_policy_version v d1 = Inr d2"
  shows "enforced d2 j = {x \<in> enforced d j. pa_id (fst x) \<noteq> k}"
proof -
  have "enforced d2 j = enforced d0 j" using enforced_version [OF assms(3)] enforced_touched [OF assms(2)] by simp
  also have "\<dots> = {x \<in> enforced d j. pa_id (fst x) \<noteq> k}"
    using assms(1) by (auto simp: delete_policy_assignment_def enforced_def)
  finally show ?thesis .
qed

definition removes_under :: "uuid \<Rightarrow> uuid \<Rightarrow> world \<Rightarrow> world \<Rightarrow> bool" where
  "removes_under i k w w' \<longleftrightarrow> (\<exists>s. find_row ds_id i (t_data_source (w_db w)) = Some s \<and>
     w_events w' = w_events w @ [Committed, InvalidateDatasource (ds_name s), RebuildDatasource (ds_name s)]) \<and>
     (\<forall>j. enforced (w_db w') j = {x \<in> enforced (w_db w) j. pa_id (fst x) \<noteq> k})"

lemma removes_underI:
  assumes "find_row ds_id i (t_data_source (w_db w)) = Some s" "delete_policy_assignment k (w_db w) = Inr d0"
    "update_policy_row j (touch_policy ae actor n) d0 = Inr d1" "insert_policy_version v d1 = Inr (tx_db t)"
  shows "removes_under i k w (notified (announce (ds_name s)) (committed ae t w))"
  unfolding removes_under_def using assms(1) removed_enforced [OF assms(2-4)] by (simp add: announce_def)

lemma remove_assignment_effect:
  assumes "w_faults w = []"
  shows "wp (remove_assignment lib ae actor i k) (\<lambda>_. removes_under i k w) (\<lambda>_. True) w"
  unfolding remove_assignment_def Let_def
  using assms
  by (intro wph_structure wph_intros)
    (simp_all, frule find_row_Some [where key = pa_id], elim conjE, erule removes_underI, simp_all)

section \<open>Properties\<close>

text \<open>
  C17. Refinement: whatever the database does, a request to the policy administration leaves the tables as they were or
  moves them by one change \<open>policy_change\<close> allows (every change of a policy or of its assignments comes with the next
  version number and a snapshot), and the tables never move without new audit rows, all of them naming the caller.
\<close>

theorem policy_admin_refines:
  assumes "request_reads_back lib req"
  shows "policy_changes lib (w_db w) (w_db (serve_policy lib ae actor req w)) \<and>
    audited actor w (serve_policy lib ae actor req w)"
  using serve_policy_ok [OF assms, of actor w ae] by (simp add: step_ok_def)

text \<open>
  C18. In every state the policy administration reaches, whatever database failures come in between, policy identifiers
  are unique, every stored policy has a valid name, a known type, targets of the shape its type asks for and, for row
  filters and masks, an expression that passes validation, and no assignment names a missing policy.
\<close>

theorem stored_policies_stay_valid:
  assumes "policy_reachable lib w w'" "policies_sound lib (w_db w)"
  shows "policies_sound lib (w_db w')"
  using assms by (rule sound_policies.reached)

text \<open>
  C25. The version history: in every reachable state each policy has a snapshot with its current version, every snapshot
  belongs to a policy that still exists, and no snapshot records a deletion: the one \<open>delete_policy\<close> writes is removed
  with its policy, by the cascade of the same transaction.
\<close>

theorem version_history_follows_policies:
  assumes "policy_reachable lib w w'" "versioned (w_db w)"
  shows "(\<forall>p \<in> set (t_policy (w_db w')). \<exists>v \<in> set (t_policy_version (w_db w')).
       pv_policy_id v = po_id p \<and> pv_version v = po_version p) \<and>
    (\<forall>v \<in> set (t_policy_version (w_db w')). pv_policy_id v \<in> po_id ` set (t_policy (w_db w')) \<and>
       pv_change_type v \<noteq> ''delete'')"
  using version_history.reached [OF assms] by (simp add: versioned_def list_all_iff list_ex_iff)

text \<open>
  C15. No stale policy: when a policy request on a healthy database changes what a data source enforces (an assignment
  of it, or the content of an assigned policy), then after the commit every cached session of that data source is
  invalidated and its contexts are rebuilt, provided that an assignment is removed under its own data source.
\<close>

theorem policy_changes_are_announced:
  assumes "w_faults w = []" "policies_sound lib (w_db w)" "distinct (map ds_id (t_data_source (w_db w)))"
    "well_addressed (w_db w) req" "s \<in> set (t_data_source (w_db w))"
    and "enforced (w_db (serve_policy lib ae actor req w)) (ds_id s) \<noteq> enforced (w_db w) (ds_id s)"
  shows "\<exists>post. w_events (serve_policy lib ae actor req w) = w_events w @ Committed # post \<and>
    InvalidateDatasource (ds_name s) \<in> set post \<and> RebuildDatasource (ds_name s) \<in> set post"
  using serve_policy_announces [OF assms(1-4), of ae actor] assms(5,6)
  unfolding announces_def announce_def by fastforce

section \<open>Sample runs\<close>

lemma valid_policy_eval:
  "valid_policy lib p = (validate_policy_name (po_name p) = Inr () \<and>
     (case from_str (po_policy_type p) of
        Inl e \<Rightarrow> False
      | Inr pt \<Rightarrow> validate_targets pt (stored_targets lib p) = Inr () \<and>
          validate_definition lib pt (stored_definition lib p) = Inr ()))"
  by (auto simp: valid_policy_def split: sum.split)

definition ssn_column :: target_entry where
  "ssn_column = \<lparr> schemas = [''public''], tables = [''orders''], columns = Some [''ssn''] \<rparr>"

definition office_lib :: policy_lib where
  "office_lib = \<lparr> pl_session = plain_session_lib\<lparr>sl_targets := \<lambda>_. Some [ssn_column]\<rparr>, pl_show_targets = (\<lambda>_. ''ssn''),
     pl_expr = tenant_lib, pl_builtins = Map.empty \<rparr>"

definition office_source :: "uuid \<Rightarrow> string \<Rightarrow> data_source_row" where
  "office_source i n = \<lparr> ds_id = i, ds_name = n, ds_ds_type = ''postgres'', ds_config = '''', ds_secure_config = '''',
     ds_is_active = True, ds_access_mode = ''open'', ds_last_sync_at = None, ds_last_sync_result = None,
     ds_created_at = 0, ds_updated_at = 0 \<rparr>"

text \<open>Policy 50, assigned to data source 7; data source 8 has no policies.\<close>

definition office_db :: admin_db where
  "office_db = session_db\<lparr>
     t_policy_assignment := [hd (t_policy_assignment session_db)],
     t_data_source := [office_source 7 ''crm'', office_source 8 ''erp''],
     t_policy_version := [\<lparr> pv_id = 60, pv_policy_id = 50, pv_version = 1, pv_snapshot = JNull, pv_change_type = ''create'',
       pv_changed_by = 100, pv_created_at = 0 \<rparr>]\<rparr>"

definition deny_ssn :: CreatePolicyRequest where
  "deny_ssn = \<lparr> cpr_name = ''deny ssn'', cpr_policy_type = ColumnDeny, cpr_description = None, cpr_is_enabled = True,
     cpr_targets = [ssn_column], cpr_definition = None, cpr_decision_function_id = None \<rparr>"

abbreviation office :: world where
  "office \<equiv> sample_world office_db"

abbreviation office_serves :: "policy_request \<Rightarrow> world" where
  "office_serves req \<equiv> serve_policy office_lib sample_env 7 req office"

lemma deny_ssn_reads_back: "request_reads_back office_lib (CreatePolicy deny_ssn)"
  by (simp add: reads_back_def office_lib_def deny_ssn_def)

lemma office_sound: "policies_sound office_lib office_db"
  unfolding policies_sound_def valid_policy_eval list_all_iff by code_simp

theorem policy_admin_refines_witness:
  "map po_name (t_policy (w_db (office_serves (CreatePolicy deny_ssn)))) = [''hide'', ''deny ssn''] \<and>
   policy_changes office_lib (w_db office) (w_db (office_serves (CreatePolicy deny_ssn))) \<and>
   audited 7 office (office_serves (CreatePolicy deny_ssn))"
proof
  show "map po_name (t_policy (w_db (office_serves (CreatePolicy deny_ssn)))) = [''hide'', ''deny ssn'']" by code_simp
qed (rule policy_admin_refines [OF deny_ssn_reads_back])

theorem stored_policies_stay_valid_witness:
  "policy_reachable office_lib office (office_serves (CreatePolicy deny_ssn)) \<and>
   policies_sound office_lib (w_db (office_serves (CreatePolicy deny_ssn)))"
proof -
  have r: "policy_reachable office_lib office (office_serves (CreatePolicy deny_ssn))"
    by (intro r_into_rtranclp policy_serve deny_ssn_reads_back)
  with stored_policies_stay_valid [OF r] show ?thesis by (simp add: sample_world_def office_sound)
qed

theorem version_history_follows_policies_witness:
  "(\<exists>v \<in> set (t_policy_version (w_db (office_serves (CreatePolicy deny_ssn)))). pv_policy_id v = 900 \<and> pv_version v = 1) \<and>
   ''delete'' \<notin> pv_change_type ` set (t_policy_version (w_db (office_serves (CreatePolicy deny_ssn))))"
proof -
  have r: "policy_reachable office_lib office (office_serves (CreatePolicy deny_ssn))"
    by (intro r_into_rtranclp policy_serve deny_ssn_reads_back)
  have "versioned (w_db office)" by code_simp
  note history = version_history_follows_policies [OF r this]
  have "list_ex (\<lambda>p. po_id p = 900 \<and> po_version p = 1) (t_policy (w_db (office_serves (CreatePolicy deny_ssn))))"
    by code_simp
  with history show ?thesis unfolding list_ex_iff image_iff by metis
qed

lemma enforced_none: "t_policy_assignment d = [] \<Longrightarrow> enforced d s = {}"
  by (simp add: enforced_def)

lemma office_enforces: "enforced office_db 7 \<noteq> {}"
proof -
  have "hd (t_policy_assignment office_db) \<in> set (t_policy_assignment office_db)"
    "pa_data_source_id (hd (t_policy_assignment office_db)) = 7" "hd (t_policy office_db) \<in> set (t_policy office_db)"
    "po_id (hd (t_policy office_db)) = pa_policy_id (hd (t_policy_assignment office_db))"
    by code_simp+
  then show ?thesis unfolding enforced_def by blast
qed

theorem policy_changes_are_announced_witness:
  "\<exists>post. w_events (office_serves (DeletePolicy 50)) = w_events office @ Committed # post \<and>
     InvalidateDatasource (ds_name (office_source 7 ''crm'')) \<in> set post \<and>
     RebuildDatasource (ds_name (office_source 7 ''crm'')) \<in> set post"
proof (rule policy_changes_are_announced)
  show "w_faults office = []" "policies_sound office_lib (w_db office)" by (simp_all add: sample_world_def office_sound)
  show "distinct (map ds_id (t_data_source (w_db office)))" "well_addressed (w_db office) (DeletePolicy 50)" by code_simp+
  show "office_source 7 ''crm'' \<in> set (t_data_source (w_db office))" by (simp add: sample_world_def office_db_def)
  have "t_policy_assignment (w_db (office_serves (DeletePolicy 50))) = []" by code_simp
  then show "enforced (w_db (office_serves (DeletePolicy 50))) (ds_id (office_source 7 ''crm'')) \<noteq>
      enforced (w_db office) (ds_id (office_source 7 ''crm''))"
    using office_enforces by (simp add: enforced_none sample_world_def office_source_def)
qed

text \<open>
  C40. A removal announces the data source of its path, not the one of the assignment: whenever \<open>remove_assignment\<close>
  succeeds on a healthy database, exactly the assignment it names stops being enforced, on whatever data source that
  assignment belongs to, and what is invalidated and rebuilt after the commit is exactly the data source named in the
  path. Under another data source than its own the assignment's sessions are not told.
\<close>

theorem removal_announces_the_path:
  assumes "w_faults w = []" "remove_assignment lib ae actor i k w = (Inr r, w')"
  shows "(\<exists>s. find_row ds_id i (t_data_source (w_db w)) = Some s \<and>
      w_events w' = w_events w @ [Committed, InvalidateDatasource (ds_name s), RebuildDatasource (ds_name s)]) \<and>
    (\<forall>j. enforced (w_db w') j = {x \<in> enforced (w_db w) j. pa_id (fst x) \<noteq> k})"
  using remove_assignment_effect [OF assms(1), of lib ae actor i k] assms(2) by (simp add: wp_def removes_under_def)

text \<open>The assignment of data source 7 removed under data source 8.\<close>

theorem removal_announces_the_path_witness:
  "\<exists>w'. remove_assignment office_lib sample_env 7 8 31 office = (Inr NO_CONTENT, w') \<and>
   w_events w' = [Committed, InvalidateDatasource ''erp'', RebuildDatasource ''erp''] \<and>
   enforced (w_db office) 7 \<noteq> {} \<and> enforced (w_db w') 7 = {}"
proof -
  let ?w = "snd (remove_assignment office_lib sample_env 7 8 31 office)"
  have "fst (remove_assignment office_lib sample_env 7 8 31 office) = Inr NO_CONTENT" by code_simp
  then have run: "remove_assignment office_lib sample_env 7 8 31 office = (Inr NO_CONTENT, ?w)"
    by (cases "remove_assignment office_lib sample_env 7 8 31 office") simp
  have healthy: "w_faults office = []" "w_events office = []" by (simp_all add: sample_world_def)
  have path: "find_row ds_id 8 (t_data_source (w_db office)) = Some (office_source 8 ''erp'')"
    by (simp add: sample_world_def office_db_def office_source_def find_row_def)
  have only: "pa_id a = 31" if "a \<in> set (t_policy_assignment (w_db office))" for a
  proof -
    have "list_all (\<lambda>a. pa_id a = 31) (t_policy_assignment (w_db office))" by code_simp
    with that show ?thesis by (simp add: list_all_iff)
  qed
  from removal_announces_the_path [OF healthy(1) run]
  have "w_events ?w = [Committed, InvalidateDatasource ''erp'', RebuildDatasource ''erp'']"
    "enforced (w_db ?w) 7 = {x \<in> enforced (w_db office) 7. pa_id (fst x) \<noteq> 31}"
    using path healthy(2) by (auto simp: office_source_def)
  moreover have "{x \<in> enforced (w_db office) 7. pa_id (fst x) \<noteq> 31} = {}" using only by (auto simp: enforced_def)
  moreover have "enforced (w_db office) 7 \<noteq> {}" using office_enforces by (simp add: sample_world_def)
  ultimately show ?thesis using run by blast
qed

end
