(* ===== verification/DecisionContext.thy ===== *)
theory DecisionContext
  imports PolicyEffects
begin

text \<open>
  The context a decision function is evaluated on (\<open>decision/context.rs\<close>), the metadata of a query and
  the typed attributes that go into it (\<open>hooks/policy.rs\<close>).

  The calendar fields of the evaluation time are the fields of \<open>clock\<close>. Hash maps are iterated in an
  order of the library's choice: the functions that do so take the list of keys as an argument.
\<close>

section \<open>Context objects\<close>

record session_info =
  si_user_id :: string
  si_username :: string
  si_roles :: "string list"
  si_datasource_name :: string
  si_access_mode :: string
  si_attributes :: "(string \<times> json) list"

record TableRef =
  tm_datasource :: string
  tm_schema :: string
  tm_table :: string

record query_metadata =
  qm_tables :: "TableRef list"
  qm_columns :: "string list"
  qm_join_count :: nat
  qm_has_aggregation :: bool
  qm_has_subquery :: bool
  qm_has_where :: bool
  qm_statement_type :: string

record clock =
  ck_now :: string
  ck_hour :: string
  ck_day_of_week :: string

abbreviation parse_u32 :: "string \<Rightarrow> nat option" where
  "parse_u32 \<equiv> parse_uint 32"

abbreviation json_strings :: "string list \<Rightarrow> json" where
  "json_strings ss \<equiv> JArray (map JString ss)"

fun entry_or_insert :: "(string \<times> json) \<Rightarrow> (string \<times> json) list \<Rightarrow> (string \<times> json) list" where
  "entry_or_insert (k, v) fs = (if k \<in> fst ` set fs then fs else fs @ [(k, v)])"

definition build_user_object :: "session_info \<Rightarrow> json" where
  "build_user_object session =
     JObject (fold entry_or_insert (si_attributes session)
       [(''id'', JString (si_user_id session)), (''username'', JString (si_username session)),
        (''roles'', json_strings (si_roles session))])"

definition session_object :: "clock \<Rightarrow> session_info \<Rightarrow> json" where
  "session_object now session =
     JObject
       [(''user'', build_user_object session),
        (''time'', JObject
          [(''now'', JString (ck_now now)),
           (''hour'', JInt (int (unwrap_or (parse_u32 (ck_hour now)) 0))),
           (''day_of_week'', JString (ck_day_of_week now))]),
        (''datasource'', JObject
          [(''name'', JString (si_datasource_name session)), (''access_mode'', JString (si_access_mode session))])]"

definition build_session_context :: "clock \<Rightarrow> session_info \<Rightarrow> json" where
  "build_session_context now session = JObject [(''session'', session_object now session)]"

definition table_ref_json :: "TableRef \<Rightarrow> json" where
  "table_ref_json t =
     JObject [(''datasource'', JString (tm_datasource t)), (''schema'', JString (tm_schema t)), (''table'', JString (tm_table t))]"

definition build_query_context :: "clock \<Rightarrow> session_info \<Rightarrow> query_metadata \<Rightarrow> json" where
  "build_query_context now session query =
     JObject
       [(''session'', session_object now session),
        (''query'', JObject
          [(''tables'', JArray (map table_ref_json (qm_tables query))),
           (''columns'', json_strings (qm_columns query)),
           (''join_count'', JInt (int (qm_join_count query))),
           (''has_aggregation'', JBool (qm_has_aggregation query)),
           (''has_subquery'', JBool (qm_has_subquery query)),
           (''has_where'', JBool (qm_has_where query)),
           (''statement_type'', JString (qm_statement_type query))])]"

section \<open>Typed attributes\<close>

fun parse_bool :: "string \<Rightarrow> bool option" where
  "parse_bool s = (if s = ''true'' then Some True else if s = ''false'' then Some False else None)"

definition attribute_json :: "expr_lib \<Rightarrow> typed_attribute \<Rightarrow> json" where
  "attribute_json lib ta =
     (let plain = JString (ta_value ta); t = ta_value_type ta in
      if t = ''null'' then JNull
      else if t = ''list'' then unwrap_or (map_option json_strings (el_json_strings lib (ta_value ta))) plain
      else if t = ''integer'' then unwrap_or (map_option JInt (parse_i64 (ta_value ta))) plain
      else if t = ''boolean'' then unwrap_or (map_option JBool (parse_bool (ta_value ta))) plain
      else plain)"

definition json_attributes :: "expr_lib \<Rightarrow> string list \<Rightarrow> attributes \<Rightarrow> (string \<times> json) list" where
  "json_attributes lib keys attrs = List.map_filter (\<lambda>k. map_option (\<lambda>ta. (k, attribute_json lib ta)) (attrs k)) keys"

section \<open>Query metadata\<close>

text \<open>A filter whose condition contains subqueries is the \<open>WithSubqueries\<close> node of that name.\<close>

fun visit_node :: "string \<Rightarrow> string \<Rightarrow> plan \<Rightarrow> query_metadata \<Rightarrow> query_metadata" where
  "visit_node default_schema ds (TableScan r cs) m =
     (let k = scan_policy_key r default_schema in
      if is_system_key k then m
      else m\<lparr> qm_tables := qm_tables m @ [\<lparr> tm_datasource = ds, tm_schema = fst k, tm_table = snd k \<rparr>] \<rparr>)"
| "visit_node default_schema ds (Join l r on) m = m\<lparr> qm_join_count := qm_join_count m + 1 \<rparr>"
| "visit_node default_schema ds (Aggregate g p) m = m\<lparr> qm_has_aggregation := True \<rparr>"
| "visit_node default_schema ds (Filter e p) m = m\<lparr> qm_has_where := True \<rparr>"
| "visit_node default_schema ds (SubqueryAlias a p) m = m\<lparr> qm_has_subquery := True \<rparr>"
| "visit_node default_schema ds (WithSubqueries k ps p) m = (if k = ''Filter'' then m\<lparr> qm_has_where := True \<rparr> else m)"
| "visit_node default_schema ds p m = m"

function extract_metadata_inner :: "string \<Rightarrow> string \<Rightarrow> plan \<Rightarrow> query_metadata \<Rightarrow> query_metadata" where
  "extract_metadata_inner default_schema ds plan m =
     fold (\<lambda>input. extract_metadata_inner default_schema ds input) (inputs plan) (visit_node default_schema ds plan m)"
  by pat_completeness auto
termination
proof (relation "measure (\<lambda>(_, _, p, _). size p)")
  show "((default_schema, ds, x, xa), default_schema, ds, plan, m) \<in> measure (\<lambda>(_, _, p, _). size p)"
    if "x \<in> set (inputs plan)" for default_schema ds plan m x xa
    using that by (cases plan) (auto simp: less_Suc_eq_le intro: size_list_estimation')
qed simp

declare extract_metadata_inner.simps [simp del]

definition extract_query_metadata :: "df_ops \<Rightarrow> plan \<Rightarrow> string \<Rightarrow> string \<Rightarrow> query_metadata" where
  "extract_query_metadata df plan default_schema datasource_name =
     (let m = extract_metadata_inner default_schema datasource_name plan
        \<lparr> qm_tables = [], qm_columns = [], qm_join_count = 0, qm_has_aggregation = False, qm_has_subquery = False,
          qm_has_where = False, qm_statement_type = '''' \<rparr>
      in m\<lparr> qm_tables := dedup (qm_tables m), qm_columns := map c_name (df_schema df plan), qm_statement_type := ''SELECT'' \<rparr>)"

section \<open>What a decision function sees\<close>

lemma extract_tables:
  "qm_tables (extract_metadata_inner default_schema ds plan m) =
     qm_tables m @ map (\<lambda>k. \<lparr> tm_datasource = ds, tm_schema = fst k, tm_table = snd k \<rparr>)
       (collect_tables_inner plan default_schema)"
proof (induction plan arbitrary: m rule: measure_induct_rule [of size])
  case (less plan)
  let ?t = "\<lambda>k. \<lparr> tm_datasource = ds, tm_schema = fst k, tm_table = snd k \<rparr>"
  have small: "size q < size plan" if "q \<in> set (inputs plan)" for q
    using that by (cases plan) (auto simp: less_Suc_eq_le intro: size_list_estimation')
  have "qm_tables (fold (extract_metadata_inner default_schema ds) ps m) =
      qm_tables m @ map ?t (concat (map (\<lambda>q. collect_tables_inner q default_schema) ps))"
    if "set ps \<subseteq> set (inputs plan)" for ps m
    using that
  proof (induction ps arbitrary: m)
    case (Cons q ps)
    then show ?case using less [OF small, of q] by simp
  qed simp
  from this [OF subset_refl] show ?case
    unfolding extract_metadata_inner.simps [of _ _ plan] collect_tables_inner.simps [of plan]
    by (cases plan) (simp_all add: Let_def)
qed

lemma dedup_map_inj: "inj f \<Longrightarrow> dedup (map f xs) = map f (dedup xs)"
  by (induction xs rule: dedup.induct) (auto simp: inj_eq)

lemma extract_query_metadata_tables:
  "qm_tables (extract_query_metadata df plan default_schema ds) =
     map (\<lambda>k. \<lparr> tm_datasource = ds, tm_schema = fst k, tm_table = snd k \<rparr>) (collect_user_tables plan default_schema)"
  by (simp add: extract_query_metadata_def extract_tables collect_user_tables_def Let_def)
    (rule dedup_map_inj, auto intro!: injI prod_eqI)

lemma fold_entry_or_insert_keeps: "map_of fs k = Some v \<Longrightarrow> map_of (fold entry_or_insert as fs) k = Some v"
proof (induction as arbitrary: fs)
  case (Cons a as)
  then show ?case by (cases a) (auto simp: map_add_def)
qed simp

lemma fold_entry_or_insert_new:
  "k \<notin> fst ` set fs \<Longrightarrow> map_of (fold entry_or_insert as fs) k = map_of as k"
proof (induction as arbitrary: fs)
  case Nil
  then show ?case by (simp add: map_of_eq_None_iff)
next
  case (Cons a as)
  obtain k' v where a: "a = (k', v)" by fastforce
  show ?case
  proof (cases "k' = k")
    case True
    have "map_of (fs @ [(k, v)]) k = Some v" using Cons.prems by (simp add: map_add_def map_of_eq_None_iff [THEN iffD2])
    with True Cons.prems a show ?thesis by (simp add: fold_entry_or_insert_keeps)
  next
    case False
    with Cons a show ?thesis by auto
  qed
qed

end
