(* ===== verification/Enforcement.thy ===== *)
theory Enforcement
  imports PolicyEffects
begin

text \<open>
  What the enforcement pipeline guarantees, over the definitions of \<open>PolicyEffects\<close>: a query that is
  let through computes its result from a view of each table that contains only permitted rows, with
  masks in place; denied tables and columns are refused. The last section shows by example where the
  guarantees end: subqueries inside expressions, aliases, system-like names and filters that do not
  parse.
\<close>

section \<open>A small deployment\<close>

definition shop_env :: hook_env where
  "shop_env = \<lparr> he_lib = tenant_lib, he_registry = Map.empty, he_df = plain_df,
     he_default_schema = ''public'', he_table = Map.empty \<rparr>"

definition mk_policy :: "uuid \<Rightarrow> string \<Rightarrow> policy_type \<Rightarrow> target_entry \<Rightarrow> json option \<Rightarrow> resolved_policy" where
  "mk_policy i n ty t d = \<lparr> rp_id = i, rp_name = n, rp_policy_type = ty, rp_version = 1, rp_priority = 100,
     rp_targets = [t], rp_definition = d, rp_decision_function = None \<rparr>"

definition on_table :: "string \<Rightarrow> string list option \<Rightarrow> target_entry" where
  "on_table t cols = \<lparr> schemas = [''public''], tables = [t], columns = cols \<rparr>"

definition tenant_filter :: resolved_policy where
  "tenant_filter = mk_policy 1 ''by tenant'' RowFilter (on_table ''orders'' None)
     (Some (JObject [(''filter_expression'', JString ''tenant = {user.tenant}'')]))"

definition all_columns :: "string \<Rightarrow> resolved_policy" where
  "all_columns t = mk_policy 2 ''all columns'' ColumnAllow (on_table t (Some [''*''])) None"

definition shop_session :: "string \<Rightarrow> resolved_policy list \<Rightarrow> resolved_policy list \<Rightarrow> session_data" where
  "shop_session mode permits refusals = \<lparr> sd_permit_policies = permits, sd_deny_policies = refusals,
     sd_access_mode = mode, sd_df_to_upstream = Map.empty, sd_datasource_id = 1, sd_datasource_name = ''shop'',
     sd_roles = [], sd_user_attributes = Map.empty, sd_attribute_defs = [],
     sd_relationship_snapshot = \<lparr> rs_relationships = [], rs_anchors = [], rs_columns_by_table = [] \<rparr> \<rparr>"

definition shop_scan :: "string \<Rightarrow> plan" where
  "shop_scan t = TableScan (bare t) [''id'', ''tenant'']"

definition shop_rows :: "table_ref \<Rightarrow> string list \<Rightarrow> row list" where
  "shop_rows r cs = map (\<lambda>(i, t). mk_row (tr_table r) [(''id'', SInt i), (''tenant'', SStr t)])
     [(1, ''acme''), (2, ''evil'')]"

definition run_in :: "hook_env \<Rightarrow> session_data \<Rightarrow> plan \<Rightarrow> row list option" where
  "run_in env session p =
     (case fst (apply_policies env session p (tenant_vars ''ann'' ''acme'') None Map.empty) of
        Inr (q, _, _) \<Rightarrow> Some (eval_over plain_sem shop_rows q)
      | Inl _ \<Rightarrow> None)"

abbreviation shop_run :: "session_data \<Rightarrow> plan \<Rightarrow> row list option" where
  "shop_run \<equiv> run_in shop_env"

lemma shop_laws: "df_laws (he_df shop_env)"
  by (simp add: shop_env_def plain_df_laws)

lemma shop_conforms: "conforms shop_env shop_rows (bare t) [''id'', ''tenant'']"
  by (auto simp: conforms_def shop_env_def plain_df_def shop_rows_def mk_row_def)

lemma shop_qualified: "qualified_scan shop_env (bare t) [''id'', ''tenant'']"
  by (simp add: qualified_scan_def shop_env_def plain_df_def)

section \<open>Columns\<close>

definition permitted_column :: "session_data \<Rightarrow> decision_eval option \<Rightarrow> table_key \<Rightarrow> string \<Rightarrow> bool" where
  "permitted_column session de k n \<longleftrightarrow>
     (\<forall>p \<in> set (active de ColumnDeny (sd_deny_policies session)). \<forall>pat \<in> entry_columns session p k. \<not> matches_pattern pat n) \<and>
     ((\<exists>p \<in> set (active de ColumnAllow (sd_permit_policies session)). entry_columns session p k \<noteq> {}) \<longrightarrow>
        (\<exists>p \<in> set (active de ColumnAllow (sd_permit_policies session)). \<exists>pat \<in> entry_columns session p k. matches_pattern pat n))"

lemma pattern_lookup:
  "(k, pat) \<in> patterns_of pats \<Longrightarrow> \<exists>ps. map_of pats k = Some ps \<and> pat \<in> set ps"
  by (cases "map_of pats k") (auto simp: patterns_of_def)

lemma visible_field_permitted:
  fixes env session plan vars de c
  defines "eff \<equiv> (final_effects env session plan vars de)\<lparr> pe_column_masks := [] \<rparr>"
  assumes "visible_field env eff c" "field_key env c \<in> set (collect_user_tables plan (he_default_schema env))"
  shows "permitted_column session de (field_key env c) (c_name c)"
proof -
  let ?ut = "collect_user_tables plan (he_default_schema env)"
  have deny: "pe_column_deny_patterns eff = pe_column_deny_patterns (collect env session ?ut vars de)"
    and allow: "pe_column_allow_patterns eff = pe_column_allow_patterns (collect env session ?ut vars de)"
    by (simp_all add: eff_def final_effects_def Let_def)
  have "\<not> matches_pattern pat (c_name c)"
    if "p \<in> set (active de ColumnDeny (sd_deny_policies session))" "pat \<in> entry_columns session p (field_key env c)" for p pat
  proof -
    have "(field_key env c, pat) \<in> patterns_of (pe_column_deny_patterns eff)"
      using that assms(3) by (auto simp: deny collect_deny_patterns)
    with assms(2) show ?thesis
      by (auto simp: visible_field_def dest!: pattern_lookup)
  qed
  moreover have "\<exists>p' \<in> set (active de ColumnAllow (sd_permit_policies session)).
      \<exists>pat \<in> entry_columns session p' (field_key env c). matches_pattern pat (c_name c)"
    if "p \<in> set (active de ColumnAllow (sd_permit_policies session))" "pat0 \<in> entry_columns session p (field_key env c)" for p pat0
  proof -
    have "(field_key env c, pat0) \<in> patterns_of (pe_column_allow_patterns eff)"
      using that assms(3) by (auto simp: allow collect_allow_patterns)
    then obtain ps where ps: "map_of (pe_column_allow_patterns eff) (field_key env c) = Some ps"
      by (auto dest!: pattern_lookup)
    with assms(2) obtain pat where pat: "pat \<in> set ps" "matches_pattern pat (c_name c)"
      by (auto simp: visible_field_def)
    with ps have "(field_key env c, pat) \<in> patterns_of (pe_column_allow_patterns eff)"
      by (simp add: patterns_of_def)
    with pat(2) show ?thesis by (auto simp: allow collect_allow_patterns)
  qed
  ultimately show ?thesis by (auto simp: permitted_column_def)
qed

section \<open>Properties\<close>

text \<open>
  C2. Enforcement refines the query: when policies let a query through, the plan that is executed
  computes, up to a final projection, exactly what the original query computes over the user's view of
  every table, whatever the operators above the scans are. (The query has no subqueries inside its
  expressions.)
\<close>

theorem enforced_query_sees_user_view:
  assumes "df_laws (he_df env)" "no_subqueries plan"
    and "apply_policies env session plan vars de cache = (Inr (plan', had, results), cache')"
  shows "\<exists>plan1.
    eval_over s S plan1 = eval_over s (user_view s S env (final_effects env session plan vars de)
       (sd_relationship_snapshot session) cache) plan \<and>
    (plan' = plan1 \<or> (\<exists>es. plan' = Projection es plan1))"
proof -
  define eff where "eff = final_effects env session plan vars de"
  obtain plan1 where plan1:
      "eval_over s S plan1 = eval_over s (user_view s S env eff (sd_relationship_snapshot session) cache) plan"
      "apply_projection_qualified env (eff\<lparr> pe_column_masks := [] \<rparr>) plan1 = Inr plan'"
    using enforced_plan [OF assms, of s S] unfolding eff_def by blast
  have "plan' = plan1 \<or> (\<exists>es. plan' = Projection es plan1)"
    using plan1(2) df_laws_simps(2) [OF assms(1)]
    by (auto simp: apply_projection_qualified_def Let_def split: if_splits)
  with plan1(1) show ?thesis by (auto simp: eff_def)
qed

theorem enforced_query_sees_user_view_witness:
  "\<exists>plan' had results cache'.
     apply_policies shop_env (shop_session ''open'' [tenant_filter] []) (SubqueryAlias ''o'' (shop_scan ''orders''))
       (tenant_vars ''ann'' ''acme'') None Map.empty = (Inr (plan', had, results), cache')
     \<and> eval_over plain_sem shop_rows plan' = [mk_row ''o'' [(''id'', SInt 1), (''tenant'', SStr ''acme'')]]
     \<and> (\<exists>plan1. eval_over plain_sem shop_rows plan1 =
           eval_over plain_sem (user_view plain_sem shop_rows shop_env
             (final_effects shop_env (shop_session ''open'' [tenant_filter] []) (SubqueryAlias ''o'' (shop_scan ''orders''))
                (tenant_vars ''ann'' ''acme'') None)
             (sd_relationship_snapshot (shop_session ''open'' [tenant_filter] [])) Map.empty)
             (SubqueryAlias ''o'' (shop_scan ''orders''))
           \<and> (plan' = plan1 \<or> (\<exists>es. plan' = Projection es plan1)))"
proof -
  let ?p = "SubqueryAlias ''o'' (shop_scan ''orders'')"
  let ?s = "shop_session ''open'' [tenant_filter] []"
  have "shop_run ?s ?p = Some [mk_row ''o'' [(''id'', SInt 1), (''tenant'', SStr ''acme'')]]"
    by code_simp
  then obtain q had res cache' where run:
      "apply_policies shop_env ?s ?p (tenant_vars ''ann'' ''acme'') None Map.empty = (Inr (q, had, res), cache')"
      "eval_over plain_sem shop_rows q = [mk_row ''o'' [(''id'', SInt 1), (''tenant'', SStr ''acme'')]]"
    by (cases "apply_policies shop_env ?s ?p (tenant_vars ''ann'' ''acme'') None Map.empty")
      (auto simp: run_in_def split: sum.splits)
  have "no_subqueries ?p" by (simp add: shop_scan_def)
  from enforced_query_sees_user_view [OF shop_laws this run(1), of plain_sem shop_rows] run show ?thesis
    by blast
qed

text \<open>
  C1. The user's view of a table contains only permitted rows: every row of the view is a row of the
  table, with masked columns replaced by their masks, that satisfies the filter of every row-filter
  policy that fires and matches the table; and when the data source requires a policy, there is a view
  at all only for tables some firing column-allow policy matches. (The policy's filter parses, and the combined
  filter of the table is local: it names no column that has to be resolved through an anchor.)
\<close>

theorem user_view_is_permitted:
  assumes "df_laws (he_df env)" "sem_laws s" "conforms env S r cs" "qualified_scan env r cs"
    and "k = scan_policy_key r (he_default_schema env)"
    and "k \<in> set (collect_user_tables plan (he_default_schema env))"
    and "\<forall>e. map_of (pe_row_filters (final_effects env session plan vars de)) k = Some e \<longrightarrow>
           local_filter (sd_relationship_snapshot session) k e"
    and "row' \<in> set (user_view s S env (final_effects env session plan vars de)
           (sd_relationship_snapshot session) cache r cs)"
  shows "\<exists>row \<in> set (S r cs). row' = masked_row s env (final_effects env session plan vars de) r cs row \<and>
    (\<forall>p \<in> set (active de RowFilter (sd_permit_policies session)).
       policy_matches session p k \<longrightarrow> (\<forall>e. policy_filter env vars p = Some e \<longrightarrow> holds s e row)) \<and>
    (sd_access_mode session = ''policy_required'' \<longrightarrow>
       (\<exists>p \<in> set (active de ColumnAllow (sd_permit_policies session)). policy_matches session p k))"
proof -
  let ?ut = "collect_user_tables plan (he_default_schema env)"
  define eff where "eff = final_effects env session plan vars de"
  obtain row where row: "row \<in> set (filtered_rows s S env eff (sd_relationship_snapshot session) cache r cs)"
      "row' = masked_row s env eff r cs row"
    using user_view_rows [OF assms(1-4), of row'] assms(8) unfolding eff_def by blast
  have "row \<in> set (S r cs)" and pass: "passes s (pe_row_filters eff) k row"
    using filtered_rows_pass [OF assms(1,2) _ row(1)] assms(5,7) by (auto simp: eff_def)
  moreover have "pe_row_filters eff = pe_row_filters (apply_access_mode (sd_access_mode session) ?ut
      (collect env session ?ut vars de))"
    by (simp add: eff_def final_effects_def Let_def)
  note passed = passes_access_mode [OF assms(2) pass [unfolded this]]
  ultimately show ?thesis
    using row(2) assms(6) passed collect_passes [OF assms(2)] collect_permits
    by (intro bexI [of _ row]) (auto simp: eff_def)
qed

theorem user_view_is_permitted_witness:
  "\<exists>row' \<in> set (user_view plain_sem shop_rows shop_env
       (final_effects shop_env (shop_session ''policy_required'' [tenant_filter, all_columns ''orders''] [])
          (shop_scan ''orders'') (tenant_vars ''ann'' ''acme'') None)
       (sd_relationship_snapshot (shop_session ''policy_required'' [tenant_filter, all_columns ''orders''] [])) Map.empty
       (bare ''orders'') [''id'', ''tenant'']).
     \<exists>row \<in> set (shop_rows (bare ''orders'') [''id'', ''tenant'']).
       row' = masked_row plain_sem shop_env (final_effects shop_env
          (shop_session ''policy_required'' [tenant_filter, all_columns ''orders''] [])
          (shop_scan ''orders'') (tenant_vars ''ann'' ''acme'') None) (bare ''orders'') [''id'', ''tenant''] row"
proof -
  let ?sess = "shop_session ''policy_required'' [tenant_filter, all_columns ''orders''] []"
  let ?eff = "final_effects shop_env ?sess (shop_scan ''orders'') (tenant_vars ''ann'' ''acme'') None"
  let ?row = "mk_row ''orders'' [(''id'', SInt 1), (''tenant'', SStr ''acme'')]"
  have in_view: "?row \<in> set (user_view plain_sem shop_rows shop_env ?eff (sd_relationship_snapshot ?sess) Map.empty
      (bare ''orders'') [''id'', ''tenant''])"
    by code_simp
  have tables: "(''public'', ''orders'') \<in> set (collect_user_tables (shop_scan ''orders'') (he_default_schema shop_env))"
    by code_simp
  have key: "(''public'', ''orders'') = scan_policy_key (bare ''orders'') (he_default_schema shop_env)"
    by code_simp
  have "\<forall>e. map_of (pe_row_filters ?eff) (''public'', ''orders'') = Some e \<longrightarrow>
      local_filter (sd_relationship_snapshot ?sess) (''public'', ''orders'') e"
    by (simp add: local_filter_def table_columns_def shop_session_def)
  from user_view_is_permitted [OF shop_laws plain_sem_laws shop_conforms shop_qualified key tables this in_view] in_view
  show ?thesis by blast
qed

text \<open>
  C4. Table deny is final: a query is refused with the name of the first table-deny policy that fires
  and matches one of the tables collected for it, and with that error only then, before anything of the query is
  planned or executed.
\<close>

theorem table_deny_refuses:
  "fst (apply_policies env session plan vars de cache) = Inl (DeniedByPolicy n) \<longleftrightarrow>
     (\<exists>p. find (denies session (collect_user_tables plan (he_default_schema env)) de) (sd_deny_policies session) = Some p
        \<and> rp_name p = n)"
proof -
  have other: "apply_column_mask_at_scan env eff p \<noteq> Inl (DeniedByPolicy n)"
    "apply_row_filters env eff snap ps dw p \<noteq> Inl (DeniedByPolicy n)"
    "apply_projection_qualified env eff p \<noteq> Inl (DeniedByPolicy n)" for eff p snap ps dw
    by (auto simp: apply_column_mask_at_scan_def apply_row_filters_def apply_projection_qualified_def Let_def
        map_err_Inl)
  show ?thesis
    by (cases "find (denies session (collect_user_tables plan (he_default_schema env)) de) (sd_deny_policies session)")
      (auto simp: apply_policies_def Let_def check_deny_collect bind_result_Inl other split_def)
qed

text \<open>
  C3. Column policies hold for the output: when a query is let through under column policies, each
  output column that belongs to a table matches none of the deny patterns that firing column-deny
  policies give for that table, and if firing column-allow policies give patterns for the table it
  matches one of them.
\<close>

theorem output_columns_are_permitted:
  assumes "df_laws (he_df env)"
    and "fst (apply_policies env session plan vars de cache) = Inr (plan', had, results)"
  shows "\<exists>plan1 cols.
    (plan' = plan1 \<and> cols = df_schema (he_df env) plan1 \<or> plan' = Projection (map (column_ref env) cols) plan1) \<and>
    set cols \<subseteq> set (df_schema (he_df env) plan1) \<and>
    (\<forall>c \<in> set cols. field_key env c \<in> set (collect_user_tables plan (he_default_schema env)) \<longrightarrow>
       permitted_column session de (field_key env c) (c_name c))"
proof -
  define eff where "eff = (final_effects env session plan vars de)\<lparr> pe_column_masks := [] \<rparr>"
  obtain plan1 where plan1: "apply_projection_qualified env eff plan1 = Inr plan'"
    using assms(2)
    by (auto simp: apply_policies_def final_effects_def eff_def Let_def split_def split: sum.splits)
  have visible: "permitted_column session de (field_key env c) (c_name c)"
    if "visible_field env eff c" "field_key env c \<in> set (collect_user_tables plan (he_default_schema env))" for c
    using visible_field_permitted [of env session plan vars de c] that by (simp add: eff_def)
  show ?thesis
  proof (cases "pe_column_allow_patterns eff = [] \<and> pe_column_deny_patterns eff = []")
    case True
    then have "visible_field env eff c" for c by (simp add: visible_field_def)
    with True plan1 visible show ?thesis
      by (auto simp: apply_projection_qualified_def)
  next
    case False
    have "projected_field env eff = column_ref env"
      by (simp add: fun_eq_iff projected_field_def eff_def)
    with False plan1 have
      "plan' = Projection (map (column_ref env) (filter (visible_field env eff) (df_schema (he_df env) plan1))) plan1"
      by (auto simp: apply_projection_qualified_def Let_def split: if_splits dest: df_laws_simps(2) [OF assms(1)])
    with visible show ?thesis
      by (intro exI [of _ plan1] exI [of _ "filter (visible_field env eff) (df_schema (he_df env) plan1)"]) auto
  qed
qed

definition no_tenant :: resolved_policy where
  "no_tenant = mk_policy 3 ''hide tenant'' ColumnDeny (on_table ''orders'' (Some [''ten*''])) None"

theorem output_columns_are_permitted_witness:
  "shop_run (shop_session ''open'' [] [no_tenant]) (shop_scan ''orders'') =
     Some [mk_row ''orders'' [(''id'', SInt 1)], mk_row ''orders'' [(''id'', SInt 2)]]
   \<and> (\<exists>plan' plan1 cols.
       (plan' = plan1 \<and> cols = df_schema (he_df shop_env) plan1 \<or> plan' = Projection (map (column_ref shop_env) cols) plan1) \<and>
       set cols \<subseteq> set (df_schema (he_df shop_env) plan1) \<and>
       (\<forall>c \<in> set cols. field_key shop_env c \<in> set (collect_user_tables (shop_scan ''orders'') (he_default_schema shop_env)) \<longrightarrow>
          permitted_column (shop_session ''open'' [] [no_tenant]) None (field_key shop_env c) (c_name c)))"
proof -
  let ?sess = "shop_session ''open'' [] [no_tenant]"
  have run: "shop_run ?sess (shop_scan ''orders'') =
      Some [mk_row ''orders'' [(''id'', SInt 1)], mk_row ''orders'' [(''id'', SInt 2)]]"
    by code_simp
  then obtain q had res where
      "fst (apply_policies shop_env ?sess (shop_scan ''orders'') (tenant_vars ''ann'' ''acme'') None Map.empty) = Inr (q, had, res)"
    by (auto simp: run_in_def split: sum.splits)
  from output_columns_are_permitted [OF shop_laws this] run show ?thesis by blast
qed

text \<open>
  A query is reported as rewritten whenever it was: if no effects are reported, the plan that is
  executed is the original one.
\<close>

theorem no_effects_no_change:
  assumes "fst (apply_policies env session plan vars de cache) = Inr (plan', False, results)"
  shows "plan' = plan"
  using assms
  by (auto simp: apply_policies_def Let_def has_effects_def split_def apply_column_mask_at_scan_def
      apply_row_filters_def apply_projection_qualified_def split: sum.splits)

theorem no_effects_no_change_witness:
  "\<exists>plan' results. fst (apply_policies shop_env (shop_session ''open'' [tenant_filter] []) (shop_scan ''customers'')
       (tenant_vars ''ann'' ''acme'') None Map.empty) = Inr (plan', False, results) \<and> plan' = shop_scan ''customers''"
proof -
  let ?run = "fst (apply_policies shop_env (shop_session ''open'' [tenant_filter] []) (shop_scan ''customers'')
       (tenant_vars ''ann'' ''acme'') None Map.empty)"
  have "(case ?run of Inr (_, had, _) \<Rightarrow> had = False | Inl _ \<Rightarrow> False)" by code_simp
  then obtain q res where "?run = Inr (q, False, res)" by (auto split: sum.splits)
  from this no_effects_no_change [OF this] show ?thesis by blast
qed

section \<open>Where enforcement ends\<close>

definition no_orders :: resolved_policy where
  "no_orders = mk_policy 4 ''no orders'' TableDeny (on_table ''orders'' None) None"

lemma collect_tables_without_subqueries: "collect_tables_inner (without_subqueries p) d = collect_tables_inner p d"
proof (induction p)
  case (Other k ps)
  then show ?case by (subst (1 2) collect_tables_inner.simps) (auto intro!: arg_cong [where f = concat])
qed (subst (1 2) collect_tables_inner.simps, simp)+

text \<open>
  C32. A subquery inside an expression (\<open>IN\<close>, \<open>EXISTS\<close>, scalar) escapes enforcement, since it is not an input of its
  node: the tables collected for a query, and with them everything the policies have to say about it, are those of
  the query without its expression subqueries, and in every enforced plan each such subquery stands as it stood in the
  query, with no filter, mask or check of its tables.
\<close>

theorem expression_subqueries_escape:
  assumes "df_laws (he_df env)" "fst (apply_policies env session plan vars de cache) = Inr (plan', had, results)"
  shows "set (expr_subqueries plan) \<subseteq> set (expr_subqueries plan') \<and>
    collect_user_tables plan d = collect_user_tables (without_subqueries plan) d \<and>
    final_effects env session plan vars de = final_effects env session (without_subqueries plan) vars de"
proof -
  have tables: "collect_user_tables (without_subqueries plan) d = collect_user_tables plan d" for d
    by (simp add: collect_user_tables_def collect_tables_without_subqueries)
  obtain eff snap ps dw p0 p1 where "rewrite_up (mask_scan env eff) plan = Inr p0"
    "rewrite_up (row_filter_scan env eff snap ps dw) p0 = Inr p1"
    and proj: "apply_projection_qualified env (eff\<lparr> pe_column_masks := [] \<rparr>) p1 = Inr plan'"
    using assms(2)
    by (auto simp: apply_policies_def Let_def apply_column_mask_at_scan_eq [OF assms(1)] apply_row_filters_eq [OF assms(1)]
        split_def split: sum.splits)
  then have "set (expr_subqueries plan) \<subseteq> set (expr_subqueries p1)"
    using masks.keeps_expr_subqueries row_filters.keeps_expr_subqueries by blast
  moreover have "expr_subqueries plan' = expr_subqueries p1"
    using proj by (auto simp: apply_projection_qualified_def Let_def split: if_splits dest!: df_laws_simps(2) [OF assms(1)])
  ultimately show ?thesis by (simp add: tables final_effects_def)
qed

text \<open>The rows of the other tenant come out through the subquery, and denying the table altogether does not stop the query.\<close>

theorem expression_subqueries_escape_witness:
  "\<exists>plan' had results. fst (apply_policies shop_env (shop_session ''open'' [tenant_filter] [no_orders])
       (WithSubqueries ''exists'' [shop_scan ''orders''] (shop_scan ''regions'')) (tenant_vars ''ann'' ''acme'') None Map.empty) =
     Inr (plan', had, results) \<and> shop_scan ''orders'' \<in> set (expr_subqueries plan') \<and>
     eval_over plain_sem shop_rows plan' = shop_rows (bare ''regions'') [] @ shop_rows (bare ''orders'') [] \<and>
     shop_run (shop_session ''open'' [tenant_filter] [no_orders]) (shop_scan ''orders'') = None"
proof -
  let ?s = "shop_session ''open'' [tenant_filter] [no_orders]"
  let ?p = "WithSubqueries ''exists'' [shop_scan ''orders''] (shop_scan ''regions'')"
  have runs: "shop_run ?s ?p = Some (shop_rows (bare ''regions'') [] @ shop_rows (bare ''orders'') [])"
    "shop_run ?s (shop_scan ''orders'') = None" by code_simp+
  then obtain q had res where q: "fst (apply_policies shop_env ?s ?p (tenant_vars ''ann'' ''acme'') None Map.empty) = Inr (q, had, res)"
      "eval_over plain_sem shop_rows q = shop_rows (bare ''regions'') [] @ shop_rows (bare ''orders'') []"
    by (auto simp: run_in_def split: sum.splits)
  from expression_subqueries_escape [OF shop_laws q(1)] q runs(2) show ?thesis by auto
qed

text \<open>Column deny matches the qualifier of an output column, so an alias of the table hides it.\<close>

lemma alias_escapes_column_deny:
  "shop_run (shop_session ''open'' [] [no_tenant]) (SubqueryAlias ''o'' (shop_scan ''orders'')) =
     Some (shop_rows (bare ''o'') [])"
  by code_simp

definition mask_env :: hook_env where
  "mask_env = shop_env\<lparr> he_lib := tenant_lib\<lparr> el_parse := \<lambda>_. Inr (Value (SingleQuotedString ''***'')) \<rparr> \<rparr>"

definition mask_tenant :: resolved_policy where
  "mask_tenant = mk_policy 5 ''mask tenant'' ColumnMask (on_table ''orders'' (Some [''tenant'']))
     (Some (JObject [(''mask_expression'', JString ''stars'')]))"





text \<open>Masks sit below the rest of the query: a condition of the query sees the masked value, not the raw one.\<close>

lemma conditions_see_masked_values:
  "run_in mask_env (shop_session ''open'' [mask_tenant] [])
     (Filter (BinaryExpr OpEq (Col (unqualified ''tenant'')) (Lit (SStr ''evil''))) (shop_scan ''orders'')) = Some []"
  by code_simp

definition pg_filter :: resolved_policy where
  "pg_filter = tenant_filter\<lparr> rp_targets := [on_table ''*'' None] \<rparr>"

text \<open>
  A table of the application whose name starts like a system table gets no policies at all, even
  where the data source requires one.
\<close>

theorem pg_prefix_escapes_policies:
  "shop_run (shop_session ''policy_required'' [pg_filter] []) (shop_scan ''pg_orders'') = Some (shop_rows (bare ''pg_orders'') [])
   \<and> shop_run (shop_session ''policy_required'' [pg_filter] []) (shop_scan ''orders'') = Some []"
  by (intro conjI) code_simp+

text \<open>A row filter whose expression does not parse is left out, and the table is not filtered.\<close>

lemma unparsable_filter_is_dropped:
  "shop_run (shop_session ''open'' [tenant_filter\<lparr> rp_definition :=
       Some (JObject [(''filter_expression'', JString ''tenant ='')]) \<rparr>] []) (shop_scan ''orders'') =
     Some (shop_rows (bare ''orders'') [])"
  by code_simp

end
