(* ===== verification/QueryHooks.thy ===== *)
theory QueryHooks
  imports PolicySession DecisionContext Enforcement
begin

text \<open>
  The way of a statement through the proxy: the hooks (\<open>hooks/mod.rs\<close>, \<open>hooks/read_only.rs\<close>, the query hook
  of \<open>hooks/policy.rs\<close>), the compatibility rewrite (\<open>engine/rewrite.rs\<close>) and the two query handlers
  (\<open>handler.rs\<close>).

  A parsed statement is seen through the nodes the code matches on: its kind, the table factors and the
  function names a visitor reaches. Parsing, printing, planning, executing and encoding are the fields of
  \<open>query_env\<close>; data frames and responses are type variables. Audit rows are written by spawned tasks: the
  model lists the rows handed to them.
\<close>

section \<open>Statements\<close>

datatype name_part = Identifier string | FunctionPart string

datatype table_factor = Table "name_part list" bool | OtherFactor

datatype statement_kind = Query | ShowVariable | ExplainTable | Explain | ShowTables | ShowColumns | OtherStatement string

record sql_statement =
  st_kind :: statement_kind
  st_table_factors :: "table_factor list"
  st_functions :: "name_part list list"
  st_rest :: string

definition is_allowed_statement :: "sql_statement \<Rightarrow> bool" where
  "is_allowed_statement st \<longleftrightarrow>
     (case st_kind st of
        Query \<Rightarrow> True | ShowVariable \<Rightarrow> True | ExplainTable \<Rightarrow> True | Explain \<Rightarrow> True
      | ShowTables \<Rightarrow> True | ShowColumns \<Rightarrow> True | OtherStatement _ \<Rightarrow> False)"

fun system_factor :: "table_factor \<Rightarrow> bool" where
  "system_factor (Table (Identifier schema # _ # _) _) \<longleftrightarrow> to_lowercase schema \<in> set SYSTEM_SCHEMAS"
| "system_factor (Table _ _) \<longleftrightarrow> False"
| "system_factor OtherFactor \<longleftrightarrow> True"

definition is_system_only_statement :: "sql_statement \<Rightarrow> bool" where
  "is_system_only_statement st \<longleftrightarrow>
     \<not> fold (\<lambda>tf has_user_table. has_user_table \<or> \<not> system_factor tf) (st_table_factors st) False"

fun rewrite_factor :: "table_factor \<Rightarrow> table_factor" where
  "rewrite_factor (Table [Identifier n] False) =
     (if starts_with n ''pg_'' then Table [Identifier ''pg_catalog'', Identifier n] False else Table [Identifier n] False)"
| "rewrite_factor tf = tf"

definition rewrite_function :: "name_part list \<Rightarrow> name_part list" where
  "rewrite_function name = (if length name > 1 then [last name] else name)"

definition rewrite_statement :: "sql_statement \<Rightarrow> sql_statement" where
  "rewrite_statement st =
     st\<lparr> st_table_factors := map rewrite_factor (st_table_factors st), st_functions := map rewrite_function (st_functions st) \<rparr>"

section \<open>Errors, audit rows and the environment\<close>

datatype pg_error = UserError string string string | ApiError string | InvalidPassword string

definition into_pgwire_error :: "policy_error \<Rightarrow> pg_error" where
  "into_pgwire_error e =
     (case e of
        DeniedByPolicy policy_name \<Rightarrow> UserError ''ERROR'' ''42501'' (''Access denied by policy '' @ sq policy_name)
      | AllColumnsDenied cols \<Rightarrow>
          UserError ''ERROR'' ''42501''
            (''Access denied: column'' @ (if length cols = 1 then '''' else ''s'') @ '' '' @ join '', '' cols @ '' restricted by policy'')
      | PlanTransformation msg \<Rightarrow> ApiError msg)"

record query_audit_row =
  qa_user_id :: uuid
  qa_username :: string
  qa_data_source_id :: uuid
  qa_datasource_name :: string
  qa_original_query :: string
  qa_rewritten_query :: "string option"
  qa_policies_applied :: string
  qa_execution_time_ms :: "int option"
  qa_client_ip :: "string option"
  qa_client_info :: "string option"
  qa_status :: string
  qa_error_message :: "string option"

type_synonym metadata = "string \<rightharpoonup> string"

record ('d, 'r) query_env =
  qe_hook :: hook_env
  qe_session :: session_lib
  qe_wasm :: "string \<Rightarrow> json \<Rightarrow> json \<Rightarrow> nat \<Rightarrow> string \<Rightarrow> (string, decision_result) result"
  qe_parse_uuid :: "string \<Rightarrow> uuid option"
  qe_keys :: "attributes \<Rightarrow> string list"
  qe_clock :: clock
  qe_elapsed_ms :: int
  qe_show :: "sql_statement \<Rightarrow> string"
  qe_plan :: "sql_statement \<Rightarrow> (df_error, plan) result"
  qe_unparse :: "plan \<Rightarrow> (df_error, string) result"
  qe_execute :: "plan \<Rightarrow> (df_error, 'd) result"
  qe_encode :: "'d \<Rightarrow> (pg_error, 'r) result"
  qe_error_text :: "pg_error \<Rightarrow> string"

text \<open>The world of the hooks: sessions, databases and time, and the audit rows written so far.\<close>

record query_world =
  qw_hook :: hook_world
  qw_audit :: "query_audit_row list"

type_synonym 'r handled = "(pg_error, 'r) result"

section \<open>The read-only hook\<close>

definition read_only_handle_query :: "sql_statement \<Rightarrow> query_world \<Rightarrow> 'r handled option \<times> query_world" where
  "read_only_handle_query st w =
     (if is_allowed_statement st then (None, w)
      else (Some (Inl (UserError ''ERROR'' ''25006'' ''only read-only queries are allowed'')), w))"

section \<open>The policy hook\<close>

definition request_session ::
  "('d, 'r) query_env \<Rightarrow> session_key \<Rightarrow> query_world \<Rightarrow> (string, cache_entry) result \<times> query_world" where
  "request_session env key w =
     (let (r, cache) = ask (qe_session env) key (qw_hook w) in (r, w\<lparr> qw_hook := (qw_hook w)\<lparr> hw_cache := cache \<rparr> \<rparr>))"

definition spawn_audit :: "query_audit_row \<Rightarrow> query_world \<Rightarrow> query_world" where
  "spawn_audit row w = w\<lparr> qw_audit := qw_audit w @ [row] \<rparr>"

definition audit_write_rejected ::
  "('d, 'r) query_env \<Rightarrow> metadata \<Rightarrow> sql_statement \<Rightarrow> query_world \<Rightarrow> query_world" where
  "audit_write_rejected env md st w =
     (case md ''user_id'' of
        None \<Rightarrow> w
      | Some user_id_str \<Rightarrow>
          (case qe_parse_uuid env user_id_str of
             None \<Rightarrow> w
           | Some user_id \<Rightarrow>
               (case request_session env (user_id, unwrap_or (md ''datasource'') '''') w of
                  (Inl _, w) \<Rightarrow> w
                | (Inr s, w) \<Rightarrow> spawn_audit
                    \<lparr> qa_user_id = user_id, qa_username = unwrap_or (md ''user'') '''',
                      qa_data_source_id = sd_datasource_id (ce_session s),
                      qa_datasource_name = sd_datasource_name (ce_session s), qa_original_query = qe_show env st,
                      qa_rewritten_query = None, qa_policies_applied = ''[]'', qa_execution_time_ms = None,
                      qa_client_ip = None, qa_client_info = md ''application_name'', qa_status = ''denied'',
                      qa_error_message = Some ''Only read-only queries are allowed'' \<rparr> w)))"

record 'r query_outcome =
  qo_result :: "'r handled"
  qo_status :: string
  qo_error :: "string option"
  qo_rewritten :: "string option"
  qo_decisions :: decision_results

definition policy_failure :: "policy_error \<Rightarrow> 'r query_outcome" where
  "policy_failure e =
     (let (status, msg) =
        (case e of
           DeniedByPolicy policy_name \<Rightarrow> (''denied'', ''Access denied by policy '' @ sq policy_name)
         | AllColumnsDenied cols \<Rightarrow>
             (''denied'', ''Column'' @ (if length cols = 1 then '''' else ''s'') @ '' '' @ join '', '' cols @ '' restricted by policy'')
         | PlanTransformation inner \<Rightarrow> (''error'', inner))
      in \<lparr> qo_result = Inl (into_pgwire_error e), qo_status = status, qo_error = Some msg, qo_rewritten = None,
           qo_decisions = Map.empty \<rparr>)"

definition rewritten_text :: "('d, 'r) query_env \<Rightarrow> sql_statement \<Rightarrow> bool \<Rightarrow> plan \<Rightarrow> string option" where
  "rewritten_text env st had_effects final_plan =
     (if had_effects
      then (case qe_unparse env final_plan of
              Inr sql \<Rightarrow> Some sql
            | Inl _ \<Rightarrow> Some (''/* plan-to-sql failed */ '' @ qe_show env st))
      else None)"

definition run_plan ::
  "('d, 'r) query_env \<Rightarrow> plan \<Rightarrow> string option \<Rightarrow> decision_results \<Rightarrow> 'r query_outcome" where
  "run_plan env final_plan rewritten_query decision_results =
     (case qe_execute env final_plan of
        Inl e \<Rightarrow> \<lparr> qo_result = Inl (ApiError e), qo_status = ''error'', qo_error = Some e,
                   qo_rewritten = rewritten_query, qo_decisions = decision_results \<rparr>
      | Inr df \<Rightarrow>
          (case qe_encode env df of
             Inl e \<Rightarrow> \<lparr> qo_result = Inl e, qo_status = ''error'', qo_error = Some (qe_error_text env e),
                        qo_rewritten = rewritten_query, qo_decisions = decision_results \<rparr>
           | Inr response \<Rightarrow> \<lparr> qo_result = Inr response, qo_status = ''success'', qo_error = None,
                               qo_rewritten = rewritten_query, qo_decisions = decision_results \<rparr>))"

definition session_info_of :: "('d, 'r) query_env \<Rightarrow> uuid \<Rightarrow> string \<Rightarrow> session_data \<Rightarrow> session_info" where
  "session_info_of env user_id username session =
     (let resolved_attrs = resolve_user_attribute_defaults (sd_user_attributes session) (sd_attribute_defs session)
      in \<lparr> si_user_id = sl_show_uuid (qe_session env) user_id, si_username = username, si_roles = sd_roles session,
           si_datasource_name = sd_datasource_name session, si_access_mode = sd_access_mode session,
           si_attributes = json_attributes (he_lib (qe_hook env)) (qe_keys env resolved_attrs) resolved_attrs \<rparr>)"

definition decision_eval_of ::
  "('d, 'r) query_env \<Rightarrow> uuid \<Rightarrow> string \<Rightarrow> session_data \<Rightarrow> plan \<Rightarrow> decision_eval" where
  "decision_eval_of env user_id username session logical_plan =
     (let query_meta = extract_query_metadata (he_df (qe_hook env)) logical_plan (he_default_schema (qe_hook env))
            (sd_datasource_name session)
      in \<lparr> de_evaluate_bytes = qe_wasm env,
           de_decision_ctx = build_query_context (qe_clock env) (session_info_of env user_id username session) query_meta \<rparr>)"

definition user_vars_of :: "('d, 'r) query_env \<Rightarrow> uuid \<Rightarrow> string \<Rightarrow> session_data \<Rightarrow> user_vars" where
  "user_vars_of env user_id username session =
     \<lparr> uv_username = username, uv_user_id = sl_show_uuid (qe_session env) user_id,
       uv_attributes = sd_user_attributes session, uv_attribute_defs = sd_attribute_defs session \<rparr>"

definition run_query ::
  "('d, 'r) query_env \<Rightarrow> uuid \<Rightarrow> string \<Rightarrow> sql_statement \<Rightarrow> cache_entry \<Rightarrow> 'r query_outcome \<times> parent_cache" where
  "run_query env user_id username st s =
     (case qe_plan env st of
        Inl e \<Rightarrow> (\<lparr> qo_result = Inl (ApiError e), qo_status = ''error'', qo_error = Some e, qo_rewritten = None,
                    qo_decisions = Map.empty \<rparr>, ce_parent_scans_cache s)
      | Inr logical_plan \<Rightarrow>
          (case apply_policies (qe_hook env) (ce_session s) logical_plan (user_vars_of env user_id username (ce_session s))
                  (Some (decision_eval_of env user_id username (ce_session s) logical_plan)) (ce_parent_scans_cache s) of
             (Inl e, parents) \<Rightarrow> (policy_failure e, parents)
           | (Inr (final_plan, had_effects, decision_results), parents) \<Rightarrow>
               (run_plan env final_plan (rewritten_text env st had_effects final_plan) decision_results, parents)))"

definition policy_entry :: "session_lib \<Rightarrow> decision_results \<Rightarrow> resolved_policy \<Rightarrow> json" where
  "policy_entry lib results p =
     (let entry = [(''policy_id'', JString (sl_show_uuid lib (rp_id p))), (''version'', JInt (rp_version p)),
                   (''name'', JString (rp_name p))]
      in JObject (case results (rp_id p) of
           None \<Rightarrow> entry
         | Some dr \<Rightarrow> entry @ [(''decision'', JObject
             [(''result'', JObject [(''fire'', JBool (dr_fire dr)), (''fuel_consumed'', JInt (int (dr_fuel_consumed dr))),
                 (''time_us'', JInt (int (dr_time_us dr)))]),
              (''logs'', json_strings (dr_logs dr)),
              (''error'', case dr_error dr of None \<Rightarrow> JNull | Some e \<Rightarrow> JString e)])]))"

definition query_audit ::
  "('d, 'r) query_env \<Rightarrow> metadata \<Rightarrow> uuid \<Rightarrow> sql_statement \<Rightarrow> session_data \<Rightarrow> 'r query_outcome \<Rightarrow> query_audit_row" where
  "query_audit env md user_id st session out =
     \<lparr> qa_user_id = user_id, qa_username = unwrap_or (md ''user'') '''', qa_data_source_id = sd_datasource_id session,
       qa_datasource_name = sd_datasource_name session, qa_original_query = qe_show env st,
       qa_rewritten_query = qo_rewritten out,
       qa_policies_applied = sl_show_json (qe_session env) (JArray (map (policy_entry (qe_session env) (qo_decisions out))
         (sd_permit_policies session @ sd_deny_policies session))),
       qa_execution_time_ms = Some (qe_elapsed_ms env), qa_client_ip = None, qa_client_info = md ''application_name'',
       qa_status = qo_status out, qa_error_message = qo_error out \<rparr>"

text \<open>The parent scans a query materialised stay with its cache entry.\<close>

definition store_parents :: "session_key \<Rightarrow> cache_entry \<Rightarrow> parent_cache \<Rightarrow> query_world \<Rightarrow> query_world" where
  "store_parents key s parents w =
     (let h = qw_hook w in
      w\<lparr> qw_hook := h\<lparr> hw_cache := (hw_cache h)(key \<mapsto> s\<lparr> ce_parent_scans_cache := parents \<rparr>) \<rparr> \<rparr>)"

definition policy_handle_query ::
  "('d, 'r) query_env \<Rightarrow> metadata \<Rightarrow> sql_statement \<Rightarrow> query_world \<Rightarrow> 'r handled option \<times> query_world" where
  "policy_handle_query env md st w =
     (if st_kind st \<noteq> Query
      then (None, if is_allowed_statement st then w else audit_write_rejected env md st w)
      else if is_system_only_statement st then (None, w)
      else case md ''user_id'' of
        None \<Rightarrow> (None, w)
      | Some user_id_str \<Rightarrow>
          (case qe_parse_uuid env user_id_str of
             None \<Rightarrow> (Some (Inl (UserError ''ERROR'' ''28000'' ''Invalid user_id in connection metadata'')), w)
           | Some user_id \<Rightarrow>
               (let username = unwrap_or (md ''user'') ''''; key = (user_id, unwrap_or (md ''datasource'') '''') in
                case request_session env key w of
                  (Inl e, w) \<Rightarrow> (Some (Inl (ApiError e)), w)
                | (Inr s, w) \<Rightarrow>
                    (let (out, parents) = run_query env user_id username st s
                     in (Some (qo_result out),
                         spawn_audit (query_audit env md user_id st (ce_session s) out) (store_parents key s parents w))))))"

section \<open>The hook pipeline and the query handlers\<close>

type_synonym 'r hook = "metadata \<Rightarrow> sql_statement \<Rightarrow> query_world \<Rightarrow> 'r handled option \<times> query_world"

fun run_hooks :: "'r hook list \<Rightarrow> metadata \<Rightarrow> sql_statement \<Rightarrow> query_world \<Rightarrow> 'r handled option \<times> query_world" where
  "run_hooks [] md st w = (None, w)"
| "run_hooks (hook # hooks) md st w =
     (case hook md st w of
        (Some response, w) \<Rightarrow> (Some response, w)
      | (None, w) \<Rightarrow> run_hooks hooks md st w)"

definition proxy_hooks :: "('d, 'r) query_env \<Rightarrow> 'r hook list" where
  "proxy_hooks env = [policy_handle_query env, \<lambda>md. read_only_handle_query]"

section \<open>What the hooks let through\<close>

lemma is_system_only_iff: "is_system_only_statement st \<longleftrightarrow> list_all system_factor (st_table_factors st)"
proof -
  have "fold (\<lambda>tf b. b \<or> \<not> system_factor tf) tfs b \<longleftrightarrow> b \<or> \<not> list_all system_factor tfs" for tfs b
    by (induction tfs arbitrary: b) auto
  then show ?thesis by (simp add: is_system_only_statement_def)
qed

text \<open>
  The contract of a hook: the statements it never passes on. A pipeline with such a hook answers them,
  whatever the other hooks do.
\<close>

locale query_hook =
  fixes handle :: "'r hook"
    and guards :: "metadata \<Rightarrow> sql_statement \<Rightarrow> bool"
  assumes guarded: "guards md st \<Longrightarrow> fst (handle md st w) \<noteq> None"
begin

lemma pipeline_guards: "handle \<in> set hooks \<Longrightarrow> guards md st \<Longrightarrow> fst (run_hooks hooks md st w) \<noteq> None"
proof (induction hooks arbitrary: w)
  case (Cons hook hooks)
  obtain r w' where run: "hook md st w = (r, w')" by fastforce
  show ?case
  proof (cases r)
    case None
    with run guarded [OF Cons.prems(2), of w] have "hook \<noteq> handle" by auto
    with None run Cons show ?thesis by simp
  qed (simp add: run)
qed simp

end

definition enforced_statement :: "metadata \<Rightarrow> sql_statement \<Rightarrow> bool" where
  "enforced_statement md st \<longleftrightarrow> st_kind st = Query \<and> \<not> is_system_only_statement st \<and> md ''user_id'' \<noteq> None"

interpretation read_only: query_hook "\<lambda>md. read_only_handle_query" "\<lambda>md st. \<not> is_allowed_statement st"
  by unfold_locales (simp add: read_only_handle_query_def)

interpretation policy: query_hook "policy_handle_query env" enforced_statement for env
  by unfold_locales
    (auto simp: policy_handle_query_def enforced_statement_def Let_def split: option.split prod.split sum.split)

lemma policy_hook_passes: "\<not> enforced_statement md st \<Longrightarrow> fst (policy_handle_query env md st w) = None"
  by (auto simp: policy_handle_query_def enforced_statement_def)

lemma run_hooks_None_iff:
  "fst (run_hooks (proxy_hooks env) md st w) = None \<longleftrightarrow> is_allowed_statement st \<and> \<not> enforced_statement md st"
proof
  assume "fst (run_hooks (proxy_hooks env) md st w) = None"
  then show "is_allowed_statement st \<and> \<not> enforced_statement md st"
    using read_only.pipeline_guards [of "proxy_hooks env" st md w] policy.pipeline_guards [of env "proxy_hooks env" md st w]
    by (auto simp: proxy_hooks_def)
next
  assume "is_allowed_statement st \<and> \<not> enforced_statement md st"
  then show "fst (run_hooks (proxy_hooks env) md st w) = None"
    using policy_hook_passes [of md st env w]
    by (cases "policy_handle_query env md st w") (simp add: proxy_hooks_def read_only_handle_query_def)
qed

lemma enforced_allowed: "enforced_statement md st \<Longrightarrow> is_allowed_statement st"
  by (simp add: enforced_statement_def is_allowed_statement_def)

lemma run_hooks_enforced:
  "enforced_statement md st \<Longrightarrow> run_hooks (proxy_hooks env) md st w = policy_handle_query env md st w"
  using policy.guarded [of md st env w]
  by (cases "policy_handle_query env md st w") (auto simp: proxy_hooks_def)

lemma run_hooks_write:
  "\<not> is_allowed_statement st \<Longrightarrow> run_hooks (proxy_hooks env) md st w =
     (Some (Inl (UserError ''ERROR'' ''25006'' ''only read-only queries are allowed'')), audit_write_rejected env md st w)"
  by (auto simp: proxy_hooks_def policy_handle_query_def read_only_handle_query_def is_allowed_statement_def
      split: statement_kind.splits)

text \<open>The session the policy hook works with.\<close>

definition hook_key :: "metadata \<Rightarrow> uuid \<Rightarrow> session_key" where
  "hook_key md user_id = (user_id, unwrap_or (md ''datasource'') '''')"

lemma policy_hook_answer:
  assumes "enforced_statement md st" "qe_parse_uuid env (the (md ''user_id'')) = Some user_id"
    and "request_session env (hook_key md user_id) w = (Inr s, w1)"
    and "run_query env user_id (unwrap_or (md ''user'') '''') st s = (out, parents)"
  shows "policy_handle_query env md st w = (Some (qo_result out),
     spawn_audit (query_audit env md user_id st (ce_session s) out) (store_parents (hook_key md user_id) s parents w1))"
  using assms by (auto simp: policy_handle_query_def enforced_statement_def hook_key_def Let_def)

lemma policy_hook_ok:
  assumes "policy_handle_query env md st w = (Some (Inr response), w')"
  obtains user_id s w1 out parents where "enforced_statement md st"
    "qe_parse_uuid env (the (md ''user_id'')) = Some user_id"
    "request_session env (hook_key md user_id) w = (Inr s, w1)"
    "run_query env user_id (unwrap_or (md ''user'') '''') st s = (out, parents)" "qo_result out = Inr response"
proof -
  have enf: "enforced_statement md st" using assms policy_hook_passes [of md st env w] by fastforce
  then obtain uid_str where uid_str: "md ''user_id'' = Some uid_str" by (auto simp: enforced_statement_def)
  obtain user_id where uid: "qe_parse_uuid env uid_str = Some user_id"
    using assms enf uid_str by (cases "qe_parse_uuid env uid_str") (auto simp: policy_handle_query_def enforced_statement_def)
  obtain r w1 where r: "request_session env (hook_key md user_id) w = (r, w1)" by fastforce
  obtain s where s: "r = Inr s"
    using assms enf uid_str uid r
    by (cases r) (auto simp: policy_handle_query_def enforced_statement_def hook_key_def Let_def)
  obtain out parents where out: "run_query env user_id (unwrap_or (md ''user'') '''') st s = (out, parents)" by fastforce
  have "qo_result out = Inr response"
    using policy_hook_answer [OF enf _ _ out, of w w1] assms uid uid_str r s by simp
  with enf uid uid_str r s out show thesis by (intro that [of user_id s w1 out parents]) simp_all
qed

lemma run_query_ok:
  assumes "run_query env user_id username st s = (out, parents)" "qo_result out = Inr response"
  obtains plan final_plan had results df where "qe_plan env st = Inr plan"
    "apply_policies (qe_hook env) (ce_session s) plan (user_vars_of env user_id username (ce_session s))
       (Some (decision_eval_of env user_id username (ce_session s) plan)) (ce_parent_scans_cache s) =
       (Inr (final_plan, had, results), parents)"
    "qe_execute env final_plan = Inr df" "qe_encode env df = Inr response"
  using assms
  by (auto simp: run_query_def run_plan_def policy_failure_def Let_def
      split: sum.splits prod.splits policy_error.splits intro: that)

lemma policy_failure_outcome:
  "qo_status (policy_failure e :: 'r query_outcome) \<noteq> ''success'' \<and> qo_result (policy_failure e :: 'r query_outcome) = Inl (into_pgwire_error e) \<and>
   (qo_status (policy_failure e :: 'r query_outcome) = ''denied'' \<longrightarrow> (\<exists>msg. into_pgwire_error e = UserError ''ERROR'' ''42501'' msg))"
  by (cases e) (simp_all add: policy_failure_def into_pgwire_error_def)

lemma run_plan_outcome:
  "(qo_status (run_plan env p rw dr) = ''success'' \<longleftrightarrow> (\<exists>response. qo_result (run_plan env p rw dr) = Inr response)) \<and>
   qo_status (run_plan env p rw dr) \<noteq> ''denied''"
  by (simp add: run_plan_def split: sum.split)

lemma run_query_outcome:
  assumes "run_query env user_id username st s = (out, parents)"
  shows "(qo_status out = ''success'' \<longleftrightarrow> (\<exists>response. qo_result out = Inr response)) \<and>
    (qo_status out = ''denied'' \<longrightarrow> (\<exists>msg. qo_result out = Inl (UserError ''ERROR'' ''42501'' msg)))"
  using assms policy_failure_outcome run_plan_outcome
  by (fastforce simp: run_query_def split: sum.splits prod.splits)

section \<open>Deny policies from the database to the answer\<close>

lemma load_policies_member:
  assumes "load_policies lib (open_conn d) cat bs = Inr ps"
    and "r \<in> set (t_policy d)" "po_is_enabled r" "po_id r \<in> pa_policy_id ` set bs" "from_str (po_policy_type r) = Inr t"
    and "po_decision_function_id r = None"
  shows "\<exists>p \<in> set ps. rp_name p = po_name r \<and> rp_policy_type p = t \<and>
     rp_targets p = unwrap_or (sl_targets lib (po_targets r)) [] \<and> rp_decision_function p = None"
proof -
  from assms obtain df_map where
    ps: "ps = List.map_filter (resolve_policy lib df_map (priority_map bs Map.empty))
       (filter (\<lambda>p. po_id p \<in> pa_policy_id ` set bs \<and> po_is_enabled p) (t_policy d))"
    by (auto simp: load_policies_def Let_def split: sum.splits if_splits)
  have "\<exists>p. resolve_policy lib df_map (priority_map bs Map.empty) r = Some p \<and> rp_name p = po_name r \<and>
      rp_policy_type p = t \<and> rp_targets p = unwrap_or (sl_targets lib (po_targets r)) [] \<and> rp_decision_function p = None"
    using assms(5,6) by (simp add: resolve_policy_def resolve_decision_function_def)
  with assms(2-4) show ?thesis unfolding ps set_map_filter by auto
qed

lemma load_session_deny_member:
  assumes "load_session lib (open_conn d) cat u name = Inr s" "applicable d u (sd_datasource_id s) a"
    and "r \<in> set (t_policy d)" "po_is_enabled r" "pa_policy_id a = po_id r" "from_str (po_policy_type r) = Inr TableDeny"
    and "po_decision_function_id r = None" "sl_targets lib (po_targets r) = Some ts"
  shows "\<exists>p \<in> set (sd_deny_policies s). rp_policy_type p = TableDeny \<and> rp_targets p = ts \<and> rp_decision_function p = None"
proof -
  from assms(1) obtain ds :: data_source_row and bs ps where
    *: "resolve_effective_assignments (open_conn d) u (ds_id ds) = Inr bs"
    "load_policies lib (open_conn d) cat bs = Inr ps" "sd_datasource_id s = ds_id ds"
    "sd_deny_policies s = sort_key rp_priority (filter (\<lambda>p. is_deny (rp_policy_type p)) ps)"
    by (rule load_session_parts)
  obtain bs' where "resolve_effective_assignments (open_conn d) u (ds_id ds) = Inr bs'"
      "best_inv {a. applicable d u (ds_id ds) a} bs'"
    by (rule resolve_effective_assignments_total)
  with *(1) have "best_inv {a. applicable d u (ds_id ds) a} bs" by simp
  with assms(2) *(3) obtain b where "b \<in> set bs" "pa_policy_id b = pa_policy_id a"
    unfolding best_inv_def by auto
  with assms(5) have "po_id r \<in> pa_policy_id ` set bs" by force
  from load_policies_member [OF *(2) assms(3,4) this assms(6,7)] assms(8)
  show ?thesis unfolding *(4) by auto
qed

lemma fires_without_function: "rp_decision_function p = None \<Longrightarrow> fires de p"
  by (simp add: fires_def evaluate_decision_fn_def)

lemma apply_policies_denied:
  assumes "p \<in> set (sd_deny_policies session)" "denies session (collect_user_tables plan (he_default_schema env)) de p"
  shows "\<exists>q \<in> set (sd_deny_policies session). denies session (collect_user_tables plan (he_default_schema env)) de q \<and>
    apply_policies env session plan vars de cache = (Inl (DeniedByPolicy (rp_name q)), cache)"
proof -
  let ?d = "denies session (collect_user_tables plan (he_default_schema env)) de"
  obtain q where q: "find ?d (sd_deny_policies session) = Some q"
    using assms by (cases "find ?d (sd_deny_policies session)") (auto simp: find_None_iff)
  then have "q \<in> set (sd_deny_policies session)" "?d q" by (auto simp: find_Some_iff)
  with q show ?thesis by (auto simp: apply_policies_def check_deny_collect Let_def)
qed

section \<open>Properties\<close>

text \<open>C5. Complete mediation: the hooks pass a statement on unanswered exactly when it is on the read-only list
  and is not a query of an identified user that names a table outside the system schemas. When they answer with
  a result, that result is the encoding of the plan which the policies of the user's session produced from the
  query.\<close>

theorem answers_come_from_enforced_plans:
  "(fst (run_hooks (proxy_hooks env) md st w) = None \<longleftrightarrow>
     is_allowed_statement st \<and>
     \<not> (st_kind st = Query \<and> list_ex (\<lambda>tf. \<not> system_factor tf) (st_table_factors st) \<and> md ''user_id'' \<noteq> None)) \<and>
   (fst (run_hooks (proxy_hooks env) md st w) = Some (Inr response) \<longrightarrow>
     (\<exists>user_id s plan plan' had results parents df.
        qe_parse_uuid env (the (md ''user_id'')) = Some user_id \<and>
        fst (ask (qe_session env) (hook_key md user_id) (qw_hook w)) = Inr s \<and>
        qe_plan env st = Inr plan \<and>
        apply_policies (qe_hook env) (ce_session s) plan (user_vars_of env user_id (unwrap_or (md ''user'') '''') (ce_session s))
          (Some (decision_eval_of env user_id (unwrap_or (md ''user'') '''') (ce_session s) plan)) (ce_parent_scans_cache s)
          = (Inr (plan', had, results), parents) \<and>
        qe_execute env plan' = Inr df \<and> qe_encode env df = Inr response))"
proof (intro conjI impI)
  show "fst (run_hooks (proxy_hooks env) md st w) = None \<longleftrightarrow> is_allowed_statement st \<and>
     \<not> (st_kind st = Query \<and> list_ex (\<lambda>tf. \<not> system_factor tf) (st_table_factors st) \<and> md ''user_id'' \<noteq> None)"
    unfolding run_hooks_None_iff enforced_statement_def is_system_only_iff by (auto simp: list_all_iff list_ex_iff)
next
  assume ok: "fst (run_hooks (proxy_hooks env) md st w) = Some (Inr response)"
  have "is_allowed_statement st" using ok run_hooks_write [of st env md w] by fastforce
  then have "enforced_statement md st" using ok run_hooks_None_iff [of env md st w] by fastforce
  with ok obtain w' where "policy_handle_query env md st w = (Some (Inr response), w')"
    by (metis run_hooks_enforced prod.collapse)
  then obtain user_id s w1 out parents where *: "qe_parse_uuid env (the (md ''user_id'')) = Some user_id"
    "request_session env (hook_key md user_id) w = (Inr s, w1)"
    "run_query env user_id (unwrap_or (md ''user'') '''') st s = (out, parents)" "qo_result out = Inr response"
    by (rule policy_hook_ok)
  have "fst (ask (qe_session env) (hook_key md user_id) (qw_hook w)) = Inr s"
    using *(2) by (auto simp: request_session_def split: prod.splits)
  with * show "\<exists>user_id s plan plan' had results parents df.
        qe_parse_uuid env (the (md ''user_id'')) = Some user_id \<and>
        fst (ask (qe_session env) (hook_key md user_id) (qw_hook w)) = Inr s \<and>
        qe_plan env st = Inr plan \<and>
        apply_policies (qe_hook env) (ce_session s) plan (user_vars_of env user_id (unwrap_or (md ''user'') '''') (ce_session s))
          (Some (decision_eval_of env user_id (unwrap_or (md ''user'') '''') (ce_session s) plan)) (ce_parent_scans_cache s)
          = (Inr (plan', had, results), parents) \<and>
        qe_execute env plan' = Inr df \<and> qe_encode env df = Inr response"
    using run_query_ok [OF *(3,4)] by metis
qed

text \<open>C6. A table-deny policy that is enabled in the database, has no decision function and is assigned to the user
  on the data source, directly, to everyone or through any role the user effectively has, stops every query
  that plans and scans a table its targets match outside the subqueries in its expressions, once the session served
  is the one loaded from that database: the client gets the insufficient-privilege error that names a denying policy.\<close>

theorem assigned_table_deny_stops_query:
  assumes "load_session (qe_session env) (open_conn d) cat user_id ds = Inr (ce_session s)"
    and "fst (ask (qe_session env) (user_id, ds) (qw_hook w)) = Inr s"
    and "r \<in> set (t_policy d)" "po_is_enabled r" "from_str (po_policy_type r) = Inr TableDeny"
    and "po_decision_function_id r = None" "sl_targets (qe_session env) (po_targets r) = Some ts"
    and "applicable d user_id (sd_datasource_id (ce_session s)) a" "pa_policy_id a = po_id r"
    and "qe_plan env st = Inr plan" "k \<in> set (collect_user_tables plan (he_default_schema (qe_hook env)))"
    and "list_ex (entry_matches (ce_session s) k) ts"
    and "st_kind st = Query" "\<not> is_system_only_statement st"
    and "md ''user_id'' = Some uid_str" "qe_parse_uuid env uid_str = Some user_id" "md ''datasource'' = Some ds"
  shows "\<exists>q \<in> set (sd_deny_policies (ce_session s)). rp_policy_type q = TableDeny \<and>
     fst (run_hooks (proxy_hooks env) md st w) = Some (Inl (UserError ''ERROR'' ''42501'' (''Access denied by policy '' @ sq (rp_name q))))"
proof -
  let ?s = "ce_session s"
  let ?de = "Some (decision_eval_of env user_id (unwrap_or (md ''user'') '''') ?s plan)"
  obtain p where p: "p \<in> set (sd_deny_policies ?s)" "rp_policy_type p = TableDeny" "rp_targets p = ts" "rp_decision_function p = None"
    using load_session_deny_member [OF assms(1,8,3,4,9,5,6,7)] by blast
  have "denies ?s (collect_user_tables plan (he_default_schema (qe_hook env))) ?de p"
    using p assms(11,12) fires_without_function [of p ?de] unfolding denies_def policy_matches_def by blast
  from apply_policies_denied [OF p(1) this]
  obtain q where q: "q \<in> set (sd_deny_policies ?s)" "rp_policy_type q = TableDeny"
    "apply_policies (qe_hook env) ?s plan (user_vars_of env user_id (unwrap_or (md ''user'') '''') ?s) ?de (ce_parent_scans_cache s)
       = (Inl (DeniedByPolicy (rp_name q)), ce_parent_scans_cache s)"
    unfolding denies_def by blast
  have enf: "enforced_statement md st" using assms(13-15) by (simp add: enforced_statement_def)
  obtain w1 where w1: "request_session env (hook_key md user_id) w = (Inr s, w1)"
    using assms(2,17) by (cases "ask (qe_session env) (user_id, ds) (qw_hook w)") (simp add: request_session_def hook_key_def)
  have out: "run_query env user_id (unwrap_or (md ''user'') '''') st s = (policy_failure (DeniedByPolicy (rp_name q)), ce_parent_scans_cache s)"
    using q(3) assms(10) by (simp add: run_query_def)
  have "fst (policy_handle_query env md st w) =
      Some (Inl (UserError ''ERROR'' ''42501'' (''Access denied by policy '' @ sq (rp_name q))))"
    using policy_hook_answer [OF enf _ w1 out] assms(15,16) by (simp add: policy_failure_outcome into_pgwire_error_def)
  with q(1,2) show ?thesis unfolding run_hooks_enforced [OF enf] by blast
qed

text \<open>C36. Every statement that an identified user with a loadable session sends through the hooks and that is not
  passed on leaves exactly one audit row with the user, the statement and the outcome: the status is success exactly
  when the client gets a result, and a refusal by policy or of a write is recorded as denied.\<close>

theorem every_handled_statement_is_audited:
  assumes "run_hooks (proxy_hooks env) md st w = (Some r, w')"
    and "md ''user_id'' = Some uid_str" "qe_parse_uuid env uid_str = Some user_id"
    and "fst (ask (qe_session env) (hook_key md user_id) (qw_hook w)) = Inr s"
  shows "\<exists>row. qw_audit w' = qw_audit w @ [row] \<and> qa_user_id row = user_id \<and>
     qa_data_source_id row = sd_datasource_id (ce_session s) \<and> qa_original_query row = qe_show env st \<and>
     (qa_status row = ''success'' \<longleftrightarrow> (\<exists>response. r = Inr response)) \<and>
     (\<not> is_allowed_statement st \<longrightarrow> qa_status row = ''denied'') \<and>
     (qa_status row = ''denied'' \<longrightarrow> (\<exists>code msg. r = Inl (UserError ''ERROR'' code msg) \<and> code \<in> {''25006'', ''42501''}))"
proof -
  obtain w1 where w1: "request_session env (hook_key md user_id) w = (Inr s, w1)" "qw_audit w1 = qw_audit w"
    using assms(4) by (cases "ask (qe_session env) (hook_key md user_id) (qw_hook w)") (simp add: request_session_def)
  show ?thesis
  proof (cases "is_allowed_statement st")
    case False
    have "w' = audit_write_rejected env md st w" and r: "r = Inl (UserError ''ERROR'' ''25006'' ''only read-only queries are allowed'')"
      using assms(1) run_hooks_write [OF False, of env md w] by simp_all
    then have "qw_audit w' = qw_audit w @ [\<lparr> qa_user_id = user_id, qa_username = unwrap_or (md ''user'') '''',
        qa_data_source_id = sd_datasource_id (ce_session s), qa_datasource_name = sd_datasource_name (ce_session s),
        qa_original_query = qe_show env st, qa_rewritten_query = None, qa_policies_applied = ''[]'',
        qa_execution_time_ms = None, qa_client_ip = None, qa_client_info = md ''application_name'', qa_status = ''denied'',
        qa_error_message = Some ''Only read-only queries are allowed'' \<rparr>]"
      using w1 assms(2,3) by (simp add: audit_write_rejected_def hook_key_def spawn_audit_def)
    then show ?thesis using False r by simp
  next
    case True
    then have enf: "enforced_statement md st" using assms(1) run_hooks_None_iff [of env md st w] by fastforce
    obtain out parents where out: "run_query env user_id (unwrap_or (md ''user'') '''') st s = (out, parents)" by fastforce
    have run: "r = qo_result out" "w' = spawn_audit (query_audit env md user_id st (ce_session s) out)
        (store_parents (hook_key md user_id) s parents w1)"
      using assms(1) policy_hook_answer [OF enf _ w1(1) out] assms(2,3) run_hooks_enforced [OF enf, of env w] by simp_all
    have rows: "qw_audit w' = qw_audit w @ [query_audit env md user_id st (ce_session s) out]"
      using w1(2) by (simp add: run spawn_audit_def store_parents_def Let_def)
    show ?thesis
      using True run_query_outcome [OF out]
      by (intro exI [of _ "query_audit env md user_id st (ce_session s) out"]) (simp add: rows query_audit_def run(1), blast)
  qed
qed

section \<open>Witnesses\<close>

text \<open>A data source whose policy 50 denies the table of orders to a role that user 100 inherits.\<close>

definition desk_policy :: policy_row where
  "desk_policy = (hd (t_policy session_db))\<lparr> po_name := ''no orders'', po_policy_type := ''table_deny'', po_targets := ''orders'' \<rparr>"

definition desk_db :: admin_db where
  "desk_db = session_db\<lparr> t_policy := [desk_policy],
     t_policy_assignment := filter (\<lambda>a. pa_assignment_scope a = ''role'') (t_policy_assignment session_db) \<rparr>"

definition desk_env :: "(row list, row list) query_env" where
  "desk_env =
     \<lparr> qe_hook = shop_env,
       qe_session = plain_session_lib\<lparr> sl_targets := \<lambda>s. if s = ''orders'' then Some [on_table ''orders'' None] else None \<rparr>,
       qe_wasm = (\<lambda>_ _ _ _ _. Inl ''none''), qe_parse_uuid = (\<lambda>s. if s = ''u100'' then Some 100 else None),
       qe_keys = (\<lambda>_. []), qe_clock = \<lparr> ck_now = '''', ck_hour = ''09'', ck_day_of_week = ''Monday'' \<rparr>, qe_elapsed_ms = 3,
       qe_show = st_rest, qe_plan = (\<lambda>st. Inr (shop_scan (st_rest st))), qe_unparse = (\<lambda>_. Inl ''none''),
       qe_execute = (\<lambda>p. Inr (eval_over plain_sem shop_rows p)), qe_encode = Inr, qe_error_text = (\<lambda>_. '''') \<rparr>"

definition desk_client :: metadata where
  "desk_client = [''user_id'' \<mapsto> ''u100'', ''user'' \<mapsto> ''ann'', ''datasource'' \<mapsto> ''crm'']"

definition desk_query :: "string \<Rightarrow> sql_statement" where
  "desk_query t = \<lparr> st_kind = Query, st_table_factors = [Table [Identifier t] False], st_functions = [], st_rest = t \<rparr>"

definition desk_world :: query_world where
  "desk_world = \<lparr> qw_hook = sample_hook\<lparr> hw_db := open_conn desk_db \<rparr>, qw_audit = [] \<rparr>"

lemma desk_session:
  obtains s where "load_session (qe_session desk_env) (open_conn desk_db) (open_catalog session_catalog) 100 ''crm'' = Inr (ce_session s)"
    "fst (ask (qe_session desk_env) (100, ''crm'') (qw_hook desk_world)) = Inr s"
    "applicable desk_db 100 (sd_datasource_id (ce_session s)) (t_policy_assignment sample_db ! 1)"
    "list_ex (entry_matches (ce_session s) (''public'', ''orders'')) [on_table ''orders'' None]"
proof -
  let ?load = "load_session (qe_session desk_env) (open_conn desk_db) (open_catalog session_catalog) 100 ''crm''"
  have ok: "case ?load of Inr s \<Rightarrow> sd_datasource_id s = 7 \<and> list_ex (entry_matches s (''public'', ''orders'')) [on_table ''orders'' None]
     | Inl _ \<Rightarrow> False"
    by code_simp
  then obtain s where s: "?load = Inr s" by (auto split: sum.splits)
  have roles: "map_sum id set (resolve_user_roles (open_conn desk_db) 100) = Inr {1, 2, 3}" by code_simp
  obtain rs where "resolve_user_roles (open_conn desk_db) 100 = Inr rs" "set rs = effective_roles desk_db 100"
    by (rule resolve_user_roles_total)
  with roles have "3 \<in> effective_roles desk_db 100" by auto
  then have "applicable desk_db 100 7 (t_policy_assignment sample_db ! 1)"
    by (simp add: applicable_def desk_db_def session_db_def sample_db_def)
  moreover have "fst (ask (qe_session desk_env) (100, ''crm'') (qw_hook desk_world)) =
      Inr \<lparr> ce_session = s, ce_parent_scans_cache = Map.empty, ce_loaded_at = 5 \<rparr>"
    using s by (simp add: ask_def get_session_def live_entry_def load_now_def desk_world_def sample_hook_def Let_def)
  ultimately show thesis
    using s ok by (intro that [of "\<lparr> ce_session = s, ce_parent_scans_cache = Map.empty, ce_loaded_at = 5 \<rparr>"]) simp_all
qed

lemma desk_answers:
  "fst (run_hooks (proxy_hooks desk_env) desk_client (desk_query ''customers'') desk_world) = Some (Inr (shop_rows (bare ''customers'') []))"
proof -
  let ?load = "load_session (qe_session desk_env) (open_conn desk_db) (open_catalog session_catalog) 100 ''crm''"
  let ?e = "\<lambda>s. \<lparr> ce_session = s, ce_parent_scans_cache = Map.empty, ce_loaded_at = 5 \<rparr>"
  have ok: "case ?load of Inr s \<Rightarrow> qo_result (fst (run_query desk_env 100 ''ann'' (desk_query ''customers'') (?e s)))
       = Inr (shop_rows (bare ''customers'') []) | Inl _ \<Rightarrow> False"
    by code_simp
  then obtain s where s: "?load = Inr s" by (auto split: sum.splits)
  obtain w1 where w1: "request_session desk_env (hook_key desk_client 100) desk_world = (Inr (?e s), w1)"
    using s by (simp add: request_session_def hook_key_def desk_client_def ask_def get_session_def live_entry_def
      load_now_def desk_world_def sample_hook_def Let_def)
  obtain out parents where out: "run_query desk_env 100 (unwrap_or (desk_client ''user'') '''') (desk_query ''customers'') (?e s) = (out, parents)"
    by fastforce
  have res: "qo_result out = Inr (shop_rows (bare ''customers'') [])" using ok s out by (simp add: desk_client_def)
  have enf: "enforced_statement desk_client (desk_query ''customers'')" by code_simp
  have uid: "qe_parse_uuid desk_env (the (desk_client ''user_id'')) = Some 100" by code_simp
  show ?thesis unfolding run_hooks_enforced [OF enf] policy_hook_answer [OF enf uid w1 out] by (simp add: res)
qed

theorem answers_come_from_enforced_plans_witness:
  "fst (run_hooks (proxy_hooks desk_env) desk_client (desk_query ''customers'') desk_world) = Some (Inr (shop_rows (bare ''customers'') [])) \<and>
   (\<exists>user_id s plan plan' had results parents df.
      qe_parse_uuid desk_env (the (desk_client ''user_id'')) = Some user_id \<and>
      fst (ask (qe_session desk_env) (hook_key desk_client user_id) (qw_hook desk_world)) = Inr s \<and>
      qe_plan desk_env (desk_query ''customers'') = Inr plan \<and>
      apply_policies (qe_hook desk_env) (ce_session s) plan
        (user_vars_of desk_env user_id (unwrap_or (desk_client ''user'') '''') (ce_session s))
        (Some (decision_eval_of desk_env user_id (unwrap_or (desk_client ''user'') '''') (ce_session s) plan)) (ce_parent_scans_cache s)
        = (Inr (plan', had, results), parents) \<and>
      qe_execute desk_env plan' = Inr df \<and> qe_encode desk_env df = Inr (shop_rows (bare ''customers'') []))"
  using desk_answers answers_come_from_enforced_plans
    [of desk_env desk_client "desk_query ''customers''" desk_world "shop_rows (bare ''customers'') []"] by blast

theorem assigned_table_deny_stops_query_witness:
  "\<exists>s. fst (ask (qe_session desk_env) (100, ''crm'') (qw_hook desk_world)) = Inr s \<and>
     (\<exists>q \<in> set (sd_deny_policies (ce_session s)). rp_policy_type q = TableDeny \<and>
        fst (run_hooks (proxy_hooks desk_env) desk_client (desk_query ''orders'') desk_world) =
          Some (Inl (UserError ''ERROR'' ''42501'' (''Access denied by policy '' @ sq (rp_name q)))))"
proof -
  obtain s where s: "load_session (qe_session desk_env) (open_conn desk_db) (open_catalog session_catalog) 100 ''crm'' = Inr (ce_session s)"
    "fst (ask (qe_session desk_env) (100, ''crm'') (qw_hook desk_world)) = Inr s"
    "applicable desk_db 100 (sd_datasource_id (ce_session s)) (t_policy_assignment sample_db ! 1)"
    "list_ex (entry_matches (ce_session s) (''public'', ''orders'')) [on_table ''orders'' None]"
    by (rule desk_session)
  have policy: "desk_policy \<in> set (t_policy desk_db)" "po_is_enabled desk_policy" "from_str (po_policy_type desk_policy) = Inr TableDeny"
    "po_decision_function_id desk_policy = None" "sl_targets (qe_session desk_env) (po_targets desk_policy) = Some [on_table ''orders'' None]"
    "pa_policy_id (t_policy_assignment sample_db ! 1) = po_id desk_policy"
    by (simp_all add: desk_db_def desk_policy_def session_db_def desk_env_def sample_db_def from_str_def)
  have query: "qe_plan desk_env (desk_query ''orders'') = Inr (shop_scan ''orders'')"
    "(''public'', ''orders'') \<in> set (collect_user_tables (shop_scan ''orders'') (he_default_schema (qe_hook desk_env)))"
    "st_kind (desk_query ''orders'') = Query" "\<not> is_system_only_statement (desk_query ''orders'')"
    "desk_client ''user_id'' = Some ''u100''" "qe_parse_uuid desk_env ''u100'' = Some 100" "desk_client ''datasource'' = Some ''crm''"
    by code_simp+
  show ?thesis
    using assigned_table_deny_stops_query [OF s(1,2) policy(1-5) s(3) policy(6) query(1,2) s(4) query(3-7)] s(2) by blast
qed

theorem every_handled_statement_is_audited_witness:
  "\<exists>w' row. run_hooks (proxy_hooks desk_env) desk_client (desk_query ''customers'') desk_world =
       (Some (Inr (shop_rows (bare ''customers'') [])), w') \<and>
     qw_audit w' = qw_audit desk_world @ [row] \<and> qa_user_id row = 100 \<and> qa_status row = ''success''"
proof -
  obtain s where s: "fst (ask (qe_session desk_env) (100, ''crm'') (qw_hook desk_world)) = Inr s"
    by (rule desk_session)
  obtain w' where run: "run_hooks (proxy_hooks desk_env) desk_client (desk_query ''customers'') desk_world =
       (Some (Inr (shop_rows (bare ''customers'') [])), w')"
    using desk_answers by (metis prod.collapse)
  have client: "desk_client ''user_id'' = Some ''u100''" "qe_parse_uuid desk_env ''u100'' = Some 100"
    "hook_key desk_client 100 = (100, ''crm'')" by code_simp+
  have s': "fst (ask (qe_session desk_env) (hook_key desk_client 100) (qw_hook desk_world)) = Inr s" using s client by simp
  from every_handled_statement_is_audited [OF run client(1,2) s'] run show ?thesis by auto
qed

end
