(* ===== verification/Connections.thy ===== *)
theory Connections
  imports QueryHooks
begin

text \<open>
  Connections of the proxy: password checks (\<open>auth.rs\<close>), the checks of a data source at connection time
  (\<open>engine/mod.rs\<close>), the table of connection contexts and the startup and query handlers (\<open>handler.rs\<close>),
  with the accept loop of \<open>main.rs\<close> as a step relation over many clients.

  The password hash functions, the protocol messages and the engine behind a context are parameters; a
  context itself is a type variable. A rebuild of contexts spawns one task per connection; a task runs to its end in
  one step, at any time after it was spawned and in any order with the other tasks and the clients.
\<close>

abbreviation em_dash :: string where
  "em_dash \<equiv> [CHR 0xE2, CHR 0x80, CHR 0x94]"

section \<open>Passwords\<close>

record auth_env =
  ae_parse_hash :: "string \<Rightarrow> (string, string) result"
  ae_verify :: "string \<Rightarrow> string \<Rightarrow> bool"
  ae_now :: datetime

datatype auth_api_error = NotFound | InvalidApiPassword | Inactive | DbError db_err | HashError string

definition find_login :: "conn \<Rightarrow> string \<Rightarrow> (db_err, proxy_user_row option) result" where
  "find_login db username = bind_result (q_proxy_user db) (\<lambda>users. Inr (find (\<lambda>u. pu_username u = username) users))"

definition touch_login :: "auth_env \<Rightarrow> uuid \<Rightarrow> admin_db \<Rightarrow> admin_db" where
  "touch_login ae i d =
     d\<lparr> t_proxy_user := map (\<lambda>u. if pu_id u = i then u\<lparr> pu_last_login_at := Some (ae_now ae) \<rparr> else u) (t_proxy_user d) \<rparr>"

text \<open>The argument after the connection is the outcome of the update of the login time.\<close>

definition authenticate_for_api ::
  "auth_env \<Rightarrow> conn \<Rightarrow> (db_err, unit) result \<Rightarrow> string \<Rightarrow> string \<Rightarrow> admin_db \<Rightarrow> (auth_api_error, proxy_user_row) result \<times> admin_db" where
  "authenticate_for_api ae db upd username password d =
     (case bind_result (map_err DbError (find_login db username)) (\<lambda>found.
           bind_result (ok_or found NotFound) (\<lambda>user.
           if \<not> pu_is_active user then Inl Inactive
           else bind_result (map_err HashError (ae_parse_hash ae (pu_password_hash user))) (\<lambda>hash.
             if ae_verify ae password hash then Inr user else Inl InvalidApiPassword))) of
        Inl e \<Rightarrow> (Inl e, d)
      | Inr user \<Rightarrow> (case upd of Inl e \<Rightarrow> (Inl (DbError e), d) | Inr _ \<Rightarrow> (Inr user, touch_login ae (pu_id user) d)))"

definition authenticate ::
  "auth_env \<Rightarrow> conn \<Rightarrow> (db_err, unit) result \<Rightarrow> string \<Rightarrow> string \<Rightarrow> admin_db \<Rightarrow> (pg_error, proxy_user_row) result \<times> admin_db" where
  "authenticate ae db upd username password d =
     (case bind_result (map_err ApiError (find_login db username)) (\<lambda>found.
           bind_result (ok_or found (InvalidPassword username)) (\<lambda>user.
           if \<not> pu_is_active user then Inl (InvalidPassword username)
           else bind_result (map_err ApiError (ae_parse_hash ae (pu_password_hash user))) (\<lambda>hash.
             if ae_verify ae password hash then Inr user else Inl (InvalidPassword username)))) of
        Inl e \<Rightarrow> (Inl e, d)
      | Inr user \<Rightarrow> (case upd of Inl e \<Rightarrow> (Inl (ApiError e), d) | Inr _ \<Rightarrow> (Inr user, touch_login ae (pu_id user) d)))"

section \<open>Data sources at connection time\<close>

definition validate_data_source :: "conn \<Rightarrow> string \<Rightarrow> (string, unit) result" where
  "validate_data_source db name =
     bind_result (map_err (\<lambda>e. ''DB error: '' @ e) (q_data_source db)) (\<lambda>sources.
       case find (\<lambda>d. ds_name d = name) sources of
         Some m \<Rightarrow> if ds_is_active m then Inr () else Inl (''Data source '' @ sq name @ '' is inactive'')
       | None \<Rightarrow> Inl (''Data source '' @ sq name @ '' not found''))"

definition check_access :: "conn \<Rightarrow> uuid \<Rightarrow> string \<Rightarrow> (string, bool) result" where
  "check_access db user_id datasource_name =
     bind_result (map_err (\<lambda>e. ''DB error: '' @ e) (q_data_source db)) (\<lambda>sources.
       case find (\<lambda>d. ds_name d = datasource_name \<and> ds_is_active d) sources of
         None \<Rightarrow> Inr False
       | Some ds \<Rightarrow> map_err (\<lambda>e. ''DB error: '' @ e) (resolve_datasource_access db user_id (ds_id ds)))"

section \<open>The table of contexts\<close>

type_synonym conn_id = "64 word"

record 'c connection_entry =
  cn_ctx :: 'c
  cn_user_id :: uuid
  cn_datasource_name :: string

record 'c conn_store =
  cs_connection_contexts :: "(conn_id \<times> 'c connection_entry) list"
  cs_pending_conn_ids :: "string \<rightharpoonup> conn_id"
  cs_next_connection_id :: conn_id

definition conn_store_new :: "'c conn_store" where
  "conn_store_new = \<lparr> cs_connection_contexts = [], cs_pending_conn_ids = Map.empty, cs_next_connection_id = 0 \<rparr>"

definition alloc_connection_id :: "'c conn_store \<Rightarrow> conn_id \<times> 'c conn_store" where
  "alloc_connection_id s = (cs_next_connection_id s, s\<lparr> cs_next_connection_id := cs_next_connection_id s + 1 \<rparr>)"

definition register_connection :: "string \<Rightarrow> 'c conn_store \<Rightarrow> conn_id \<times> 'c conn_store" where
  "register_connection peer_addr s =
     (let conn_id = cs_next_connection_id s in
      (conn_id, s\<lparr> cs_next_connection_id := cs_next_connection_id s + 1,
                  cs_pending_conn_ids := (cs_pending_conn_ids s)(peer_addr \<mapsto> conn_id) \<rparr>))"

definition cleanup_connection :: "conn_id \<Rightarrow> string option \<Rightarrow> 'c conn_store \<Rightarrow> 'c conn_store" where
  "cleanup_connection conn_id peer_addr s =
     s\<lparr> cs_connection_contexts := AList.delete conn_id (cs_connection_contexts s),
        cs_pending_conn_ids := (case peer_addr of None \<Rightarrow> cs_pending_conn_ids s | Some a \<Rightarrow> (cs_pending_conn_ids s)(a := None)) \<rparr>"

type_synonym 'c context_builder = "uuid \<Rightarrow> string \<Rightarrow> (string, 'c) result"

type_synonym rebuild_task = "conn_id \<times> uuid \<times> string"

text \<open>The body of a task, with the outcome of the build of the context at the time it runs.\<close>

definition rebuild_entry :: "'c context_builder \<Rightarrow> rebuild_task \<Rightarrow> 'c conn_store \<Rightarrow> 'c conn_store" where
  "rebuild_entry build = (\<lambda>(conn_id, user_id, ds_name) s.
     case build user_id ds_name of
       Inr new_ctx \<Rightarrow>
         s\<lparr> cs_connection_contexts := AList.map_entry conn_id (\<lambda>e. e\<lparr> cn_ctx := new_ctx \<rparr>) (cs_connection_contexts s) \<rparr>
     | Inl _ \<Rightarrow> s\<lparr> cs_connection_contexts := AList.delete conn_id (cs_connection_contexts s) \<rparr>)"

text \<open>The tasks a rebuild spawns: one for each connection of the data source or of the user at that moment.\<close>

definition rebuild_where :: "('c connection_entry \<Rightarrow> bool) \<Rightarrow> 'c conn_store \<Rightarrow> rebuild_task list" where
  "rebuild_where P s =
     map (\<lambda>(i, e). (i, cn_user_id e, cn_datasource_name e)) (filter (\<lambda>(_, e). P e) (cs_connection_contexts s))"

definition rebuild_contexts_for_datasource :: "string \<Rightarrow> 'c conn_store \<Rightarrow> rebuild_task list" where
  "rebuild_contexts_for_datasource datasource = rebuild_where (\<lambda>e. cn_datasource_name e = datasource)"

definition rebuild_contexts_for_user :: "uuid \<Rightarrow> 'c conn_store \<Rightarrow> rebuild_task list" where
  "rebuild_contexts_for_user user_id = rebuild_where (\<lambda>e. cn_user_id e = user_id)"

abbreviation parse_u64 :: "string \<Rightarrow> nat option" where
  "parse_u64 \<equiv> parse_uint 64"

definition get_ctx :: "metadata \<Rightarrow> 'c conn_store \<Rightarrow> (pg_error, 'c) result" where
  "get_ctx md s =
     (let conn_id_str = unwrap_or (md ''conn_id'') '''' in
      if conn_id_str = [] then Inl (UserError ''ERROR'' ''08000'' (''Connection not initialized '' @ em_dash @ '' authentication may have failed''))
      else bind_result (ok_or (parse_u64 conn_id_str) (ApiError ''Invalid conn_id in metadata'')) (\<lambda>conn_id.
        ok_or (map_option cn_ctx (map_of (cs_connection_contexts s) (of_nat conn_id)))
          (UserError ''ERROR'' ''08000'' (''Session context not found '' @ em_dash @ '' please reconnect''))))"

section \<open>Startup\<close>

record 'c startup_env =
  su_auth :: auth_env
  su_build :: "'c context_builder"
  su_show_uuid :: "uuid \<Rightarrow> string"
  su_finish :: "(pg_error, unit) result"

definition admit ::
  "'c startup_env \<Rightarrow> conn \<Rightarrow> proxy_user_row \<Rightarrow> string \<Rightarrow> metadata \<Rightarrow> 'c conn_store \<Rightarrow> (pg_error, unit) result \<times> metadata \<times> 'c conn_store" where
  "admit env db user peer_addr md s =
     (let md = md(''user_id'' \<mapsto> su_show_uuid env (pu_id user));
          datasource_name = unwrap_or (md ''database'') '''' in
      if datasource_name = [] then
        (Inl (UserError ''FATAL'' ''08006'' (''No database specified '' @ em_dash @ '' use -d <datasource_name> in your connection string'')), md, s)
      else case validate_data_source db datasource_name of
        Inl e \<Rightarrow> (Inl (UserError ''FATAL'' ''3D000'' e), md, s)
      | Inr _ \<Rightarrow>
      (case check_access db (pu_id user) datasource_name of
        Inl e \<Rightarrow> (Inl (ApiError e), md, s)
      | Inr allowed \<Rightarrow>
      (if \<not> allowed then (Inl (UserError ''FATAL'' ''42501'' (''Access denied to data source '' @ sq datasource_name)), md, s)
       else
       (let md = md(''datasource'' \<mapsto> datasource_name) in
        case cs_pending_conn_ids s peer_addr of
          None \<Rightarrow> (Inl (ApiError (''Connection ID not found '' @ em_dash @ '' internal error'')), md, s)
        | Some conn_id \<Rightarrow>
            (let s = s\<lparr> cs_pending_conn_ids := (cs_pending_conn_ids s)(peer_addr := None) \<rparr> in
             case su_build env (pu_id user) datasource_name of
               Inl e \<Rightarrow> (Inl (ApiError e), md, s)
             | Inr ctx \<Rightarrow>
                 (su_finish env, md(''conn_id'' \<mapsto> show_nat (unat conn_id)),
                  s\<lparr> cs_connection_contexts := AList.update conn_id
                       \<lparr> cn_ctx = ctx, cn_user_id = pu_id user, cn_datasource_name = datasource_name \<rparr>
                       (cs_connection_contexts s) \<rparr>))))))"

definition on_password ::
  "'c startup_env \<Rightarrow> conn \<Rightarrow> (db_err, unit) result \<Rightarrow> string \<Rightarrow> string \<Rightarrow> metadata \<Rightarrow> 'c conn_store \<Rightarrow> admin_db
    \<Rightarrow> (pg_error, unit) result \<times> metadata \<times> 'c conn_store \<times> admin_db" where
  "on_password env db upd peer_addr password md s d =
     (let username = unwrap_or (md ''user'') '''' in
      case authenticate (su_auth env) db upd username password d of
        (Inl e, d) \<Rightarrow> (Inl e, md, s, d)
      | (Inr user, d) \<Rightarrow> (case admit env db user peer_addr md s of (r, md, s) \<Rightarrow> (r, md, s, d)))"

section \<open>Queries\<close>

record explain_batch =
  eb_num_columns :: nat
  eb_plan :: "string option list option"

record ('c, 'd, 'r) handler_env =
  hn_parse :: "string \<Rightarrow> (string, sql_statement list) result"
  hn_query :: "'c \<Rightarrow> ('d, 'r) query_env"
  hn_sql :: "'c \<Rightarrow> string \<Rightarrow> (df_error, 'd) result"
  hn_collect :: "'d \<Rightarrow> (df_error, explain_batch list) result"
  hn_text_rows :: "string list \<Rightarrow> (pg_error, 'r) result"
  hn_fields :: "'d \<Rightarrow> (string, 'r) result"
  hn_empty :: 'r

text \<open>\<open>str::lines\<close>: a line ends with a line feed, which may follow a carriage return.\<close>

definition strip_cr :: "string \<Rightarrow> string" where
  "strip_cr l = (if l \<noteq> [] \<and> last l = CHR 0x0D then butlast l else l)"

function str_lines :: "string \<Rightarrow> string list" where
  "str_lines s =
     (if s = [] then []
      else case dropWhile (\<lambda>c. c \<noteq> CHR 0x0A) s of
        [] \<Rightarrow> [s]
      | _ # rest \<Rightarrow> strip_cr (takeWhile (\<lambda>c. c \<noteq> CHR 0x0A) s) # str_lines rest)"
  by pat_completeness auto
termination
proof (relation "measure length")
  show "(rest, s) \<in> measure length" if "dropWhile (\<lambda>c. c \<noteq> CHR 0x0A) s = x # rest" for s x rest
    using length_dropWhile_le [of "\<lambda>c. c \<noteq> CHR 0x0A" s] that by simp
qed simp

declare str_lines.simps [simp del]

definition batch_lines :: "explain_batch \<Rightarrow> string list" where
  "batch_lines b =
     (if eb_num_columns b < 2 then []
      else case eb_plan b of None \<Rightarrow> [] | Some values \<Rightarrow> concat (map (\<lambda>v. str_lines (unwrap_or v '''')) values))"

definition execute_explain :: "('c, 'd, 'r) handler_env \<Rightarrow> 'd \<Rightarrow> 'r handled" where
  "execute_explain hn df =
     bind_result (map_err ApiError (hn_collect hn df)) (\<lambda>batches. hn_text_rows hn (concat (map batch_lines batches)))"

text \<open>What happens to a statement no hook answers.\<close>

definition execute_unhooked :: "('c, 'd, 'r) handler_env \<Rightarrow> 'c \<Rightarrow> sql_statement \<Rightarrow> 'r handled" where
  "execute_unhooked hn ctx st =
     bind_result (map_err ApiError (hn_sql hn ctx (qe_show (hn_query hn ctx) st))) (\<lambda>df.
       if st_kind st = Explain then execute_explain hn df else qe_encode (hn_query hn ctx) df)"

definition handle_statement ::
  "('c, 'd, 'r) handler_env \<Rightarrow> 'c \<Rightarrow> metadata \<Rightarrow> sql_statement \<Rightarrow> query_world \<Rightarrow> 'r handled \<times> query_world" where
  "handle_statement hn ctx md statement w =
     (let st = rewrite_statement statement in
      case run_hooks (proxy_hooks (hn_query hn ctx)) md st w of
        (Some r, w) \<Rightarrow> (r, w)
      | (None, w) \<Rightarrow> (execute_unhooked hn ctx st, w))"

fun handle_statements ::
  "('c, 'd, 'r) handler_env \<Rightarrow> 'c \<Rightarrow> metadata \<Rightarrow> sql_statement list \<Rightarrow> query_world \<Rightarrow> (pg_error, 'r list) result \<times> query_world" where
  "handle_statements hn ctx md [] w = (Inr [], w)"
| "handle_statements hn ctx md (st # sts) w =
     (case handle_statement hn ctx md st w of
        (Inl e, w) \<Rightarrow> (Inl e, w)
      | (Inr r, w) \<Rightarrow>
          (case handle_statements hn ctx md sts w of
             (Inl e, w) \<Rightarrow> (Inl e, w)
           | (Inr rs, w) \<Rightarrow> (Inr (r # rs), w)))"

definition simple_do_query ::
  "('c, 'd, 'r) handler_env \<Rightarrow> 'c conn_store \<Rightarrow> metadata \<Rightarrow> string \<Rightarrow> query_world \<Rightarrow> (pg_error, 'r list) result \<times> query_world" where
  "simple_do_query hn s md q w =
     (case get_ctx md s of
        Inl e \<Rightarrow> (Inl e, w)
      | Inr ctx \<Rightarrow>
          (case hn_parse hn q of
             Inl e \<Rightarrow> (Inl (ApiError e), w)
           | Inr statements \<Rightarrow> handle_statements hn ctx md statements w))"

definition extended_do_query ::
  "('c, 'd, 'r) handler_env \<Rightarrow> 'c conn_store \<Rightarrow> metadata \<Rightarrow> string \<Rightarrow> query_world \<Rightarrow> 'r handled \<times> query_world" where
  "extended_do_query hn s md q w =
     (case get_ctx md s of
        Inl e \<Rightarrow> (Inl e, w)
      | Inr ctx \<Rightarrow>
          (case hn_parse hn q of
             Inl e \<Rightarrow> (Inl (ApiError e), w)
           | Inr [] \<Rightarrow> (Inr (hn_empty hn), w)
           | Inr (st # _) \<Rightarrow> handle_statement hn ctx md st w))"

definition describe :: "('c, 'd, 'r) handler_env \<Rightarrow> 'c conn_store \<Rightarrow> metadata \<Rightarrow> string \<Rightarrow> 'r handled" where
  "describe hn s md q =
     bind_result (get_ctx md s) (\<lambda>ctx.
     bind_result (map_err ApiError (hn_parse hn q)) (\<lambda>statements.
       case statements of
         [] \<Rightarrow> Inr (hn_empty hn)
       | st # _ \<Rightarrow>
           bind_result (map_err ApiError (hn_sql hn ctx (qe_show (hn_query hn ctx) (rewrite_statement st)))) (\<lambda>df.
             map_err ApiError (hn_fields hn df))))"

section \<open>Many clients\<close>

record client =
  cl_addr :: string
  cl_metadata :: metadata
  cl_ready :: bool

record 'c proxy =
  px_store :: "'c conn_store"
  px_clients :: "conn_id \<rightharpoonup> client"
  px_accepted :: nat
  px_tasks :: "rebuild_task list"

definition proxy_start :: "'c proxy" where
  "proxy_start = \<lparr> px_store = conn_store_new, px_clients = Map.empty, px_accepted = 0, px_tasks = [] \<rparr>"

text \<open>
  The parameters of the startup message are the client's choice. Two open sockets have different peer
  addresses. A client sends queries only once its startup has succeeded, and no password after that. What
  \<open>build_user_context\<close> returns may differ from call to call; \<open>made u n c\<close> says that the context \<open>c\<close> is one it
  may return for the user \<open>u\<close> on the data source \<open>n\<close>.
\<close>

definition builds_only :: "(uuid \<Rightarrow> string \<Rightarrow> 'c \<Rightarrow> bool) \<Rightarrow> 'c context_builder \<Rightarrow> bool" where
  "builds_only made build \<longleftrightarrow> (\<forall>u n ctx. build u n = Inr ctx \<longrightarrow> made u n ctx)"

inductive proxy_step :: "(uuid \<Rightarrow> string) \<Rightarrow> (uuid \<Rightarrow> string \<Rightarrow> 'c \<Rightarrow> bool) \<Rightarrow> 'c proxy \<Rightarrow> 'c proxy \<Rightarrow> bool"
  for show_uuid made where
  accept: "\<forall>i c. px_clients p i = Some c \<longrightarrow> cl_addr c \<noteq> addr \<Longrightarrow>
     register_connection addr (px_store p) = (conn_id, s) \<Longrightarrow>
     proxy_step show_uuid made p (p\<lparr> px_store := s, px_accepted := px_accepted p + 1,
       px_clients := (px_clients p)(conn_id \<mapsto> \<lparr> cl_addr = addr, cl_metadata = params, cl_ready = False \<rparr>) \<rparr>)"
| accept_unknown: "alloc_connection_id (px_store p) = (conn_id, s) \<Longrightarrow>
     proxy_step show_uuid made p (p\<lparr> px_store := s, px_accepted := px_accepted p + 1 \<rparr>)"
| password: "px_clients p i = Some c \<Longrightarrow> \<not> cl_ready c \<Longrightarrow> su_show_uuid env = show_uuid \<Longrightarrow>
     builds_only made (su_build env) \<Longrightarrow>
     on_password env db upd (cl_addr c) pwd (cl_metadata c) (px_store p) d = (r, md, s, d') \<Longrightarrow>
     proxy_step show_uuid made p (p\<lparr> px_store := s,
       px_clients := (px_clients p)(i \<mapsto> c\<lparr> cl_metadata := md, cl_ready := (r = Inr ()) \<rparr>) \<rparr>)"
| close: "px_clients p i = Some c \<Longrightarrow>
     proxy_step show_uuid made p (p\<lparr> px_store := cleanup_connection i (Some (cl_addr c)) (px_store p),
       px_clients := (px_clients p)(i := None) \<rparr>)"
| rebuild_user: "proxy_step show_uuid made p (p\<lparr> px_tasks := px_tasks p @ rebuild_contexts_for_user u (px_store p) \<rparr>)"
| rebuild_source: "proxy_step show_uuid made p (p\<lparr> px_tasks := px_tasks p @ rebuild_contexts_for_datasource n (px_store p) \<rparr>)"
| rebuilt: "task \<in> set (px_tasks p) \<Longrightarrow> builds_only made build \<Longrightarrow>
     proxy_step show_uuid made p (p\<lparr> px_store := rebuild_entry build task (px_store p),
       px_tasks := remove1 task (px_tasks p) \<rparr>)"

section \<open>Identifiers and contexts\<close>

definition entry_owner :: "'c connection_entry \<Rightarrow> uuid \<times> string" where
  "entry_owner e = (cn_user_id e, cn_datasource_name e)"

lemma rebuild_entry_context:
  assumes "map_of (cs_connection_contexts (rebuild_entry build (j, u, n) s)) i = Some e"
  obtains e' where "map_of (cs_connection_contexts s) i = Some e'" "entry_owner e' = entry_owner e"
    "e' = e \<or> i = j \<and> build u n = Inr (cn_ctx e)"
  using assms
  by (auto simp: rebuild_entry_def map_of_map_entry delete_conv entry_owner_def split: sum.splits if_splits option.splits)

lemma rebuild_entry_distinct:
  "distinct (map fst (cs_connection_contexts s)) \<Longrightarrow> distinct (map fst (cs_connection_contexts (rebuild_entry build x s)))"
  by (cases x) (simp add: rebuild_entry_def distinct_map_entry distinct_delete split: sum.split)

lemma rebuild_entry_rest [simp]:
  "cs_pending_conn_ids (rebuild_entry build x s) = cs_pending_conn_ids s"
  "cs_next_connection_id (rebuild_entry build x s) = cs_next_connection_id s"
  by (cases x, simp add: rebuild_entry_def split: sum.split)+

lemma rebuild_where_owner:
  assumes "(i, u, n) \<in> set (rebuild_where P s)" "distinct (map fst (cs_connection_contexts s))"
  obtains e where "map_of (cs_connection_contexts s) i = Some e" "entry_owner e = (u, n)"
  using assms by (auto simp: rebuild_where_def entry_owner_def)

text \<open>What stays true of the clients and their contexts.\<close>

definition owned :: "(uuid \<Rightarrow> string) \<Rightarrow> conn_id \<Rightarrow> client \<Rightarrow> 'c connection_entry \<Rightarrow> bool" where
  "owned show_uuid i c e \<longleftrightarrow>
     cl_metadata c ''user_id'' = Some (show_uuid (cn_user_id e)) \<and> cl_metadata c ''datasource'' = Some (cn_datasource_name e)"

definition settled :: "'c proxy \<Rightarrow> conn_id \<Rightarrow> bool" where
  "settled p i \<longleftrightarrow> unat i < px_accepted p \<and> (\<forall>a. cs_pending_conn_ids (px_store p) a \<noteq> Some i)"

definition proxy_inv :: "(uuid \<Rightarrow> string) \<Rightarrow> (uuid \<Rightarrow> string \<Rightarrow> 'c \<Rightarrow> bool) \<Rightarrow> 'c proxy \<Rightarrow> bool" where
  "proxy_inv show_uuid made p \<longleftrightarrow>
     cs_next_connection_id (px_store p) = of_nat (px_accepted p) \<and>
     (\<forall>i c. px_clients p i = Some c \<longrightarrow> unat i < px_accepted p) \<and>
     (\<forall>i j c c'. px_clients p i = Some c \<longrightarrow> px_clients p j = Some c' \<longrightarrow> cl_addr c = cl_addr c' \<longrightarrow> i = j) \<and>
     (\<forall>a i. cs_pending_conn_ids (px_store p) a = Some i \<longrightarrow> (\<exists>c. px_clients p i = Some c \<and> cl_addr c = a)) \<and>
     (\<forall>i e. map_of (cs_connection_contexts (px_store p)) i = Some e \<longrightarrow>
        (\<exists>c. px_clients p i = Some c) \<and> settled p i \<and> made (cn_user_id e) (cn_datasource_name e) (cn_ctx e)) \<and>
     (\<forall>i c. px_clients p i = Some c \<longrightarrow> cl_ready c \<longrightarrow>
        cl_metadata c ''conn_id'' = Some (show_nat (unat i)) \<and>
        (\<forall>e. map_of (cs_connection_contexts (px_store p)) i = Some e \<longrightarrow> owned show_uuid i c e)) \<and>
     (\<forall>i u n. (i, u, n) \<in> set (px_tasks p) \<longrightarrow> settled p i \<and>
        (\<forall>e. map_of (cs_connection_contexts (px_store p)) i = Some e \<longrightarrow> entry_owner e = (u, n))) \<and>
     distinct (map fst (cs_connection_contexts (px_store p)))"

lemma proxy_inv_start: "proxy_inv show_uuid made proxy_start"
  by (simp add: proxy_inv_def proxy_start_def conn_store_new_def)

lemma admit_cases:
  assumes "admit env db user a md s = (r, md', s')"
  obtains (refused) "r \<noteq> Inr ()" "s' = s"
    | (unbuilt) i where "r \<noteq> Inr ()" "cs_pending_conn_ids s a = Some i"
      "s' = s\<lparr> cs_pending_conn_ids := (cs_pending_conn_ids s)(a := None) \<rparr>"
    | (admitted) i ds ctx where "r = su_finish env" "cs_pending_conn_ids s a = Some i"
      "md ''database'' = Some ds" "validate_data_source db ds = Inr ()" "check_access db (pu_id user) ds = Inr True"
      "su_build env (pu_id user) ds = Inr ctx"
      "md' = md(''user_id'' \<mapsto> su_show_uuid env (pu_id user), ''datasource'' \<mapsto> ds, ''conn_id'' \<mapsto> show_nat (unat i))"
      "s' = s\<lparr> cs_pending_conn_ids := (cs_pending_conn_ids s)(a := None),
         cs_connection_contexts := AList.update i \<lparr> cn_ctx = ctx, cn_user_id = pu_id user, cn_datasource_name = ds \<rparr>
           (cs_connection_contexts s) \<rparr>"
proof (cases "md ''database''")
  case None
  with assms show thesis by (intro refused) (auto simp: admit_def Let_def)
next
  case (Some ds)
  show thesis
  proof (cases "ds \<noteq> [] \<and> validate_data_source db ds = Inr () \<and> check_access db (pu_id user) ds = Inr True")
    case True
    show thesis
    proof (cases "cs_pending_conn_ids s a")
      case None
      with assms True Some show thesis by (intro refused) (auto simp: admit_def Let_def)
    next
      case (Some i)
      show thesis
      proof (cases "su_build env (pu_id user) ds")
        case (Inl e)
        with assms True \<open>md ''database'' = Some ds\<close> Some show thesis by (intro unbuilt) (auto simp: admit_def Let_def)
      next
        case (Inr ctx)
        with assms True \<open>md ''database'' = Some ds\<close> Some show thesis by (intro admitted) (auto simp: admit_def Let_def)
      qed
    qed
  next
    case False
    with assms Some show thesis
      by (intro refused) (auto simp: admit_def Let_def split: if_splits sum.splits)
  qed
qed

lemma on_password_cases:
  assumes "on_password env db upd a pwd md s d = (r, md', s', d')"
  obtains (denied) "r \<noteq> Inr ()" "s' = s"
    | (known) user d'' where "authenticate (su_auth env) db upd (unwrap_or (md ''user'') '''') pwd d = (Inr user, d'')"
      "admit env db user a md s = (r, md', s')"
proof (cases "authenticate (su_auth env) db upd (unwrap_or (md ''user'') '''') pwd d")
  case (Pair x d1)
  show thesis
  proof (cases x)
    case (Inl msg)
    with assms Pair show thesis by (intro denied) (auto simp: on_password_def Let_def)
  next
    case (Inr user)
    with assms Pair show thesis by (intro known [of user d1]) (auto simp: on_password_def Let_def split: prod.splits)
  qed
qed

text \<open>The effect of a password on the table: nothing, or the pending identifier of the address is used up, perhaps for a context.\<close>

lemma on_password_store:
  assumes "on_password env db upd a pwd md s d = (r, md', s', d')"
  shows "cs_next_connection_id s' = cs_next_connection_id s"
    and "cs_pending_conn_ids s' b = Some j \<Longrightarrow> cs_pending_conn_ids s b = Some j"
    and "map_of (cs_connection_contexts s') j = Some e \<Longrightarrow> map_of (cs_connection_contexts s) j = Some e \<or>
      cs_pending_conn_ids s a = Some j \<and> cs_pending_conn_ids s' a = None \<and> su_build env (cn_user_id e) (cn_datasource_name e) = Inr (cn_ctx e)"
    and "r = Inr () \<Longrightarrow> \<exists>i e. cs_pending_conn_ids s a = Some i \<and> map_of (cs_connection_contexts s') i = Some e \<and>
      md' ''conn_id'' = Some (show_nat (unat i)) \<and> md' ''user_id'' = Some (su_show_uuid env (cn_user_id e)) \<and>
      md' ''datasource'' = Some (cn_datasource_name e)"
    and "distinct (map fst (cs_connection_contexts s)) \<Longrightarrow> distinct (map fst (cs_connection_contexts s'))"
proof -
  have "cs_next_connection_id s' = cs_next_connection_id s \<and> (\<forall>b j. cs_pending_conn_ids s' b = Some j \<longrightarrow> cs_pending_conn_ids s b = Some j) \<and>
    (\<forall>j e. map_of (cs_connection_contexts s') j = Some e \<longrightarrow> map_of (cs_connection_contexts s) j = Some e \<or>
      cs_pending_conn_ids s a = Some j \<and> cs_pending_conn_ids s' a = None \<and> su_build env (cn_user_id e) (cn_datasource_name e) = Inr (cn_ctx e)) \<and>
    (r = Inr () \<longrightarrow> (\<exists>i e. cs_pending_conn_ids s a = Some i \<and> map_of (cs_connection_contexts s') i = Some e \<and>
      md' ''conn_id'' = Some (show_nat (unat i)) \<and> md' ''user_id'' = Some (su_show_uuid env (cn_user_id e)) \<and>
      md' ''datasource'' = Some (cn_datasource_name e))) \<and>
    (distinct (map fst (cs_connection_contexts s)) \<longrightarrow> distinct (map fst (cs_connection_contexts s')))"
    using assms
  proof (cases rule: on_password_cases)
    case (known user d'')
    from known(2) show ?thesis
    proof (cases rule: admit_cases)
      case (admitted i ds ctx)
      then show ?thesis by (auto simp: update_conv' distinct_update)
    qed auto
  qed auto
  then show "cs_next_connection_id s' = cs_next_connection_id s"
    and "cs_pending_conn_ids s' b = Some j \<Longrightarrow> cs_pending_conn_ids s b = Some j"
    and "map_of (cs_connection_contexts s') j = Some e \<Longrightarrow> map_of (cs_connection_contexts s) j = Some e \<or>
      cs_pending_conn_ids s a = Some j \<and> cs_pending_conn_ids s' a = None \<and> su_build env (cn_user_id e) (cn_datasource_name e) = Inr (cn_ctx e)"
    and "r = Inr () \<Longrightarrow> \<exists>i e. cs_pending_conn_ids s a = Some i \<and> map_of (cs_connection_contexts s') i = Some e \<and>
      md' ''conn_id'' = Some (show_nat (unat i)) \<and> md' ''user_id'' = Some (su_show_uuid env (cn_user_id e)) \<and>
      md' ''datasource'' = Some (cn_datasource_name e)"
    and "distinct (map fst (cs_connection_contexts s)) \<Longrightarrow> distinct (map fst (cs_connection_contexts s'))"
    by blast+
qed

lemma proxy_invD:
  assumes "proxy_inv show_uuid made p"
  shows "cs_next_connection_id (px_store p) = of_nat (px_accepted p)"
    "px_clients p i = Some c \<Longrightarrow> unat i < px_accepted p"
    "px_clients p i = Some c \<Longrightarrow> px_clients p j = Some c' \<Longrightarrow> cl_addr c = cl_addr c' \<Longrightarrow> i = j"
    "cs_pending_conn_ids (px_store p) a = Some i \<Longrightarrow> \<exists>c. px_clients p i = Some c \<and> cl_addr c = a"
    "map_of (cs_connection_contexts (px_store p)) i = Some e \<Longrightarrow> \<exists>c. px_clients p i = Some c"
    "px_clients p i = Some c \<Longrightarrow> cl_ready c \<Longrightarrow> cl_metadata c ''conn_id'' = Some (show_nat (unat i))"
    "px_clients p i = Some c \<Longrightarrow> cl_ready c \<Longrightarrow> map_of (cs_connection_contexts (px_store p)) i = Some e \<Longrightarrow> owned show_uuid i c e"
    "map_of (cs_connection_contexts (px_store p)) i = Some e \<Longrightarrow> settled p i"
    "map_of (cs_connection_contexts (px_store p)) i = Some e \<Longrightarrow> made (cn_user_id e) (cn_datasource_name e) (cn_ctx e)"
    "(i, u, n) \<in> set (px_tasks p) \<Longrightarrow> settled p i"
    "(i, u, n) \<in> set (px_tasks p) \<Longrightarrow> map_of (cs_connection_contexts (px_store p)) i = Some e \<Longrightarrow> entry_owner e = (u, n)"
    "distinct (map fst (cs_connection_contexts (px_store p)))"
  using assms unfolding proxy_inv_def by blast+

lemma proxy_invI:
  assumes "cs_next_connection_id (px_store p) = of_nat (px_accepted p)"
    "\<And>i c. px_clients p i = Some c \<Longrightarrow> unat i < px_accepted p"
    "\<And>i j c c'. px_clients p i = Some c \<Longrightarrow> px_clients p j = Some c' \<Longrightarrow> cl_addr c = cl_addr c' \<Longrightarrow> i = j"
    "\<And>a i. cs_pending_conn_ids (px_store p) a = Some i \<Longrightarrow> \<exists>c. px_clients p i = Some c \<and> cl_addr c = a"
    "\<And>i e. map_of (cs_connection_contexts (px_store p)) i = Some e \<Longrightarrow> \<exists>c. px_clients p i = Some c"
    "\<And>i c. px_clients p i = Some c \<Longrightarrow> cl_ready c \<Longrightarrow> cl_metadata c ''conn_id'' = Some (show_nat (unat i))"
    "\<And>i c e. px_clients p i = Some c \<Longrightarrow> cl_ready c \<Longrightarrow> map_of (cs_connection_contexts (px_store p)) i = Some e \<Longrightarrow>
       owned show_uuid i c e"
    "\<And>i e. map_of (cs_connection_contexts (px_store p)) i = Some e \<Longrightarrow> settled p i"
    "\<And>i e. map_of (cs_connection_contexts (px_store p)) i = Some e \<Longrightarrow> made (cn_user_id e) (cn_datasource_name e) (cn_ctx e)"
    "\<And>i u n. (i, u, n) \<in> set (px_tasks p) \<Longrightarrow> settled p i"
    "\<And>i u n e. (i, u, n) \<in> set (px_tasks p) \<Longrightarrow> map_of (cs_connection_contexts (px_store p)) i = Some e \<Longrightarrow> entry_owner e = (u, n)"
    "distinct (map fst (cs_connection_contexts (px_store p)))"
  shows "proxy_inv show_uuid made p"
  unfolding proxy_inv_def by (intro conjI allI impI) (fact assms)+

lemma inv_accept:
  assumes inv: "proxy_inv show_uuid made p" and bound: "px_accepted p < 2 ^ 64"
    and fresh: "\<forall>i c. px_clients p i = Some c \<longrightarrow> cl_addr c \<noteq> addr"
    and reg: "register_connection addr (px_store p) = (cid, s)"
  shows "proxy_inv show_uuid made (p\<lparr> px_store := s, px_accepted := px_accepted p + 1,
    px_clients := (px_clients p)(cid \<mapsto> \<lparr> cl_addr = addr, cl_metadata = params, cl_ready = False \<rparr>) \<rparr>)" (is "proxy_inv _ _ ?q")
proof -
  have cid: "cid = of_nat (px_accepted p)" and s: "cs_next_connection_id s = of_nat (px_accepted p + 1)"
      "cs_pending_conn_ids s = (cs_pending_conn_ids (px_store p))(addr \<mapsto> cid)"
      "cs_connection_contexts s = cs_connection_contexts (px_store p)"
    using reg proxy_invD(1) [OF inv] by (auto simp: register_connection_def Let_def)
  have id: "unat cid = px_accepted p" unfolding cid using bound by (simp add: unat_of_nat)
  then have new: "px_clients p cid = None" using proxy_invD(2) [OF inv, of cid] by (cases "px_clients p cid") auto
  have settled: "settled ?q i" if "settled p i" for i
    using that id by (auto simp: settled_def s split: if_splits)
  show ?thesis
  proof (rule proxy_invI, goal_cases)
    case (2 i c)
    then show ?case using id proxy_invD(2) [OF inv, of i c] by (auto split: if_splits)
  next
    case (3 i j c c')
    then show ?case using fresh [rule_format, of i c] fresh [rule_format, of j c'] proxy_invD(3) [OF inv, of i c j c']
      by (auto split: if_splits)
  next
    case (4 a i)
    then show ?case using new proxy_invD(4) [OF inv, of a i] s by (auto split: if_splits)
  next
    case (5 i e)
    then show ?case using proxy_invD(5) [OF inv, of i e] s by auto
  next
    case (6 i c)
    then show ?case using proxy_invD(6) [OF inv, of i c] by (auto split: if_splits)
  next
    case (7 i c e)
    then show ?case using proxy_invD(7) [OF inv, of i c e] s by (auto split: if_splits)
  next
    case (8 i e)
    then show ?case using proxy_invD(8) [OF inv] settled s by simp
  next
    case (10 i u n)
    then show ?case using proxy_invD(10) [OF inv] settled by simp
  qed (use proxy_invD(9,11,12) [OF inv] s in simp_all)
qed

lemma inv_password:
  assumes inv: "proxy_inv show_uuid made p" and c: "px_clients p i = Some c" "\<not> cl_ready c" and sh: "su_show_uuid env = show_uuid"
    and made: "builds_only made (su_build env)"
    and run: "on_password env db upd (cl_addr c) pwd (cl_metadata c) (px_store p) d = (r, md, s, d')"
  shows "proxy_inv show_uuid made (p\<lparr> px_store := s,
    px_clients := (px_clients p)(i \<mapsto> c\<lparr> cl_metadata := md, cl_ready := (r = Inr ()) \<rparr>) \<rparr>)" (is "proxy_inv _ _ ?q")
proof -
  note store = on_password_store [OF run]
  have own: "j = i" if "cs_pending_conn_ids (px_store p) (cl_addr c) = Some j" for j
    using proxy_invD(4) [OF inv that] proxy_invD(3) [OF inv c(1)] by metis
  have settled: "settled ?q j" if "settled p j" for j
    using that store(2) by (auto simp: settled_def)
  have fresh: "settled ?q i" if "cs_pending_conn_ids s (cl_addr c) = None"
  proof -
    have "cs_pending_conn_ids s b \<noteq> Some i" for b
      using that store(2) [of b i] proxy_invD(4) [OF inv, of b i] c by (cases "b = cl_addr c") auto
    then show ?thesis using proxy_invD(2) [OF inv c(1)] by (simp add: settled_def)
  qed
  show ?thesis
  proof (rule proxy_invI, goal_cases)
    case 1
    then show ?case using store(1) proxy_invD(1) [OF inv] by simp
  next
    case (2 j c1)
    then show ?case using c proxy_invD(2) [OF inv] by (auto split: if_splits)
  next
    case (3 j k c1 c2)
    then show ?case using c proxy_invD(3) [OF inv] by (auto split: if_splits)
  next
    case (4 a j)
    then show ?case using c store(2) [of a j] proxy_invD(4) [OF inv, of a j] by (auto split: if_splits)
  next
    case (5 j e)
    then show ?case using c own store(3) [of j e] proxy_invD(5) [OF inv, of j e] by (auto split: if_splits)
  next
    case (6 j c1)
    then show ?case using own store(4) proxy_invD(6) [OF inv, of j c1] by (auto split: if_splits)
  next
    case (7 j c1 e)
    show ?case
    proof (cases "j = i")
      case True
      with 7 own store(4) show ?thesis by (auto simp: owned_def sh)
    next
      case False
      with 7 own store(3) [of j e] proxy_invD(7) [OF inv, of j c1 e] show ?thesis by auto
    qed
  next
    case (8 j e)
    then show ?case using own fresh settled store(3) [of j e] proxy_invD(8) [OF inv, of j e] by auto
  next
    case (9 j e)
    then show ?case using made store(3) [of j e] proxy_invD(9) [OF inv, of j e] by (auto simp: builds_only_def)
  next
    case (10 j u n)
    then show ?case using settled proxy_invD(10) [OF inv, of j u n] by simp
  next
    case (11 j u n e)
    then have "(j, u, n) \<in> set (px_tasks p)" "map_of (cs_connection_contexts s) j = Some e" by simp_all
    with store(3) [of j e] proxy_invD(10,11) [OF inv, of j u n] show ?case by (auto simp: settled_def)
  next
    case 12
    then show ?case using store(5) proxy_invD(12) [OF inv] by simp
  qed
qed

lemma inv_close:
  assumes inv: "proxy_inv show_uuid made p" and c: "px_clients p i = Some c"
  shows "proxy_inv show_uuid made (p\<lparr> px_store := cleanup_connection i (Some (cl_addr c)) (px_store p),
    px_clients := (px_clients p)(i := None) \<rparr>)" (is "proxy_inv _ _ ?q")
proof -
  have settled: "settled ?q j" if "settled p j" for j
    using that by (auto simp: settled_def cleanup_connection_def)
  have kept: "map_of (cs_connection_contexts (px_store p)) j = Some e \<and> j \<noteq> i"
    if "map_of (cs_connection_contexts (px_store ?q)) j = Some e" for j e
    using that by (auto simp: cleanup_connection_def delete_conv split: if_splits)
  show ?thesis
  proof (rule proxy_invI, goal_cases)
    case (4 a j)
    then have "cs_pending_conn_ids (px_store p) a = Some j" "a \<noteq> cl_addr c"
      by (auto simp: cleanup_connection_def split: if_splits)
    with proxy_invD(4) [OF inv] c show ?case by fastforce
  next
    case (5 j e)
    then show ?case using kept [of j e] proxy_invD(5) [OF inv, of j e] by auto
  next
    case (7 j c1 e)
    then show ?case using kept [of j e] proxy_invD(7) [OF inv, of j c1 e] by (auto split: if_splits)
  next
    case (8 j e)
    then show ?case using kept [of j e] settled proxy_invD(8) [OF inv] by blast
  next
    case (9 j e)
    then show ?case using kept [of j e] proxy_invD(9) [OF inv] by blast
  next
    case (10 j u n)
    then show ?case using settled proxy_invD(10) [OF inv, of j u n] by simp
  next
    case (11 j u n e)
    then show ?case using kept [of j e] proxy_invD(11) [OF inv, of j u n e] by simp
  next
    case 12
    then show ?case using proxy_invD(12) [OF inv] by (simp add: cleanup_connection_def distinct_delete)
  qed (use proxy_invD(1-3,6) [OF inv] in \<open>auto simp: cleanup_connection_def split: if_splits\<close>)
qed

lemma inv_spawn:
  assumes inv: "proxy_inv show_uuid made p"
  shows "proxy_inv show_uuid made (p\<lparr> px_tasks := px_tasks p @ rebuild_where P (px_store p) \<rparr>)" (is "proxy_inv _ _ ?q")
proof -
  have settled: "settled ?q i = settled p i" for i by (simp add: settled_def)
  show ?thesis
  proof (rule proxy_invI, goal_cases)
    case (10 i u n)
    show ?case
    proof (cases "(i, u, n) \<in> set (px_tasks p)")
      case False
      with 10 obtain e where "map_of (cs_connection_contexts (px_store p)) i = Some e"
        by (auto elim: rebuild_where_owner [OF _ proxy_invD(12) [OF inv]])
      then show ?thesis using proxy_invD(8) [OF inv] settled by blast
    qed (use settled proxy_invD(10) [OF inv] in blast)
  next
    case (11 i u n e)
    show ?case
    proof (cases "(i, u, n) \<in> set (px_tasks p)")
      case False
      with 11(1) obtain e' where "map_of (cs_connection_contexts (px_store p)) i = Some e'" "entry_owner e' = (u, n)"
        by (auto elim: rebuild_where_owner [OF _ proxy_invD(12) [OF inv]])
      with 11(2) show ?thesis by simp
    qed (use 11(2) proxy_invD(11) [OF inv] in auto)
  qed (use proxy_invD [OF inv] in \<open>auto simp: settled\<close>)
qed

lemma inv_rebuilt:
  assumes inv: "proxy_inv show_uuid made p" and task: "task \<in> set (px_tasks p)" and build: "builds_only made build"
  shows "proxy_inv show_uuid made (p\<lparr> px_store := rebuild_entry build task (px_store p), px_tasks := remove1 task (px_tasks p) \<rparr>)"
    (is "proxy_inv _ _ ?q")
proof -
  obtain k u n where t: "task = (k, u, n)" by (cases task)
  have settled: "settled ?q i = settled p i" for i by (simp add: settled_def)
  have ctx: "\<exists>e'. map_of (cs_connection_contexts (px_store p)) i = Some e' \<and> entry_owner e' = entry_owner e"
    and made: "made (cn_user_id e) (cn_datasource_name e) (cn_ctx e)"
    if new: "map_of (cs_connection_contexts (px_store ?q)) i = Some e" for i e
  proof -
    obtain e' where e': "map_of (cs_connection_contexts (px_store p)) i = Some e'" "entry_owner e' = entry_owner e"
        "e' = e \<or> i = k \<and> build u n = Inr (cn_ctx e)"
      using new unfolding t by (auto elim: rebuild_entry_context)
    then show "\<exists>e'. map_of (cs_connection_contexts (px_store p)) i = Some e' \<and> entry_owner e' = entry_owner e" by blast
    show "made (cn_user_id e) (cn_datasource_name e) (cn_ctx e)"
    proof (cases "e' = e")
      case False
      with e' have "i = k" "build u n = Inr (cn_ctx e)" by auto
      moreover have "entry_owner e = (u, n)"
        using proxy_invD(11) [OF inv, of i u n e'] task t e' \<open>i = k\<close> by simp
      ultimately show ?thesis using build by (simp add: builds_only_def entry_owner_def)
    qed (use e'(1) proxy_invD(9) [OF inv] in blast)
  qed
  show ?thesis
  proof (rule proxy_invI, goal_cases)
    case (5 i e)
    then show ?case using ctx [of i e] proxy_invD(5) [OF inv] by auto
  next
    case (7 i c e)
    then obtain e' where "map_of (cs_connection_contexts (px_store p)) i = Some e'" "entry_owner e' = entry_owner e"
      using ctx [of i e] by blast
    with 7 proxy_invD(7) [OF inv, of i c e'] show ?case by (auto simp: owned_def entry_owner_def)
  next
    case (8 i e)
    then show ?case using ctx [of i e] proxy_invD(8) [OF inv] settled by blast
  next
    case (9 i e)
    then show ?case by (rule made)
  next
    case (11 i u' n' e)
    then have "(i, u', n') \<in> set (px_tasks p)" by (auto dest: set_remove1_subset [THEN subsetD])
    with ctx [OF 11(2)] proxy_invD(11) [OF inv] show ?case by metis
  next
    case 12
    then show ?case using proxy_invD(12) [OF inv] by (simp add: rebuild_entry_distinct)
  next
    case (10 i u' n')
    then have "(i, u', n') \<in> set (px_tasks p)" by (auto dest: set_remove1_subset [THEN subsetD])
    then show ?case using settled proxy_invD(10) [OF inv] by blast
  qed (use proxy_invD(1-4,6) [OF inv] in auto)
qed

lemma inv_step:
  assumes "proxy_step show_uuid made p q" "proxy_inv show_uuid made p" "px_accepted q \<le> 2 ^ 64"
  shows "proxy_inv show_uuid made q"
  using assms
proof (cases rule: proxy_step.cases)
  case (accept addr conn_id s params)
  with assms(2,3) show ?thesis using inv_accept [of show_uuid made p addr conn_id s params] by simp
next
  case (accept_unknown conn_id s)
  have s: "cs_next_connection_id s = of_nat (px_accepted p + 1)" "cs_pending_conn_ids s = cs_pending_conn_ids (px_store p)"
      "cs_connection_contexts s = cs_connection_contexts (px_store p)"
    using accept_unknown(2) proxy_invD(1) [OF assms(2)] by (auto simp: alloc_connection_id_def)
  have "settled q i" if "settled p i" for i using that s by (simp add: accept_unknown(1) settled_def)
  then show ?thesis
    unfolding accept_unknown(1)
    by (intro proxy_invI) (use proxy_invD [OF assms(2)] s in \<open>auto intro: less_SucI\<close>)
next
  case (password i c env db upd pwd d r md s d')
  with assms(2) show ?thesis using inv_password by blast
next
  case (close i c)
  with assms(2) show ?thesis using inv_close by blast
next
  case (rebuild_user u)
  with assms(2) show ?thesis using inv_spawn unfolding rebuild_contexts_for_user_def by blast
next
  case (rebuild_source n)
  with assms(2) show ?thesis using inv_spawn unfolding rebuild_contexts_for_datasource_def by blast
next
  case (rebuilt task build)
  with assms(2) show ?thesis using inv_rebuilt by blast
qed

lemma accepted_mono: "proxy_step show_uuid made p q \<Longrightarrow> px_accepted p \<le> px_accepted q"
  by (induction rule: proxy_step.induct) simp_all

lemma inv_reachable:
  "(proxy_step show_uuid made)\<^sup>*\<^sup>* proxy_start p \<Longrightarrow> px_accepted p \<le> 2 ^ 64 \<Longrightarrow> proxy_inv show_uuid made p"
proof (induction rule: rtranclp_induct)
  case base
  show ?case by (rule proxy_inv_start)
next
  case (step p q)
  then have "px_accepted p \<le> 2 ^ 64" using accepted_mono [OF step(2)] by simp
  with step show ?case using inv_step by blast
qed

lemma get_ctx_show:
  assumes "md ''conn_id'' = Some (show_nat (unat i))"
  shows "get_ctx md s = Inr ctx \<longleftrightarrow> (\<exists>e. map_of (cs_connection_contexts s) i = Some e \<and> cn_ctx e = ctx)"
proof -
  have "parse_u64 (show_nat (unat i)) = Some (unat i)"
    by (rule parse_uint_show_nat) (use unsigned_less [of i] in simp)
  with assms show ?thesis by (auto simp: get_ctx_def Let_def)
qed

section \<open>Properties\<close>

text \<open>C10. Isolation of connections: with fewer than 2 to the 64 connections accepted, whatever startup parameters
  clients send and in whatever order connections open, authenticate, close and have their contexts rebuilt, the
  context a ready client's queries run in is the one stored for its own connection, and it is one that a build for
  exactly the user and the data source in the client's metadata returned, at startup or in a later rebuild.\<close>

theorem clients_use_their_own_context:
  assumes "(proxy_step show_uuid made)\<^sup>*\<^sup>* proxy_start p" "px_accepted p \<le> 2 ^ 64"
    and "px_clients p i = Some c" "cl_ready c" "get_ctx (cl_metadata c) (px_store p) = Inr ctx"
  shows "\<exists>e. map_of (cs_connection_contexts (px_store p)) i = Some e \<and> cn_ctx e = ctx \<and>
     made (cn_user_id e) (cn_datasource_name e) ctx \<and>
     cl_metadata c ''user_id'' = Some (show_uuid (cn_user_id e)) \<and> cl_metadata c ''datasource'' = Some (cn_datasource_name e)"
proof -
  have inv: "proxy_inv show_uuid made p" by (rule inv_reachable) (use assms in simp_all)
  obtain e where "map_of (cs_connection_contexts (px_store p)) i = Some e" "cn_ctx e = ctx"
    using get_ctx_show [of "cl_metadata c" i "px_store p" ctx] proxy_invD(6) [OF inv assms(3,4)] assms(5) by blast
  with proxy_invD(7) [OF inv assms(3,4)] proxy_invD(9) [OF inv] show ?thesis by (auto simp: owned_def)
qed

text \<open>C11. Admission: startup succeeds only for an active user whose password verifies, on an active data source the
  user has access to, directly, as everyone or through an effective role; and then the connection's context is
  the one built for that user and data source.\<close>

theorem only_authorised_users_connect:
  assumes "on_password env (open_conn d) upd addr pwd md s d = (Inr (), md', s', d')"
  shows "\<exists>user hash ds i ctx. user \<in> set (t_proxy_user d) \<and> pu_username user = unwrap_or (md ''user'') '''' \<and> pu_is_active user \<and>
     ae_parse_hash (su_auth env) (pu_password_hash user) = Inr hash \<and> ae_verify (su_auth env) pwd hash \<and>
     ds \<in> set (t_data_source d) \<and> md ''database'' = Some (ds_name ds) \<and> ds_is_active ds \<and> has_access d (pu_id user) (ds_id ds) \<and>
     su_build env (pu_id user) (ds_name ds) = Inr ctx \<and>
     map_of (cs_connection_contexts s') i = Some \<lparr> cn_ctx = ctx, cn_user_id = pu_id user, cn_datasource_name = ds_name ds \<rparr> \<and>
     md' ''user_id'' = Some (su_show_uuid env (pu_id user)) \<and> md' ''datasource'' = Some (ds_name ds)"
  using assms
proof (cases rule: on_password_cases)
  case (known user d'')
  obtain hash where user: "find (\<lambda>u. pu_username u = unwrap_or (md ''user'') '''') (t_proxy_user d) = Some user"
      "pu_is_active user" "ae_parse_hash (su_auth env) (pu_password_hash user) = Inr hash" "ae_verify (su_auth env) pwd hash"
    using known(1) by (auto simp: authenticate_def find_login_def split: sum.splits if_splits)
  have mem: "user \<in> set (t_proxy_user d)" "pu_username user = unwrap_or (md ''user'') ''''"
    using user(1) by (auto simp: find_Some_iff)
  from known(2) show ?thesis
  proof (cases rule: admit_cases)
    case (admitted i name ctx)
    have "check_access (open_conn d) (pu_id user) name = Inr True" by (rule admitted(5))
    then obtain ds where ds: "find (\<lambda>x. ds_name x = name \<and> ds_is_active x) (t_data_source d) = Some ds"
        "has_access d (pu_id user) (ds_id ds)"
      by (auto simp: check_access_def resolve_datasource_access_eq split: option.splits)
    then have "ds \<in> set (t_data_source d)" "ds_name ds = name" "ds_is_active ds" by (auto simp: find_Some_iff)
    with admitted ds user mem show ?thesis
      by (intro exI [of _ user] exI [of _ hash] exI [of _ ds] exI [of _ i] exI [of _ ctx]) (simp add: update_conv')
  qed auto
qed auto

text \<open>C37. An EXPLAIN statement reaches the engine without any policy: whatever the session, the policies and the
  explained query are, the answer is the one the engine gives for the statement itself, and no audit row is
  written.\<close>

theorem explain_runs_without_policies:
  "handle_statement hn ctx md (st\<lparr> st_kind := Explain \<rparr>) w =
     (bind_result (map_err ApiError (hn_sql hn ctx (qe_show (hn_query hn ctx) (rewrite_statement (st\<lparr> st_kind := Explain \<rparr>)))))
        (execute_explain hn), w)"
  by (simp add: handle_statement_def execute_unhooked_def rewrite_statement_def proxy_hooks_def policy_handle_query_def
      read_only_handle_query_def is_allowed_statement_def)

section \<open>Witnesses\<close>

definition desk_startup :: "nat startup_env" where
  "desk_startup =
     \<lparr> su_auth = \<lparr> ae_parse_hash = Inr, ae_verify = (\<lambda>pwd hash. pwd = ''secret'' @ hash), ae_now = 0 \<rparr>,
       su_build = (\<lambda>u n. if u = 100 \<and> n = ''crm'' then Inr 7 else Inl ''no such source''), su_show_uuid = (\<lambda>u. if u = 100 then ''u100'' else ''''), su_finish = Inr () \<rparr>"

definition desk_params :: metadata where
  "desk_params = [''user'' \<mapsto> ''ann'', ''database'' \<mapsto> ''crm'', ''user_id'' \<mapsto> ''admin'']"

definition desk_accepted :: "nat conn_store" where
  "desk_accepted = snd (register_connection ''peer'' conn_store_new)"

lemma desk_admission:
  "validate_data_source (open_conn desk_db) ''crm'' = Inr ()" "check_access (open_conn desk_db) 100 ''crm'' = Inr True"
  by code_simp+

lemma desk_user:
  "t_proxy_user desk_db = [\<lparr> pu_id = 100, pu_username = ''ann'', pu_password_hash = '''', pu_is_admin = False,
       pu_is_active = True, pu_email = None, pu_display_name = None, pu_last_login_at = None, pu_created_at = 0,
       pu_updated_at = 0, pu_attributes = '''' \<rparr>]"
  by (simp add: desk_db_def session_db_def)

lemma desk_password:
  obtains md' s' d' where
    "on_password desk_startup (open_conn desk_db) (Inr ()) ''peer'' ''secret'' desk_params desk_accepted desk_db = (Inr (), md', s', d')"
    "get_ctx md' s' = Inr 7"
proof -
  let ?user = "hd (t_proxy_user desk_db)"
  let ?md = "desk_params(''user_id'' \<mapsto> ''u100'', ''datasource'' \<mapsto> ''crm'', ''conn_id'' \<mapsto> show_nat (unat (0 :: conn_id)))"
  let ?s = "desk_accepted\<lparr> cs_pending_conn_ids := Map.empty,
     cs_connection_contexts := [(0, \<lparr> cn_ctx = 7, cn_user_id = 100, cn_datasource_name = ''crm'' \<rparr>)] \<rparr>"
  have auth: "authenticate (su_auth desk_startup) (open_conn desk_db) (Inr ()) ''ann'' ''secret'' desk_db =
      (Inr ?user, touch_login (su_auth desk_startup) 100 desk_db)"
    by (simp add: authenticate_def find_login_def desk_user desk_startup_def)
  have "admit desk_startup (open_conn desk_db) ?user ''peer'' desk_params desk_accepted = (Inr (), ?md, ?s)"
    by (simp add: admit_def desk_user desk_admission desk_startup_def desk_params_def desk_accepted_def
      register_connection_def conn_store_new_def Let_def)
  with auth have "on_password desk_startup (open_conn desk_db) (Inr ()) ''peer'' ''secret'' desk_params desk_accepted desk_db =
      (Inr (), ?md, ?s, touch_login (su_auth desk_startup) 100 desk_db)"
    by (simp add: on_password_def desk_params_def)
  moreover have "get_ctx ?md ?s = Inr 7"
    by (subst get_ctx_show [of _ 0]) simp_all
  ultimately show thesis by (rule that)
qed

theorem only_authorised_users_connect_witness:
  "\<exists>md' s' d' user hash ds i ctx.
     on_password desk_startup (open_conn desk_db) (Inr ()) ''peer'' ''secret'' desk_params desk_accepted desk_db = (Inr (), md', s', d') \<and>
     user \<in> set (t_proxy_user desk_db) \<and> pu_username user = unwrap_or (desk_params ''user'') '''' \<and> pu_is_active user \<and>
     ae_parse_hash (su_auth desk_startup) (pu_password_hash user) = Inr hash \<and> ae_verify (su_auth desk_startup) ''secret'' hash \<and>
     ds \<in> set (t_data_source desk_db) \<and> desk_params ''database'' = Some (ds_name ds) \<and> ds_is_active ds \<and>
     has_access desk_db (pu_id user) (ds_id ds) \<and> su_build desk_startup (pu_id user) (ds_name ds) = Inr ctx \<and>
     map_of (cs_connection_contexts s') i = Some \<lparr> cn_ctx = ctx, cn_user_id = pu_id user, cn_datasource_name = ds_name ds \<rparr> \<and>
     md' ''user_id'' = Some (su_show_uuid desk_startup (pu_id user)) \<and> md' ''datasource'' = Some (ds_name ds)"
proof -
  obtain md' s' d' where run:
    "on_password desk_startup (open_conn desk_db) (Inr ()) ''peer'' ''secret'' desk_params desk_accepted desk_db = (Inr (), md', s', d')"
    by (rule desk_password)
  from only_authorised_users_connect [OF run] run show ?thesis by blast
qed

theorem clients_use_their_own_context_witness:
  "\<exists>p i c e. (proxy_step (su_show_uuid desk_startup) (\<lambda>u n ctx. su_build desk_startup u n = Inr ctx))\<^sup>*\<^sup>* proxy_start p \<and> px_clients p i = Some c \<and> cl_ready c \<and>
     get_ctx (cl_metadata c) (px_store p) = Inr (7 :: nat) \<and>
     map_of (cs_connection_contexts (px_store p)) i = Some e \<and> cn_ctx e = 7 \<and>
     su_build desk_startup (cn_user_id e) (cn_datasource_name e) = Inr 7 \<and>
     cl_metadata c ''user_id'' = Some (su_show_uuid desk_startup (cn_user_id e)) \<and>
     cl_metadata c ''datasource'' = Some (cn_datasource_name e)"
proof -
  define show_uuid where "show_uuid = su_show_uuid desk_startup"
  define made where "made = (\<lambda>u n ctx. su_build desk_startup u n = Inr ctx)"
  define c where "c = \<lparr> cl_addr = ''peer'', cl_metadata = desk_params, cl_ready = False \<rparr>"
  define p1 :: "nat proxy" where "p1 = proxy_start\<lparr> px_store := desk_accepted,
      px_accepted := px_accepted (proxy_start :: nat proxy) + 1,
      px_clients := (px_clients (proxy_start :: nat proxy))(0 \<mapsto> c) \<rparr>"
  obtain md' s' d' where run:
    "on_password desk_startup (open_conn desk_db) (Inr ()) ''peer'' ''secret'' desk_params desk_accepted desk_db = (Inr (), md', s', d')"
    and ctx: "get_ctx md' s' = Inr 7"
    by (rule desk_password)
  define c2 where "c2 = c\<lparr> cl_metadata := md', cl_ready := (Inr () = (Inr () :: (pg_error, unit) result)) \<rparr>"
  define p2 where "p2 = p1\<lparr> px_store := s', px_clients := (px_clients p1)(0 \<mapsto> c2) \<rparr>"
  have step1: "proxy_step show_uuid made proxy_start p1"
    unfolding p1_def c_def
    by (rule proxy_step.accept) (simp_all add: proxy_start_def desk_accepted_def register_connection_def conn_store_new_def Let_def)
  have "px_clients p1 0 = Some c" "\<not> cl_ready c" "su_show_uuid desk_startup = show_uuid"
    "builds_only made (su_build desk_startup)"
    "on_password desk_startup (open_conn desk_db) (Inr ()) (cl_addr c) ''secret'' (cl_metadata c) (px_store p1) desk_db = (Inr (), md', s', d')"
    using run by (simp_all add: p1_def c_def show_uuid_def made_def builds_only_def)
  then have step2: "proxy_step show_uuid made p1 p2"
    unfolding p2_def c2_def by (rule proxy_step.password)
  have "(proxy_step show_uuid made)\<^sup>*\<^sup>* proxy_start p1"
    using step1 by (rule r_into_rtranclp)
  then have reach: "(proxy_step show_uuid made)\<^sup>*\<^sup>* proxy_start p2"
    using step2 by (rule rtranclp.rtrancl_into_rtrancl)
  have p2: "px_accepted p2 \<le> 2 ^ 64" "px_clients p2 0 = Some c2" "cl_ready c2" "get_ctx (cl_metadata c2) (px_store p2) = Inr 7"
    using ctx by (simp_all add: p2_def p1_def c2_def proxy_start_def)
  show ?thesis
    using clients_use_their_own_context [of show_uuid made p2 0 c2 7] reach p2 unfolding show_uuid_def made_def by metis
qed

end
