(* ===== verification/ArrowTypes.thy ===== *)
theory ArrowTypes
  imports CatalogEntities
begin

text \<open>
  Column types of the stored catalog (\<open>engine/mod.rs\<close>): the text form in which an Arrow type is kept in the
  database, its reader, and the schema built from the stored columns of a table.

  Types outside the list of the source print with the library's debug format, which is the argument of
  \<open>DOther\<close>.
\<close>

section \<open>Types and their text\<close>

datatype time_unit = Nanosecond | Microsecond

datatype data_type =
    DInt8 | DInt16 | DInt32 | DInt64 | DUInt32 | DFloat32 | DFloat64 | DBoolean | DUtf8 | DDate32 | DBinary
  | DTime64Nanosecond
  | DTimestamp time_unit "string option"
  | DDecimal128 nat int
  | DOther string

definition dq :: string where
  "dq = [CHR 0x22]"

fun arrow_type_to_string :: "data_type \<Rightarrow> string" where
  "arrow_type_to_string DInt8 = ''Int8''"
| "arrow_type_to_string DInt16 = ''Int16''"
| "arrow_type_to_string DInt32 = ''Int32''"
| "arrow_type_to_string DInt64 = ''Int64''"
| "arrow_type_to_string DUInt32 = ''UInt32''"
| "arrow_type_to_string DFloat32 = ''Float32''"
| "arrow_type_to_string DFloat64 = ''Float64''"
| "arrow_type_to_string DBoolean = ''Boolean''"
| "arrow_type_to_string DUtf8 = ''Utf8''"
| "arrow_type_to_string DDate32 = ''Date32''"
| "arrow_type_to_string DBinary = ''Binary''"
| "arrow_type_to_string DTime64Nanosecond = ''Time64(Nanosecond)''"
| "arrow_type_to_string (DDecimal128 p s) = ''Decimal128('' @ show_nat p @ '','' @ show_int s @ '')''"
| "arrow_type_to_string (DTimestamp Nanosecond None) = ''Timestamp(Nanosecond,None)''"
| "arrow_type_to_string (DTimestamp Nanosecond (Some tz)) = ''Timestamp(Nanosecond,Some('' @ dq @ tz @ dq @ ''))''"
| "arrow_type_to_string (DTimestamp Microsecond None) = ''Timestamp(Microsecond,None)''"
| "arrow_type_to_string (DTimestamp Microsecond (Some tz)) = ''Timestamp(Microsecond,Some('' @ dq @ tz @ dq @ ''))''"
| "arrow_type_to_string (DOther s) = s"

definition splitn2 :: "char \<Rightarrow> string \<Rightarrow> string \<times> string option" where
  "splitn2 c s =
     (takeWhile (\<lambda>x. x \<noteq> c) s, case dropWhile (\<lambda>x. x \<noteq> c) s of [] \<Rightarrow> None | _ # rest \<Rightarrow> Some rest)"

definition parse_decimal :: "string \<Rightarrow> data_type option" where
  "parse_decimal s =
     (let inner = butlast (drop 11 s); (first, second) = splitn2 (CHR '','') inner in
      case parse_uint 8 (trim first) of
        None \<Rightarrow> None
      | Some p \<Rightarrow>
          (case second of
             None \<Rightarrow> None
           | Some x \<Rightarrow> map_option (DDecimal128 p) (parse_sint 8 (trim x))))"

definition parse_arrow_type :: "string \<Rightarrow> data_type option" where
  "parse_arrow_type s =
     (if s = ''Int8'' then Some DInt8
      else if s = ''Int16'' then Some DInt16
      else if s = ''Int32'' then Some DInt32
      else if s = ''Int64'' then Some DInt64
      else if s = ''UInt32'' then Some DUInt32
      else if s = ''Float32'' then Some DFloat32
      else if s = ''Float64'' then Some DFloat64
      else if s = ''Boolean'' then Some DBoolean
      else if s = ''Utf8'' then Some DUtf8
      else if s = ''Date32'' then Some DDate32
      else if s = ''Binary'' then Some DBinary
      else if s = ''Time64(Nanosecond)'' then Some DTime64Nanosecond
      else if s = ''Timestamp(Nanosecond,None)'' then Some (DTimestamp Nanosecond None)
      else if s = ''Timestamp(Microsecond,None)'' then Some (DTimestamp Microsecond None)
      else if starts_with s ''Timestamp(Nanosecond,Some('' then Some (DTimestamp Nanosecond (Some ''UTC''))
      else if starts_with s ''Timestamp(Microsecond,Some('' then Some (DTimestamp Microsecond (Some ''UTC''))
      else if starts_with s ''Decimal128('' \<and> ends_with s '')'' then parse_decimal s
      else None)"

section \<open>Schemas\<close>

record field =
  fd_name :: string
  fd_type :: data_type
  fd_nullable :: bool

definition column_field :: "discovered_column_row \<Rightarrow> (i32 \<times> field) option" where
  "column_field col =
     (if \<not> dco_is_selected col then None
      else case dco_arrow_type col of
        None \<Rightarrow> None
      | Some t \<Rightarrow> map_option (\<lambda>ty. (dco_ordinal_position col,
          \<lparr> fd_name = dco_column_name col, fd_type = ty, fd_nullable = dco_is_nullable col \<rparr>)) (parse_arrow_type t))"

definition build_arrow_schema :: "discovered_column_row list \<Rightarrow> field list" where
  "build_arrow_schema cols = map snd (sort_key fst (List.map_filter column_field cols))"

section \<open>Round trip\<close>

text \<open>What reading back makes of a type: every time zone becomes UTC.\<close>

fun stored_type :: "data_type \<Rightarrow> data_type" where
  "stored_type (DTimestamp u (Some tz)) = DTimestamp u (Some ''UTC'')"
| "stored_type t = t"

fun storable :: "data_type \<Rightarrow> bool" where
  "storable (DDecimal128 p s) \<longleftrightarrow> p < 2 ^ 8 \<and> - (2 ^ 7) \<le> s \<and> s < 2 ^ 7"
| "storable (DOther s) \<longleftrightarrow> False"
| "storable _ \<longleftrightarrow> True"

lemma digit_not_blank: "is_ascii_digit c \<Longrightarrow> \<not> is_blank c"
  by (auto simp: is_ascii_digit_def is_blank_def less_eq_char_def)

lemma trim_no_blank:
  assumes "\<forall>c \<in> set s. \<not> is_blank c"
  shows "trim s = s"
proof -
  have "dropWhile is_blank s = s" "dropWhile is_blank (rev s) = rev s"
    using assms by (auto simp: dropWhile_eq_self_iff hd_rev)
  then show ?thesis by (simp add: trim_def)
qed

lemma show_nat_plain: "c \<in> set (show_nat n) \<Longrightarrow> \<not> is_blank c \<and> c \<noteq> CHR '',''"
  using show_nat_digits [of c n] digit_not_blank [of c] by (auto simp: is_ascii_digit_def)

lemma show_int_plain: "c \<in> set (show_int n) \<Longrightarrow> \<not> is_blank c"
  using show_nat_plain by (auto simp: show_int_def is_blank_def split: if_splits)

lemma splitn2_comma: "CHR '','' \<notin> set xs \<Longrightarrow> splitn2 (CHR '','') (xs @ '','' @ ys) = (xs, Some ys)"
  by (auto simp: splitn2_def takeWhile_append dropWhile_append)

lemma parse_decimal_show:
  assumes "p < 2 ^ 8" "- (2 ^ 7) \<le> s" "s < 2 ^ 7"
  shows "parse_decimal (arrow_type_to_string (DDecimal128 p s)) = Some (DDecimal128 p s)"
proof -
  have "butlast (drop 11 (arrow_type_to_string (DDecimal128 p s))) = show_nat p @ '','' @ show_int s"
    by (simp add: butlast_append)
  moreover have "CHR '','' \<notin> set (show_nat p)" using show_nat_plain by blast
  moreover have "trim (show_nat p) = show_nat p" "trim (show_int s) = show_int s"
    using show_nat_plain show_int_plain by (auto intro!: trim_no_blank)
  moreover have "parse_uint 8 (show_nat p) = Some p" "parse_sint 8 (show_int s) = Some s"
    using assms by (auto intro!: parse_uint_show_nat parse_sint_show_int)
  ultimately show ?thesis using splitn2_comma [of "show_nat p" "show_int s"] by (simp add: parse_decimal_def)
qed

lemma parse_arrow_decimal: "parse_arrow_type (''Decimal128('' @ xs @ '')'') = parse_decimal (''Decimal128('' @ xs @ '')'')"
  by (simp add: parse_arrow_type_def starts_with_def ends_with_def suffix_def)

lemma parse_arrow_zone:
  "parse_arrow_type (''Timestamp(Nanosecond,Some('' @ xs) = Some (DTimestamp Nanosecond (Some ''UTC''))"
  "parse_arrow_type (''Timestamp(Microsecond,Some('' @ xs) = Some (DTimestamp Microsecond (Some ''UTC''))"
  by (simp_all add: parse_arrow_type_def starts_with_def)

text \<open>Stored column types read back: every type the catalog can store is read back from its text as itself,
  except that any time zone comes back as UTC.\<close>

theorem arrow_type_round_trip:
  assumes "storable t"
  shows "parse_arrow_type (arrow_type_to_string t) = Some (stored_type t)"
proof (cases t)
  case (DTimestamp u tz)
  then show ?thesis
    by (cases u; cases tz) (simp_all add: parse_arrow_zone [simplified], simp_all add: parse_arrow_type_def)
next
  case (DDecimal128 p s)
  with assms parse_decimal_show [of p s] parse_arrow_decimal [of "show_nat p @ '','' @ show_int s"] show ?thesis by simp
qed (use assms in \<open>simp_all add: parse_arrow_type_def\<close>)

theorem arrow_type_round_trip_witness:
  "parse_arrow_type (arrow_type_to_string (DDecimal128 38 (- 2))) = Some (DDecimal128 38 (- 2))"
  using arrow_type_round_trip [of "DDecimal128 38 (- 2)"] by simp

end
