(* ===== verification/DataSourceConfig.thy ===== *)
theory DataSourceConfig
  imports PolicyEffects Entities "HOL-Library.Char_ord" "HOL-Library.List_Lexorder"
begin

text \<open>
  The connection configuration of a data source: the registry of data source types, splitting and merging
  configurations into their public and their secret part (\<open>admin/datasource_types.rs\<close>), encryption at rest
  (\<open>crypto.rs\<close>) and reading a stored row back (\<open>DataSourceConfig\<close> of \<open>engine/mod.rs\<close>).

  JSON text, AES-GCM and base64 are third-party code and parameters of the model. A JSON object is the list of
  the entries of serde's ordered map, with ascending keys.
\<close>

section \<open>JSON objects\<close>

fun json_as_object :: "json \<Rightarrow> (string \<times> json) list option" where
  "json_as_object (JObject fs) = Some fs"
| "json_as_object _ = None"

fun json_as_u64 :: "json \<Rightarrow> nat option" where
  "json_as_u64 (JInt i) = (if 0 \<le> i \<and> i < 2 ^ 64 then Some (nat i) else None)"
| "json_as_u64 _ = None"

fun object_insert :: "string \<Rightarrow> json \<Rightarrow> (string \<times> json) list \<Rightarrow> (string \<times> json) list" where
  "object_insert k v [] = [(k, v)]"
| "object_insert k v ((k', v') # fs) =
     (if k < k' then (k, v) # (k', v') # fs
      else if k = k' then (k, v) # fs
      else (k', v') # object_insert k v fs)"

lemma map_of_object_insert [simp]: "sorted_wrt (<) (map fst fs) \<Longrightarrow> map_of (object_insert k v fs) = (map_of fs)(k \<mapsto> v)"
  by (induction fs) (auto simp: fun_eq_iff map_of_eq_None_iff)

lemma fst_set_object_insert [simp]: "fst ` set (object_insert k v fs) = insert k (fst ` set fs)"
  by (induction k v fs rule: object_insert.induct) (simp_all add: insert_commute)

lemma sorted_object_insert [simp]: "sorted_wrt (<) (map fst fs) \<Longrightarrow> sorted_wrt (<) (map fst (object_insert k v fs))"
proof (induction k v fs rule: object_insert.induct)
  case (2 k v k' v' fs)
  have "k' < x" if "x \<in> fst ` set (object_insert k v fs)" "\<not> k < k'" "k \<noteq> k'" for x
    using that 2(2) by auto
  with 2 show ?case by auto
qed simp

section \<open>Encryption at rest\<close>

record crypto_lib =
  cl_json :: "string \<Rightarrow> (string, json) result"
  cl_show_json :: "json \<Rightarrow> string"
  cl_encrypt :: "string \<Rightarrow> string \<Rightarrow> string \<Rightarrow> (string, string) result"
  cl_decrypt :: "string \<Rightarrow> string \<Rightarrow> string \<Rightarrow> (string, string) result"
  cl_b64_encode :: "string \<Rightarrow> string"
  cl_b64_decode :: "string \<Rightarrow> (string, string) result"

datatype crypto_error = EncryptErr string | DecryptErr string | DecodeErr string | JsonErr string

fun crypto_error_text :: "crypto_error \<Rightarrow> string" where
  "crypto_error_text (EncryptErr e) = ''Encryption error: '' @ e"
| "crypto_error_text (DecryptErr e) = ''Decryption error: '' @ e"
| "crypto_error_text (DecodeErr e) = ''Base64 decode error: '' @ e"
| "crypto_error_text (JsonErr e) = ''JSON error: '' @ e"

definition encrypt_json :: "crypto_lib \<Rightarrow> string \<Rightarrow> json \<Rightarrow> string \<Rightarrow> (crypto_error, string) result" where
  "encrypt_json lib nonce_bytes data key =
     (let plaintext = cl_show_json lib data in
      bind_result (map_err EncryptErr (cl_encrypt lib key nonce_bytes plaintext)) (\<lambda>ciphertext.
        Inr (cl_b64_encode lib (nonce_bytes @ ciphertext))))"

definition decrypt_json :: "crypto_lib \<Rightarrow> string \<Rightarrow> string \<Rightarrow> (crypto_error, json) result" where
  "decrypt_json lib encoded key =
     bind_result (map_err DecodeErr (cl_b64_decode lib encoded)) (\<lambda>data.
     if length data < 12 then Inl (DecryptErr ''Ciphertext too short (< 12 bytes)'')
     else
       bind_result (map_err DecryptErr (cl_decrypt lib key (take 12 data) (drop 12 data))) (\<lambda>plaintext.
         map_err JsonErr (cl_json lib plaintext)))"

text \<open>What the libraries promise: each decoder reads back what its encoder wrote.\<close>

definition crypto_laws :: "crypto_lib \<Rightarrow> bool" where
  "crypto_laws lib \<longleftrightarrow> (\<forall>key n p c. cl_encrypt lib key n p = Inr c \<longrightarrow> cl_decrypt lib key n c = Inr p) \<and>
     (\<forall>b. cl_b64_decode lib (cl_b64_encode lib b) = Inr b) \<and> (\<forall>b. b \<noteq> [] \<longrightarrow> cl_b64_encode lib b \<noteq> [])"

definition serde_reads_back :: "crypto_lib \<Rightarrow> json \<Rightarrow> bool" where
  "serde_reads_back lib j \<longleftrightarrow> cl_json lib (cl_show_json lib j) = Inr j"

lemma decrypt_encrypt:
  assumes "crypto_laws lib" "serde_reads_back lib data" "length nonce = 12" "encrypt_json lib nonce data key = Inr s"
  shows "decrypt_json lib s key = Inr data"
proof -
  from assms(4) obtain c where c: "cl_encrypt lib key nonce (cl_show_json lib data) = Inr c" "s = cl_b64_encode lib (nonce @ c)"
    by (auto simp: encrypt_json_def Let_def)
  with assms(1-3) show ?thesis
    by (simp add: decrypt_json_def crypto_laws_def serde_reads_back_def)
qed

section \<open>The type registry\<close>

datatype field_type = TextField | NumberField | SelectField "string list" | TextAreaField

record field_def =
  fdf_key :: string
  fdf_label :: string
  fdf_type :: field_type
  fdf_required :: bool
  fdf_is_secret :: bool
  fdf_default_value :: "string option"

record data_source_type_def =
  td_ds_type :: string
  td_label :: string
  td_fields :: "field_def list"

definition field_of :: "string \<Rightarrow> string \<Rightarrow> field_type \<Rightarrow> bool \<Rightarrow> string option \<Rightarrow> field_def" where
  "field_of k lab ty secret def =
     \<lparr> fdf_key = k, fdf_label = lab, fdf_type = ty, fdf_required = True, fdf_is_secret = secret, fdf_default_value = def \<rparr>"

definition get_type_defs :: "data_source_type_def list" where
  "get_type_defs =
     [\<lparr> td_ds_type = ''postgres'', td_label = ''PostgreSQL'',
        td_fields =
          [field_of ''host'' ''Host'' TextField False None,
           field_of ''port'' ''Port'' NumberField False (Some ''5432''),
           field_of ''database'' ''Database'' TextField False None,
           field_of ''username'' ''Username'' TextField False None,
           field_of ''password'' ''Password'' TextField True None,
           field_of ''sslmode'' ''SSL Mode'' (SelectField [''disable'', ''prefer'', ''require'']) False (Some ''require'')] \<rparr>]"

definition get_type_def :: "string \<Rightarrow> data_source_type_def option" where
  "get_type_def ds_type = find (\<lambda>d. td_ds_type d = ds_type) get_type_defs"

datatype config_error = UnknownType string | MissingRequiredField string | InvalidInput string

fun config_error_text :: "config_error \<Rightarrow> string" where
  "config_error_text (UnknownType t) = ''Unknown data source type: '' @ t"
| "config_error_text (MissingRequiredField k) = ''Missing required field: '' @ k"
| "config_error_text (InvalidInput msg) = ''Invalid input: '' @ msg"

type_synonym split_result = "((string \<times> json) list) \<times> ((string \<times> json) list)"

definition put_field :: "field_def \<Rightarrow> json \<Rightarrow> split_result \<Rightarrow> split_result" where
  "put_field field v = (\<lambda>(config, secure).
     if fdf_is_secret field then (config, object_insert (fdf_key field) v secure)
     else (object_insert (fdf_key field) v config, secure))"

definition default_json :: "field_def \<Rightarrow> string \<Rightarrow> (config_error, json) result" where
  "default_json field dflt =
     (case fdf_type field of
        NumberField \<Rightarrow>
          map_sum (\<lambda>_. InvalidInput (''Default for '' @ sq (fdf_key field) @ '' is not a valid number'')) JInt
            (ok_or (parse_sint 64 dflt) ())
      | _ \<Rightarrow> Inr (JString dflt))"

fun split_fields ::
  "(string \<times> json) list \<Rightarrow> field_def list \<Rightarrow> split_result \<Rightarrow> (config_error, split_result) result" where
  "split_fields input [] acc = Inr acc"
| "split_fields input (field # rest) acc =
     (case map_of input (fdf_key field) of
        Some v \<Rightarrow> split_fields input rest (put_field field v acc)
      | None \<Rightarrow>
          (case fdf_default_value field of
             Some dflt \<Rightarrow> bind_result (default_json field dflt) (\<lambda>v. split_fields input rest (put_field field v acc))
           | None \<Rightarrow>
               if fdf_required field then Inl (MissingRequiredField (fdf_key field))
               else split_fields input rest acc))"

definition split_config :: "string \<Rightarrow> json \<Rightarrow> (config_error, json \<times> json) result" where
  "split_config ds_type config_input =
     bind_result (ok_or (get_type_def ds_type) (UnknownType ds_type)) (\<lambda>type_def.
     bind_result (ok_or (json_as_object config_input) (InvalidInput ''config must be a JSON object'')) (\<lambda>input.
     bind_result (split_fields input (td_fields type_def) ([], [])) (\<lambda>(config, secure).
       Inr (JObject config, JObject secure))))"

definition keep_field :: "(string \<times> json) list \<Rightarrow> field_def \<Rightarrow> split_result \<Rightarrow> split_result" where
  "keep_field existing field acc =
     (case map_of existing (fdf_key field) of None \<Rightarrow> acc | Some v \<Rightarrow> put_field field v acc)"

definition merge_field ::
  "(string \<times> json) list \<Rightarrow> (string \<times> json) list \<Rightarrow> (string \<times> json) list \<Rightarrow> field_def \<Rightarrow> split_result \<Rightarrow> split_result" where
  "merge_field existing_cfg existing_sec input field acc =
     (case map_of input (fdf_key field) of
        Some val \<Rightarrow>
          if fdf_is_secret field then
            (if json_as_str val \<noteq> Some [] then put_field field val acc else keep_field existing_sec field acc)
          else put_field field val acc
      | None \<Rightarrow>
          if fdf_is_secret field then keep_field existing_sec field acc else keep_field existing_cfg field acc)"

definition merge_config :: "string \<Rightarrow> json \<Rightarrow> json \<Rightarrow> json \<Rightarrow> (config_error, json \<times> json) result" where
  "merge_config ds_type existing_config existing_secure update_input =
     bind_result (ok_or (get_type_def ds_type) (UnknownType ds_type)) (\<lambda>type_def.
     bind_result (ok_or (json_as_object update_input) (InvalidInput ''config must be a JSON object'')) (\<lambda>input.
       let existing_cfg = unwrap_or (json_as_object existing_config) [];
           existing_sec = unwrap_or (json_as_object existing_secure) [];
           (config, secure) = fold (merge_field existing_cfg existing_sec input) (td_fields type_def) ([], [])
       in Inr (JObject config, JObject secure)))"

section \<open>Reading a stored configuration\<close>

record data_source_config =
  dc_host :: string
  dc_port :: nat
  dc_database :: string
  dc_username :: string
  dc_password :: string
  dc_ssl_mode :: string

definition json_field :: "json \<Rightarrow> string \<Rightarrow> json" where
  "json_field j k = unwrap_or (json_get j k) JNull"

text \<open>The port is read as a 64-bit number and cut to 16 bits.\<close>

definition from_model :: "crypto_lib \<Rightarrow> string \<Rightarrow> data_source_row \<Rightarrow> (string, data_source_config) result" where
  "from_model lib master_key model =
     (if ds_ds_type model \<noteq> ''postgres'' then Inl (''Unsupported data source type: '' @ ds_ds_type model)
      else
        bind_result (map_err (\<lambda>e. ''Invalid config JSON: '' @ e) (cl_json lib (ds_config model))) (\<lambda>config.
        bind_result (if ds_secure_config model = [] then Inr (JObject [])
            else map_err (\<lambda>e. ''Failed to decrypt secure_config: '' @ crypto_error_text e)
              (decrypt_json lib (ds_secure_config model) master_key)) (\<lambda>secure.
        bind_result (ok_or (json_as_str (json_field config ''host'')) ''missing host in config'') (\<lambda>host.
        bind_result (ok_or (json_as_u64 (json_field config ''port'')) ''missing port in config'') (\<lambda>port.
        bind_result (ok_or (json_as_str (json_field config ''database'')) ''missing database in config'') (\<lambda>database.
        bind_result (ok_or (json_as_str (json_field config ''username'')) ''missing username in config'') (\<lambda>username.
        bind_result (ok_or (json_as_str (json_field secure ''password'')) ''missing password in secure_config'') (\<lambda>password.
          Inr \<lparr> dc_host = host, dc_port = port mod 2 ^ 16, dc_database = database, dc_username = username,
                dc_password = password,
                dc_ssl_mode = unwrap_or (case json_get config ''sslmode'' of None \<Rightarrow> None | Some v \<Rightarrow> json_as_str v) ''require'' \<rparr>))))))))"

definition build_postgres_params :: "data_source_config \<Rightarrow> (string \<rightharpoonup> string)" where
  "build_postgres_params cfg =
     collect_map [(''host'', dc_host cfg), (''user'', dc_username cfg), (''db'', dc_database cfg), (''pass'', dc_password cfg),
       (''port'', show_nat (dc_port cfg)), (''sslmode'', dc_ssl_mode cfg)]"

section \<open>Lookups in split configurations\<close>

definition put_all :: "(field_def \<Rightarrow> json option) \<Rightarrow> field_def list \<Rightarrow> split_result \<Rightarrow> split_result" where
  "put_all val fs acc = fold (\<lambda>f acc. case val f of None \<Rightarrow> acc | Some v \<Rightarrow> put_field f v acc) fs acc"

definition field_value :: "(string \<times> json) list \<Rightarrow> field_def \<Rightarrow> json option" where
  "field_value input f =
     (case map_of input (fdf_key f) of
        Some v \<Rightarrow> Some v
      | None \<Rightarrow>
          (case fdf_default_value f of
             None \<Rightarrow> None
           | Some d \<Rightarrow> (case default_json f d of Inl _ \<Rightarrow> None | Inr v \<Rightarrow> Some v)))"

definition merged_value ::
  "(string \<times> json) list \<Rightarrow> (string \<times> json) list \<Rightarrow> (string \<times> json) list \<Rightarrow> field_def \<Rightarrow> json option" where
  "merged_value cfg sec input f =
     (case map_of input (fdf_key f) of
        Some v \<Rightarrow> if fdf_is_secret f \<and> json_as_str v = Some [] then map_of sec (fdf_key f) else Some v
      | None \<Rightarrow> map_of (if fdf_is_secret f then sec else cfg) (fdf_key f))"

lemma put_all_Cons: "put_all val (f # fs) acc = put_all val fs (case val f of None \<Rightarrow> acc | Some v \<Rightarrow> put_field f v acc)"
  by (simp add: put_all_def)

lemma split_fields_put: "split_fields input fs acc = Inr acc' \<Longrightarrow> acc' = put_all (field_value input) fs acc"
proof (induction input fs acc rule: split_fields.induct)
  case (2 input f fs acc)
  then show ?case
    by (cases "map_of input (fdf_key f)"; cases "fdf_default_value f")
      (auto simp: put_all_Cons field_value_def split: if_splits)
qed (simp add: put_all_def)

lemma merge_fields_put: "fold (merge_field cfg sec input) fs acc = put_all (merged_value cfg sec input) fs acc"
proof -
  have "merge_field cfg sec input f acc = (case merged_value cfg sec input f of None \<Rightarrow> acc | Some v \<Rightarrow> put_field f v acc)" for f acc
    by (auto simp: merge_field_def merged_value_def keep_field_def split: option.splits)
  then show ?thesis unfolding put_all_def by presburger
qed

definition canonical :: "split_result \<Rightarrow> bool" where
  "canonical acc \<longleftrightarrow> sorted_wrt (<) (map fst (fst acc)) \<and> sorted_wrt (<) (map fst (snd acc))"

lemma canonical_put_field: "canonical acc \<Longrightarrow> canonical (put_field f v acc)"
  by (cases acc) (simp add: canonical_def put_field_def)

lemma canonical_put_all: "canonical acc \<Longrightarrow> canonical (put_all val fs acc)"
  unfolding put_all_def by (induction fs arbitrary: acc) (simp_all add: canonical_put_field split: option.split)

lemma put_all_lookup:
  assumes "canonical acc" "distinct (map fdf_key fs)"
  shows "map_of (fst (put_all val fs acc)) k =
      (case find (\<lambda>f. fdf_key f = k \<and> \<not> fdf_is_secret f \<and> val f \<noteq> None) fs of Some f \<Rightarrow> val f | None \<Rightarrow> map_of (fst acc) k) \<and>
    map_of (snd (put_all val fs acc)) k =
      (case find (\<lambda>f. fdf_key f = k \<and> fdf_is_secret f \<and> val f \<noteq> None) fs of Some f \<Rightarrow> val f | None \<Rightarrow> map_of (snd acc) k)"
  using assms
proof (induction fs arbitrary: acc)
  case (Cons f fs)
  have fresh: "find (\<lambda>g. fdf_key g = fdf_key f \<and> P g) fs = None" for P
    using Cons.prems(2) by (auto simp: find_None_iff image_iff)
  define acc' where "acc' = (case val f of None \<Rightarrow> acc | Some v \<Rightarrow> put_field f v acc)"
  have step: "put_all val (f # fs) acc = put_all val fs acc'" by (simp add: put_all_Cons acc'_def)
  have can: "canonical acc'" using Cons.prems(1) by (simp add: acc'_def canonical_put_field split: option.split)
  have acc': "map_of (fst acc') j = (if j = fdf_key f \<and> \<not> fdf_is_secret f \<and> val f \<noteq> None then val f else map_of (fst acc) j)"
    "map_of (snd acc') j = (if j = fdf_key f \<and> fdf_is_secret f \<and> val f \<noteq> None then val f else map_of (snd acc) j)" for j
    using Cons.prems(1) by (cases acc; auto simp: acc'_def canonical_def put_field_def split: option.split)+
  show ?case
    using Cons.IH [OF can] Cons.prems(2) fresh [of "\<lambda>g. \<not> fdf_is_secret g \<and> val g \<noteq> None"]
      fresh [of "\<lambda>g. fdf_is_secret g \<and> val g \<noteq> None"]
    by (auto simp: step acc' split: option.split)
qed (simp_all add: put_all_def)

lemma postgres_fields:
  "get_type_def ty = Some def \<Longrightarrow> ty = ''postgres'' \<and> def = hd get_type_defs"
  "distinct (map fdf_key (td_fields (hd get_type_defs)))"
  by (auto simp: get_type_def_def get_type_defs_def field_of_def split: if_splits)

lemma split_config_parts:
  assumes "split_config ty input = Inr (c, s)"
  obtains fs acc where "input = JObject fs" "get_type_def ty = Some (hd get_type_defs)"
    "c = JObject (fst acc)" "s = JObject (snd acc)" "canonical acc"
    "acc = put_all (field_value fs) (td_fields (hd get_type_defs)) ([], [])"
proof -
  from assms obtain def fs acc where *: "get_type_def ty = Some def" "json_as_object input = Some fs"
    "split_fields fs (td_fields def) ([], []) = Inr acc" "c = JObject (fst acc)" "s = JObject (snd acc)"
    by (auto simp: split_config_def split_beta)
  have "input = JObject fs" using *(2) by (cases input) simp_all
  moreover have "canonical ([], [])" by (simp add: canonical_def)
  ultimately show thesis
    using * split_fields_put [OF *(3)] canonical_put_all postgres_fields(1) [OF *(1)] by (intro that) auto
qed

lemma put_all_keys:
  "fst ` set (fst (put_all val fs acc)) \<subseteq> fst ` set (fst acc) \<union> fdf_key ` {f \<in> set fs. \<not> fdf_is_secret f}"
  "fst ` set (snd (put_all val fs acc)) \<subseteq> fst ` set (snd acc) \<union> fdf_key ` {f \<in> set fs. fdf_is_secret f}"
proof -
  have one: "fst ` set (fst (put_field f v acc)) = fst ` set (fst acc) \<union> (if fdf_is_secret f then {} else {fdf_key f})"
    "fst ` set (snd (put_field f v acc)) = fst ` set (snd acc) \<union> (if fdf_is_secret f then {fdf_key f} else {})" for f v acc
    by (cases acc; simp add: put_field_def)+
  show "fst ` set (fst (put_all val fs acc)) \<subseteq> fst ` set (fst acc) \<union> fdf_key ` {f \<in> set fs. \<not> fdf_is_secret f}"
  proof (induction fs arbitrary: acc)
    case (Cons f fs)
    show ?case using Cons [of "case val f of None \<Rightarrow> acc | Some v \<Rightarrow> put_field f v acc"]
      unfolding put_all_Cons by (cases "val f") (auto simp: one split: if_splits)
  qed (simp add: put_all_def)
  show "fst ` set (snd (put_all val fs acc)) \<subseteq> fst ` set (snd acc) \<union> fdf_key ` {f \<in> set fs. fdf_is_secret f}"
  proof (induction fs arbitrary: acc)
    case (Cons f fs)
    show ?case using Cons [of "case val f of None \<Rightarrow> acc | Some v \<Rightarrow> put_field f v acc"]
      unfolding put_all_Cons by (cases "val f") (auto simp: one split: if_splits)
  qed (simp add: put_all_def)
qed

lemma split_lookup:
  fixes fs
  defines "acc \<equiv> put_all (field_value fs) (td_fields (hd get_type_defs)) ([], [])"
  shows "map_of (fst acc) ''host'' = map_of fs ''host''" "map_of (fst acc) ''database'' = map_of fs ''database''"
    "map_of (fst acc) ''username'' = map_of fs ''username''" "map_of (snd acc) ''password'' = map_of fs ''password''"
    "map_of (fst acc) ''port'' = Some (unwrap_or (map_of fs ''port'') (JInt 5432))"
    "map_of (fst acc) ''sslmode'' = Some (unwrap_or (map_of fs ''sslmode'') (JString ''require''))"
proof -
  have port: "default_json (field_of ''port'' ''Port'' NumberField False (Some ''5432'')) ''5432'' = Inr (JInt 5432)"
    by code_simp
  have ssl: "default_json (field_of ''sslmode'' ''SSL Mode'' (SelectField opts) False d) ''require'' = Inr (JString ''require'')" for opts d
    by (simp add: default_json_def field_of_def)
  have look: "map_of (fst acc) k = (case find (\<lambda>f. fdf_key f = k \<and> \<not> fdf_is_secret f \<and> field_value fs f \<noteq> None)
        (td_fields (hd get_type_defs)) of Some f \<Rightarrow> field_value fs f | None \<Rightarrow> None)"
    "map_of (snd acc) k = (case find (\<lambda>f. fdf_key f = k \<and> fdf_is_secret f \<and> field_value fs f \<noteq> None)
        (td_fields (hd get_type_defs)) of Some f \<Rightarrow> field_value fs f | None \<Rightarrow> None)" for k
    using put_all_lookup [of "([], [])" "td_fields (hd get_type_defs)" "field_value fs" k] postgres_fields(2)
    by (simp_all add: acc_def canonical_def cong: option.case_cong)
  have key [simp]: "fdf_key (field_of k l ty sec d) = k" "fdf_is_secret (field_of k l ty sec d) = sec"
    "fdf_default_value (field_of k l ty sec d) = d" for k l ty sec d
    by (simp_all add: field_of_def)
  show "map_of (fst acc) ''host'' = map_of fs ''host''" "map_of (fst acc) ''database'' = map_of fs ''database''"
    "map_of (fst acc) ''username'' = map_of fs ''username''" "map_of (snd acc) ''password'' = map_of fs ''password''"
    "map_of (fst acc) ''port'' = Some (unwrap_or (map_of fs ''port'') (JInt 5432))"
    "map_of (fst acc) ''sslmode'' = Some (unwrap_or (map_of fs ''sslmode'') (JString ''require''))"
    unfolding look by (auto simp: get_type_defs_def field_value_def port ssl split: option.split)
qed

text \<open>
  C39. A stored configuration reads back, with the port cut to 16 bits: when the configuration of a new data source
  is split, its secret part encrypted and both parts stored, the engine connects with exactly the host, database, user
  and password of the request, the requested or default port modulo \<open>2 ^ 16\<close>, and the requested or default
  SSL mode.
\<close>

theorem stored_config_reads_back:
  assumes laws: "crypto_laws lib" and split: "split_config (ds_ds_type row) (JObject fs) = Inr (c, s)"
    and stored: "ds_config row = cl_show_json lib c" "serde_reads_back lib c"
      "encrypt_json lib nonce s key = Inr (ds_secure_config row)" "serde_reads_back lib s" "length nonce = 12"
    and given: "map_of fs ''host'' = Some (JString h)" "map_of fs ''database'' = Some (JString d)"
      "map_of fs ''username'' = Some (JString u)" "map_of fs ''password'' = Some (JString pw)"
      "unwrap_or (map_of fs ''port'') (JInt 5432) = JInt p" "0 \<le> p" "p < 2 ^ 64"
  shows "from_model lib key row = Inr \<lparr> dc_host = h, dc_port = nat p mod 2 ^ 16, dc_database = d, dc_username = u,
    dc_password = pw, dc_ssl_mode = unwrap_or (json_as_str (unwrap_or (map_of fs ''sslmode'') (JString ''require''))) ''require'' \<rparr>"
proof -
  from split obtain fs' acc where acc: "JObject fs = JObject fs'" "get_type_def (ds_ds_type row) = Some (hd get_type_defs)"
    "c = JObject (fst acc)" "s = JObject (snd acc)" "canonical acc"
    "acc = put_all (field_value fs') (td_fields (hd get_type_defs)) ([], [])"
    by (rule split_config_parts)
  have "ds_secure_config row \<noteq> []"
    using laws stored(3,5) by (cases nonce) (auto simp: encrypt_json_def crypto_laws_def Let_def)
  moreover have "decrypt_json lib (ds_secure_config row) key = Inr s"
    using decrypt_encrypt [OF laws stored(4,5,3)] .
  moreover have "ds_ds_type row = ''postgres''" using postgres_fields(1) [OF acc(2)] by simp
  ultimately show ?thesis
    using stored(1,2) given acc(1) split_lookup [of fs]
    by (simp add: from_model_def acc(3,4,6) json_field_def serde_reads_back_def)
qed

lemma ascending_map_of_eq:
  assumes "sorted_wrt (<) (map fst xs)" "sorted_wrt (<) (map fst ys)" "map_of xs = map_of ys"
  shows "xs = (ys :: (string \<times> json) list)"
proof -
  have "distinct (map fst xs)" "distinct (map fst ys)" "sorted (map fst xs)" "sorted (map fst ys)"
    using assms(1,2) by (simp_all add: strict_sorted_iff)
  moreover from this assms(3) have "set xs = set ys" by (simp add: map_of_inject_set)
  moreover from this have "inj_on fst (set xs \<union> set ys)" using \<open>distinct (map fst xs)\<close> by (simp add: distinct_map)
  ultimately show ?thesis by (intro map_sorted_distinct_set_unique [of fst])
qed

lemma find_key:
  "distinct (map key xs) \<Longrightarrow> f \<in> set xs \<Longrightarrow> find (\<lambda>g. key g = key f \<and> P g) xs = (if P f then Some f else None)"
proof (induction xs)
  case (Cons x xs)
  show ?case
  proof (cases "x = f")
    case True
    with Cons.prems have "find (\<lambda>g. key g = key f \<and> P g) xs = None" by (auto simp: find_None_iff image_iff)
    with True show ?thesis by simp
  next
    case False
    with Cons.prems have "key x \<noteq> key f" by (auto simp: image_iff)
    with False Cons show ?thesis by auto
  qed
qed simp

lemma merge_lookup:
  assumes "f \<in> set (td_fields (hd get_type_defs))"
  shows "map_of ((if fdf_is_secret f then snd else fst) (put_all val (td_fields (hd get_type_defs)) ([], []))) (fdf_key f) = val f"
  using put_all_lookup [of "([], [])" "td_fields (hd get_type_defs)" val "fdf_key f"] postgres_fields(2)
  by (simp add: canonical_def find_key [OF postgres_fields(2) assms])

lemma merge_config_split:
  assumes "split_config ty input = Inr (JObject cfg, JObject sec)"
  shows "merge_config ty (JObject cfg) (JObject sec) (JObject up) =
      (let acc = put_all (merged_value cfg sec up) (td_fields (hd get_type_defs)) ([], []) in Inr (JObject (fst acc), JObject (snd acc)))"
  using assms by (elim split_config_parts) (simp add: merge_config_def merge_fields_put split_beta Let_def)

lemma merge_nothing:
  assumes "split_config ty input = Inr (JObject cfg, JObject sec)"
  shows "put_all (merged_value cfg sec []) (td_fields (hd get_type_defs)) ([], []) = (cfg, sec)"
proof -
  let ?fs = "td_fields (hd get_type_defs)"
  from assms obtain fs where acc: "(cfg, sec) = put_all (field_value fs) ?fs ([], [])" and can: "canonical (cfg, sec)"
    by (elim split_config_parts) simp
  let ?acc = "put_all (merged_value cfg sec []) ?fs ([], [])"
  have start: "canonical ([], [])" by (simp add: canonical_def)
  have "map_of (fst ?acc) k = map_of (fst (cfg, sec)) k \<and> map_of (snd ?acc) k = map_of (snd (cfg, sec)) k" for k
  proof (cases "\<exists>f \<in> set ?fs. fdf_key f = k")
    case True
    then obtain f where f: "f \<in> set ?fs" "k = fdf_key f" by auto
    with put_all_lookup [OF start postgres_fields(2), of "merged_value cfg sec []" k]
      put_all_lookup [OF start postgres_fields(2), of "field_value fs" k] merge_lookup [OF f(1), of "field_value fs"]
    show ?thesis unfolding acc
      by (auto simp: find_key [OF postgres_fields(2) f(1)] merged_value_def acc [symmetric] split: if_splits)
  next
    case False
    then have "find (\<lambda>f. fdf_key f = k \<and> P f) ?fs = None" for P by (auto simp: find_None_iff)
    with put_all_lookup [OF start postgres_fields(2), of "merged_value cfg sec []" k]
      put_all_lookup [OF start postgres_fields(2), of "field_value fs" k]
    show ?thesis unfolding acc by simp
  qed
  then have "map_of (fst ?acc) = map_of cfg" "map_of (snd ?acc) = map_of sec" by auto
  moreover have "canonical ?acc" using canonical_put_all [OF start] .
  ultimately show ?thesis using can ascending_map_of_eq unfolding canonical_def by (metis fst_conv prod.collapse snd_conv)
qed

text \<open>
  An update of a configuration changes exactly the fields it names: a named field takes the new value, except
  that an empty secret keeps the stored one, every other field keeps its value, and an update naming no field
  leaves both parts as they are.
\<close>

theorem update_changes_named_fields:
  assumes "split_config ty input = Inr (c, s)" "f \<in> set (td_fields (hd get_type_defs))"
  shows "\<exists>c' s'. merge_config ty c s (JObject up) = Inr (c', s') \<and>
    json_get (if fdf_is_secret f then s' else c') (fdf_key f) =
      (case map_of up (fdf_key f) of
         Some v \<Rightarrow> if fdf_is_secret f \<and> v = JString [] then json_get s (fdf_key f) else Some v
       | None \<Rightarrow> json_get (if fdf_is_secret f then s else c) (fdf_key f)) \<and>
    (up = [] \<longrightarrow> c' = c \<and> s' = s)"
proof -
  from assms(1) obtain cfg sec where cs: "c = JObject cfg" "s = JObject sec" by (elim split_config_parts)
  let ?acc = "put_all (merged_value cfg sec up) (td_fields (hd get_type_defs)) ([], [])"
  have str: "json_as_str v = Some [] \<longleftrightarrow> v = JString []" for v by (cases v) simp_all
  have merge: "merge_config ty c s (JObject up) = Inr (JObject (fst ?acc), JObject (snd ?acc))"
    using merge_config_split [OF assms(1) [unfolded cs], of up] by (simp add: cs Let_def)
  moreover have "json_get (if fdf_is_secret f then JObject (snd ?acc) else JObject (fst ?acc)) (fdf_key f) = merged_value cfg sec up f"
    using merge_lookup [OF assms(2), of "merged_value cfg sec up"] by (simp split: if_splits)
  moreover have "up = [] \<longrightarrow> ?acc = (cfg, sec)"
    using merge_nothing [OF assms(1) [unfolded cs]] by simp
  ultimately show ?thesis
    by (intro exI [of _ "JObject (fst ?acc)"] exI [of _ "JObject (snd ?acc)"]) (auto simp: merged_value_def str cs split: option.split)
qed

section \<open>Example\<close>

text \<open>Ciphers and encodings that leave the text alone, and a JSON text for each of the two objects of one example.\<close>

definition sample_config :: "(string \<times> json) list" where
  "sample_config = [(''host'', JString ''db.local''), (''database'', JString ''crm''), (''username'', JString ''app''),
     (''password'', JString ''pw''), (''port'', JInt 70968)]"

definition sample_public :: json where
  "sample_public = JObject [(''database'', JString ''crm''), (''host'', JString ''db.local''), (''port'', JInt 70968),
     (''sslmode'', JString ''require''), (''username'', JString ''app'')]"

definition sample_secret :: json where
  "sample_secret = JObject [(''password'', JString ''pw'')]"

definition plain_crypto :: crypto_lib where
  "plain_crypto =
     \<lparr> cl_json = (\<lambda>s. if s = ''public'' then Inr sample_public else if s = ''secret'' then Inr sample_secret else Inl ''no JSON''),
       cl_show_json = (\<lambda>j. if j = sample_public then ''public'' else ''secret''),
       cl_encrypt = (\<lambda>_ _. Inr), cl_decrypt = (\<lambda>_ _. Inr), cl_b64_encode = id, cl_b64_decode = Inr \<rparr>"

definition sample_source :: data_source_row where
  "sample_source = \<lparr> ds_id = 7, ds_name = ''crm'', ds_ds_type = ''postgres'', ds_config = ''public'',
     ds_secure_config = ''012345678901secret'', ds_is_active = True, ds_access_mode = ''open'', ds_last_sync_at = None,
     ds_last_sync_result = None, ds_created_at = 0, ds_updated_at = 0 \<rparr>"

lemma sample_split: "split_config ''postgres'' (JObject sample_config) = Inr (sample_public, sample_secret)"
  by code_simp

lemma plain_crypto_facts: "crypto_laws plain_crypto" "serde_reads_back plain_crypto sample_public"
  "serde_reads_back plain_crypto sample_secret"
  by (simp_all add: crypto_laws_def serde_reads_back_def plain_crypto_def sample_public_def sample_secret_def)

theorem stored_config_reads_back_witness:
  "from_model plain_crypto [] sample_source = Inr \<lparr> dc_host = ''db.local'', dc_port = 5432, dc_database = ''crm'',
     dc_username = ''app'', dc_password = ''pw'', dc_ssl_mode = ''require'' \<rparr>"
proof -
  have "from_model plain_crypto [] sample_source = Inr \<lparr> dc_host = ''db.local'', dc_port = nat 70968 mod 2 ^ 16, dc_database = ''crm'',
      dc_username = ''app'', dc_password = ''pw'',
      dc_ssl_mode = unwrap_or (json_as_str (unwrap_or (map_of sample_config ''sslmode'') (JString ''require''))) ''require'' \<rparr>"
    by (rule stored_config_reads_back [OF plain_crypto_facts(1) _ _ plain_crypto_facts(2) _ plain_crypto_facts(3), of _ sample_config "''012345678901''"])
      (simp_all add: sample_source_def sample_split, simp_all add: sample_config_def plain_crypto_def encrypt_json_def sample_public_def sample_secret_def)
  then show ?thesis by (simp add: sample_config_def)
qed

theorem update_changes_named_fields_witness:
  "merge_config ''postgres'' sample_public sample_secret (JObject [(''password'', JString []), (''host'', JString ''db2'')]) =
     Inr (JObject [(''database'', JString ''crm''), (''host'', JString ''db2''), (''port'', JInt 70968),
       (''sslmode'', JString ''require''), (''username'', JString ''app'')], sample_secret) \<and>
   (\<exists>c' s'. merge_config ''postgres'' sample_public sample_secret (JObject [(''password'', JString []), (''host'', JString ''db2'')]) = Inr (c', s') \<and>
      json_get s' ''password'' = Some (JString ''pw''))"
proof
  let ?f = "field_of ''password'' ''Password'' TextField True None"
  have "?f \<in> set (td_fields (hd get_type_defs))" by (simp add: get_type_defs_def)
  from update_changes_named_fields [OF sample_split this, of "[(''password'', JString []), (''host'', JString ''db2'')]"]
  show "\<exists>c' s'. merge_config ''postgres'' sample_public sample_secret (JObject [(''password'', JString []), (''host'', JString ''db2'')]) = Inr (c', s') \<and>
      json_get s' ''password'' = Some (JString ''pw'')"
    by (auto simp: field_of_def sample_secret_def)
qed code_simp

end
