(* ===== verification/Visibility.thy ===== *)
theory Visibility
  imports ArrowTypes PolicySession Enforcement DecisionContext DataSourceConfig
begin

text \<open>
  What a user sees of a data source (\<open>engine/mod.rs\<close>): the catalog loaded from the stored discovery, the
  visibility computed from the user's policies, and the context a connection gets, with hidden tables and
  columns left out.

  Hash maps that are iterated are lists of entries with distinct keys. A pool is the connection parameters it
  connects with. The WASM runtime and registering the system catalog are parameters.
\<close>

section \<open>The stored catalog\<close>

record virtual_catalog_table =
  vt_table_name :: string
  vt_arrow_schema :: "field list"

record virtual_catalog_schema =
  vs_schema_name :: string
  vs_tables :: "(string \<times> virtual_catalog_table) list"

type_synonym catalog_schemas = "(string \<times> virtual_catalog_schema) list"

record cached_catalog =
  cc_datasource_id :: uuid
  cc_schemas :: catalog_schemas
  cc_default_schema :: string
  cc_access_mode :: string

definition select_default_schema :: "catalog_schemas \<Rightarrow> string" where
  "select_default_schema catalog_schemas =
     (case find (\<lambda>(_, vs). vs_schema_name vs = ''public'') catalog_schemas of
        Some (alias, _) \<Rightarrow> alias
      | None \<Rightarrow> (case catalog_schemas of (alias, _) # _ \<Rightarrow> alias | [] \<Rightarrow> ''public''))"

definition schemas_with_tables ::
  "uuid \<Rightarrow> discovered_schema_row list \<Rightarrow> discovered_table_row list \<Rightarrow> (discovered_schema_row \<times> discovered_table_row list) list" where
  "schemas_with_tables ds rows ts =
     map (\<lambda>s. (s, filter (\<lambda>t. dst_discovered_schema_id t = dsc_id s) ts))
       (filter (\<lambda>s. dsc_data_source_id s = ds \<and> dsc_is_selected s) rows)"

definition catalog_table :: "discovered_column_row list \<Rightarrow> discovered_table_row \<Rightarrow> virtual_catalog_table" where
  "catalog_table cols t =
     \<lparr> vt_table_name = dst_table_name t,
       vt_arrow_schema = build_arrow_schema (filter (\<lambda>c. dco_discovered_table_id c = dst_id t) cols) \<rparr>"

definition catalog_schema :: "discovered_column_row list \<Rightarrow> discovered_schema_row \<times> discovered_table_row list \<Rightarrow> string \<times> virtual_catalog_schema" where
  "catalog_schema cols = (\<lambda>(s, ts).
     (schema_df_alias s,
      \<lparr> vs_schema_name = dsc_schema_name s,
        vs_tables = fold (\<lambda>t. AList.update (dst_table_name t) (catalog_table cols t)) (filter dst_is_selected ts) [] \<rparr>))"

definition load_catalog :: "conn \<Rightarrow> catalog_conn \<Rightarrow> string \<Rightarrow> (string, cached_catalog) result" where
  "load_catalog db cat name =
     bind_result (map_err (\<lambda>e. ''DB error: '' @ e) (q_data_source db)) (\<lambda>sources.
     bind_result (ok_or (find (\<lambda>d. ds_name d = name \<and> ds_is_active d) sources)
         (''Data source '' @ sq name @ '' not found or inactive'')) (\<lambda>ds.
     bind_result (map_err (\<lambda>e. ''DB error loading catalog: '' @ e) (q_discovered_schema cat)) (\<lambda>rows.
     bind_result (map_err (\<lambda>e. ''DB error loading catalog: '' @ e) (q_discovered_table cat)) (\<lambda>ts.
     let found = schemas_with_tables (ds_id ds) rows ts in
     bind_result (if list_ex (\<lambda>(_, ts). list_ex dst_is_selected ts) found
         then map_err (\<lambda>e. ''DB error loading columns: '' @ e) (q_discovered_column cat) else Inr []) (\<lambda>cols.
     let catalog_schemas = fold (\<lambda>x. case catalog_schema cols x of (alias, vs) \<Rightarrow> AList.update alias vs) found [] in
       Inr \<lparr> cc_datasource_id = ds_id ds, cc_schemas = catalog_schemas,
             cc_default_schema = select_default_schema catalog_schemas, cc_access_mode = ds_access_mode ds \<rparr>)))))"

section \<open>Decision functions at visibility time\<close>

record engine_env =
  en_lib :: session_lib
  en_expr :: expr_lib
  en_evaluate_bytes :: "string \<Rightarrow> json \<Rightarrow> json \<Rightarrow> nat \<Rightarrow> string \<Rightarrow> (string, decision_result) result"
  en_clock :: clock
  en_keys :: "attributes \<Rightarrow> string list"
  en_crypto :: crypto_lib
  en_master_key :: string
  en_setup :: "(string, unit) result"

definition evaluate_visibility_decision_fn :: "engine_env \<Rightarrow> decision_function_row \<Rightarrow> json \<Rightarrow> bool" where
  "evaluate_visibility_decision_fn env df session_ctx =
     (if \<not> dfn_is_enabled df then True
      else if dfn_evaluate_context df = ''query'' then False
      else case dfn_decision_wasm df of
        None \<Rightarrow> True
      | Some wasm_bytes \<Rightarrow>
          if wasm_bytes = [] then True
          else
            (let config = unwrap_or (case dfn_decision_config df of None \<Rightarrow> None | Some s \<Rightarrow> sl_json (en_lib env) s) (JObject []) in
             case en_evaluate_bytes env wasm_bytes session_ctx config DEFAULT_FUEL_LIMIT (dfn_log_level df) of
               Inr result \<Rightarrow> dr_fire result
             | Inl _ \<Rightarrow> dfn_on_error df = ''deny''))"

definition typed_attributes ::
  "session_lib \<Rightarrow> attribute_definition_row list \<Rightarrow> (string \<times> json) list \<Rightarrow> attributes" where
  "typed_attributes lib defs raw_attrs =
     (let def_map = collect_map (map (\<lambda>d. (atd_key d, atd_value_type d)) defs) in
      (\<lambda>key. map_option (\<lambda>v. let value_type = unwrap_or (def_map key) ''string'' in
         \<lparr> ta_value = attribute_text lib value_type v, ta_value_type = value_type \<rparr>) (collect_map raw_attrs key)))"

definition build_typed_json_attributes ::
  "engine_env \<Rightarrow> catalog_conn \<Rightarrow> (string \<times> json) list \<Rightarrow> (string \<times> json) list" where
  "build_typed_json_attributes env cat raw_attrs =
     (let defs = filter (\<lambda>d. atd_entity_type d = ''user'') (case q_attribute_definition cat of Inr ds \<Rightarrow> ds | Inl _ \<Rightarrow> []);
          attr_defs = AList.clearjunk (rev (map (\<lambda>d. (atd_key d,
            \<lparr> ad_default_value = atd_default_value d, ad_value_type = atd_value_type d \<rparr>)) defs));
          resolved = resolve_user_attribute_defaults (typed_attributes (en_lib env) defs raw_attrs) attr_defs
      in json_attributes (en_expr env) (en_keys env resolved) resolved)"

definition visibility_context ::
  "engine_env \<Rightarrow> conn \<Rightarrow> catalog_conn \<Rightarrow> uuid \<Rightarrow> cached_catalog \<Rightarrow> (string, json) result" where
  "visibility_context env db cat user_id catalog =
     bind_result (map_err (\<lambda>e. ''DB error loading user: '' @ e) (q_proxy_user db)) (\<lambda>users.
     bind_result (ok_or (find_row pu_id user_id users) (''User '' @ sl_show_uuid (en_lib env) user_id @ '' not found'')) (\<lambda>user.
     bind_result (map_err (\<lambda>e. ''DB error resolving roles: '' @ e) (resolve_user_roles db user_id)) (\<lambda>role_ids.
     bind_result (if role_ids = [] then Inr [] else map_err (\<lambda>e. ''DB error loading roles: '' @ e) (q_role db)) (\<lambda>roles.
     bind_result (map_err (\<lambda>e. ''DB error loading datasource: '' @ e) (q_data_source db)) (\<lambda>sources.
     bind_result (ok_or (find_row ds_id (cc_datasource_id catalog) sources) ''Datasource not found'') (\<lambda>ds.
       Inr (build_session_context (en_clock env)
         \<lparr> si_user_id = sl_show_uuid (en_lib env) user_id, si_username = pu_username user,
           si_roles = map ro_name (filter (\<lambda>r. ro_id r \<in> set role_ids) roles), si_datasource_name = ds_name ds,
           si_access_mode = cc_access_mode catalog,
           si_attributes = build_typed_json_attributes env cat (parse_attributes (en_lib env) (pu_attributes user)) \<rparr>)))))))"

section \<open>Visibility\<close>

record visibility_filter =
  vf_visible_tables :: "table_key set option"
  vf_denied_columns :: "(string \<times> string \<times> string) set"
  vf_denied_schemas :: "string set"
  vf_denied_tables :: "table_key set"

record visibility_acc =
  va_visible_tables :: "table_key set"
  va_denied_columns :: "(string \<times> string \<times> string) set"
  va_denied_schemas :: "string set"
  va_denied_tables :: "table_key set"
  va_column_allow_patterns :: "(table_key \<times> string list) list"

definition no_visibility :: visibility_acc where
  "no_visibility = \<lparr> va_visible_tables = {}, va_denied_columns = {}, va_denied_schemas = {}, va_denied_tables = {},
     va_column_allow_patterns = [] \<rparr>"

definition catalog_map :: "cached_catalog \<Rightarrow> schema_map" where
  "catalog_map catalog = collect_map (map (\<lambda>(alias, vs). (alias, vs_schema_name vs)) (cc_schemas catalog))"

text \<open>The tables of a catalog with their keys, in iteration order.\<close>

definition catalog_tables :: "cached_catalog \<Rightarrow> (table_key \<times> virtual_catalog_table) list" where
  "catalog_tables catalog =
     concat (map (\<lambda>(alias, vs). map (\<lambda>(table_name, t). ((alias, table_name), t)) (vs_tables vs)) (cc_schemas catalog))"

definition field_names :: "virtual_catalog_table \<Rightarrow> string list" where
  "field_names t = map fd_name (vt_arrow_schema t)"

definition first_match :: "schema_map \<Rightarrow> target_entry list \<Rightarrow> table_key \<Rightarrow> target_entry option" where
  "first_match m targets k = find (\<lambda>e. matches_table e (fst k) (snd k) m) targets"

definition allow_table :: "schema_map \<Rightarrow> target_entry list \<Rightarrow> table_key \<times> virtual_catalog_table \<Rightarrow> visibility_acc \<Rightarrow> visibility_acc" where
  "allow_table m targets = (\<lambda>(key, _) acc.
     case first_match m targets key of
       None \<Rightarrow> acc
     | Some entry \<Rightarrow>
         (let acc = acc\<lparr> va_visible_tables := insert key (va_visible_tables acc) \<rparr> in
          case columns entry of
            None \<Rightarrow> acc
          | Some cols \<Rightarrow> acc\<lparr> va_column_allow_patterns := extend_patterns key cols (va_column_allow_patterns acc) \<rparr>))"

definition deny_columns_of :: "schema_map \<Rightarrow> target_entry list \<Rightarrow> table_key \<times> virtual_catalog_table \<Rightarrow> visibility_acc \<Rightarrow> visibility_acc" where
  "deny_columns_of m targets = (\<lambda>(key, t) acc.
     case first_match m targets key of
       None \<Rightarrow> acc
     | Some entry \<Rightarrow>
         (case columns entry of
            None \<Rightarrow> acc
          | Some cols \<Rightarrow> acc\<lparr> va_denied_columns := va_denied_columns acc \<union>
              (\<lambda>c. (fst key, snd key, c)) ` expand_column_patterns cols (field_names t) \<rparr>))"

definition deny_schema_entry ::
  "schema_map \<Rightarrow> string \<times> virtual_catalog_schema \<Rightarrow> target_entry \<Rightarrow> visibility_acc \<Rightarrow> visibility_acc" where
  "deny_schema_entry m = (\<lambda>(al, vs) entry acc.
     if \<not> list_ex (\<lambda>sp. matches_pattern sp (upstream_name m al)) (schemas entry) then acc
     else if list_ex (\<lambda>t. t = ''*'') (tables entry) then acc\<lparr> va_denied_schemas := insert al (va_denied_schemas acc) \<rparr>
     else acc\<lparr> va_denied_tables := va_denied_tables acc \<union>
       (\<lambda>t. (al, t)) ` set (filter (\<lambda>t. list_ex (\<lambda>tp. matches_pattern tp t) (tables entry)) (map fst (vs_tables vs))) \<rparr>)"

definition policy_visibility :: "cached_catalog \<Rightarrow> policy_type \<Rightarrow> target_entry list \<Rightarrow> visibility_acc \<Rightarrow> visibility_acc" where
  "policy_visibility catalog policy_type targets acc =
     (let m = catalog_map catalog in
      case policy_type of
        ColumnAllow \<Rightarrow> fold (allow_table m targets) (catalog_tables catalog) acc
      | ColumnDeny \<Rightarrow> fold (deny_columns_of m targets) (catalog_tables catalog) acc
      | TableDeny \<Rightarrow> fold (\<lambda>s. fold (deny_schema_entry m s) targets) (cc_schemas catalog) acc
      | _ \<Rightarrow> acc)"

definition skips_policy ::
  "engine_env \<Rightarrow> (uuid \<rightharpoonup> decision_function_row) \<Rightarrow> json option \<Rightarrow> policy_row \<Rightarrow> policy_type \<Rightarrow> bool" where
  "skips_policy env df_map session_ctx p policy_type =
     (affects_visibility policy_type \<and>
      (case po_decision_function_id p of
         None \<Rightarrow> False
       | Some i \<Rightarrow>
           (case (df_map i, session_ctx) of
              (Some df, Some ctx) \<Rightarrow> \<not> evaluate_visibility_decision_fn env df ctx
            | _ \<Rightarrow> False)))"

fun visit_policies ::
  "engine_env \<Rightarrow> cached_catalog \<Rightarrow> (uuid \<rightharpoonup> decision_function_row) \<Rightarrow> json option \<Rightarrow> policy_row list \<Rightarrow> visibility_acc \<Rightarrow> visibility_acc" where
  "visit_policies env catalog df_map ctx [] acc = acc"
| "visit_policies env catalog df_map ctx (p # ps) acc =
     (case from_str (po_policy_type p) of
        Inl _ \<Rightarrow> visit_policies env catalog df_map ctx ps acc
      | Inr policy_type \<Rightarrow>
          if skips_policy env df_map ctx p policy_type then visit_policies env catalog df_map ctx ps acc
          else visit_policies env catalog df_map ctx ps
            (policy_visibility catalog policy_type (unwrap_or (sl_targets (en_lib env) (po_targets p)) []) acc))"

definition catalog_table_of :: "cached_catalog \<Rightarrow> table_key \<Rightarrow> virtual_catalog_table option" where
  "catalog_table_of catalog k =
     (case map_of (cc_schemas catalog) (fst k) of None \<Rightarrow> None | Some vs \<Rightarrow> map_of (vs_tables vs) (snd k))"

definition allow_restrictions :: "cached_catalog \<Rightarrow> (table_key \<times> string list) list \<Rightarrow> (string \<times> string \<times> string) set" where
  "allow_restrictions catalog patterns =
     (\<Union>(k, allow_patterns) \<in> set patterns.
        case catalog_table_of catalog k of
          None \<Rightarrow> {}
        | Some t \<Rightarrow> (\<lambda>c. (fst k, snd k, c)) ` {c \<in> set (field_names t). c \<notin> expand_column_patterns allow_patterns (field_names t)})"

definition final_visibility :: "cached_catalog \<Rightarrow> visibility_acc \<Rightarrow> visibility_filter option" where
  "final_visibility catalog acc =
     (let denied_columns = va_denied_columns acc \<union> allow_restrictions catalog (va_column_allow_patterns acc) in
      if cc_access_mode catalog = ''policy_required''
      then Some \<lparr> vf_visible_tables = Some (va_visible_tables acc), vf_denied_columns = denied_columns,
                  vf_denied_schemas = va_denied_schemas acc, vf_denied_tables = va_denied_tables acc \<rparr>
      else if denied_columns = {} \<and> va_denied_schemas acc = {} \<and> va_denied_tables acc = {} then None
      else Some \<lparr> vf_visible_tables = None, vf_denied_columns = denied_columns,
                  vf_denied_schemas = va_denied_schemas acc, vf_denied_tables = va_denied_tables acc \<rparr>)"

definition compute_user_visibility ::
  "engine_env \<Rightarrow> conn \<Rightarrow> catalog_conn \<Rightarrow> uuid \<Rightarrow> cached_catalog \<Rightarrow> (string, visibility_filter option) result" where
  "compute_user_visibility env db cat user_id catalog =
     bind_result (map_err (\<lambda>e. ''DB error loading assignments: '' @ e)
         (resolve_effective_assignments db user_id (cc_datasource_id catalog))) (\<lambda>relevant.
     if relevant = [] then
       Inr (if cc_access_mode catalog = ''policy_required''
            then Some \<lparr> vf_visible_tables = Some {}, vf_denied_columns = {}, vf_denied_schemas = {}, vf_denied_tables = {} \<rparr>
            else None)
     else
       bind_result (map_err (\<lambda>e. ''DB error loading policies: '' @ e) (q_policy db)) (\<lambda>all.
       let policies = filter (\<lambda>p. po_id p \<in> pa_policy_id ` set relevant \<and> po_is_enabled p) all;
           df_ids = List.map_filter po_decision_function_id
             (filter (\<lambda>p. case from_str (po_policy_type p) of Inr pt \<Rightarrow> affects_visibility pt | Inl _ \<Rightarrow> False) policies) in
       bind_result (if df_ids = [] then Inr []
           else map_err (\<lambda>e. ''DB error loading decision functions: '' @ e) (q_decision_function cat)) (\<lambda>dfs.
       let df_list = map (\<lambda>d. (dfn_id d, d)) (filter (\<lambda>d. dfn_id d \<in> set df_ids) dfs) in
       bind_result (if df_list = [] then Inr None else bind_result (visibility_context env db cat user_id catalog) (\<lambda>c. Inr (Some c))) (\<lambda>session_ctx.
       Inr (final_visibility catalog (visit_policies env catalog (collect_map df_list) session_ctx policies no_visibility))))))"

section \<open>The context of a connection\<close>

definition visible_table ::
  "visibility_filter \<Rightarrow> string \<Rightarrow> string \<times> virtual_catalog_table \<Rightarrow> (string \<times> virtual_catalog_table) option" where
  "visible_table filt al = (\<lambda>(table_name, table).
     if (al, table_name) \<in> vf_denied_tables filt then None
     else if (case vf_visible_tables filt of None \<Rightarrow> False | Some visible_set \<Rightarrow> (al, table_name) \<notin> visible_set) then None
     else Some (table_name,
       \<lparr> vt_table_name = table_name,
         vt_arrow_schema = (if vf_denied_columns filt = {} then vt_arrow_schema table
           else filter (\<lambda>f. (al, table_name, fd_name f) \<notin> vf_denied_columns filt) (vt_arrow_schema table)) \<rparr>))"

definition visible_schema ::
  "visibility_filter \<Rightarrow> string \<times> virtual_catalog_schema \<Rightarrow> (string \<times> virtual_catalog_schema) option" where
  "visible_schema filt = (\<lambda>(al, vs).
     if al \<in> vf_denied_schemas filt then None
     else
       (let ts = List.map_filter (visible_table filt al) (vs_tables vs) in
        if vf_visible_tables filt = None \<or> ts \<noteq> [] then Some (al, vs\<lparr> vs_tables := ts \<rparr>) else None))"

definition filtered_schemas :: "visibility_filter option \<Rightarrow> catalog_schemas \<Rightarrow> catalog_schemas" where
  "filtered_schemas vis all = (case vis of Some filt \<Rightarrow> List.map_filter (visible_schema filt) all | None \<Rightarrow> all)"

text \<open>The catalog registered with the engine, under the name of the data source and with its default schema.\<close>

record session_context =
  sx_schemas :: "string \<rightharpoonup> (string \<times> (string \<rightharpoonup> field list))"
  sx_default_catalog :: string
  sx_default_schema :: string
  sx_pool :: "string \<rightharpoonup> string"

definition create_session_context_from_catalog ::
  "engine_env \<Rightarrow> catalog_schemas \<Rightarrow> (string \<rightharpoonup> string) \<Rightarrow> string \<Rightarrow> string \<Rightarrow> (string, session_context) result" where
  "create_session_context_from_catalog env catalog_schemas pool default_schema datasource_name =
     bind_result (en_setup env) (\<lambda>_.
       Inr \<lparr> sx_schemas = map_of (map (\<lambda>(alias, vs). (alias, vs_schema_name vs,
               collect_map (map (\<lambda>(_, t). (vt_table_name t, vt_arrow_schema t)) (vs_tables vs)))) catalog_schemas),
             sx_default_catalog = datasource_name, sx_default_schema = default_schema, sx_pool = pool \<rparr>)"

record engine_cache =
  ec_catalogs :: "string \<rightharpoonup> cached_catalog"
  ec_pools :: "string \<rightharpoonup> (string \<rightharpoonup> string)"

definition get_catalog :: "conn \<Rightarrow> catalog_conn \<Rightarrow> string \<Rightarrow> engine_cache \<Rightarrow> (string, cached_catalog) result \<times> engine_cache" where
  "get_catalog db cat name cache =
     (case ec_catalogs cache name of
        Some catalog \<Rightarrow> (Inr catalog, cache)
      | None \<Rightarrow>
          (case load_catalog db cat name of
             Inl e \<Rightarrow> (Inl e, cache)
           | Inr catalog \<Rightarrow> (Inr catalog, cache\<lparr> ec_catalogs := (ec_catalogs cache)(name \<mapsto> catalog) \<rparr>)))"

definition get_or_create_pool :: "string \<Rightarrow> data_source_config \<Rightarrow> engine_cache \<Rightarrow> (string \<rightharpoonup> string) \<times> engine_cache" where
  "get_or_create_pool name cfg cache =
     (case ec_pools cache name of
        Some p \<Rightarrow> (p, cache)
      | None \<Rightarrow> (let p = build_postgres_params cfg in (p, cache\<lparr> ec_pools := (ec_pools cache)(name \<mapsto> p) \<rparr>)))"

definition user_pool :: "engine_env \<Rightarrow> conn \<Rightarrow> string \<Rightarrow> engine_cache \<Rightarrow> (string, string \<rightharpoonup> string) result \<times> engine_cache" where
  "user_pool env db datasource_name cache =
     (case ec_pools cache datasource_name of
        Some p \<Rightarrow> (Inr p, cache)
      | None \<Rightarrow>
          (case bind_result (map_err (\<lambda>e. ''DB error: '' @ e) (q_data_source db)) (\<lambda>sources.
                bind_result (ok_or (find (\<lambda>d. ds_name d = datasource_name \<and> ds_is_active d) sources)
                  (''Data source '' @ sq datasource_name @ '' not found or inactive'')) (from_model (en_crypto env) (en_master_key env))) of
             Inl e \<Rightarrow> (Inl e, cache)
           | Inr cfg \<Rightarrow> map_prod Inr id (get_or_create_pool datasource_name cfg cache)))"

definition build_user_context ::
  "engine_env \<Rightarrow> conn \<Rightarrow> catalog_conn \<Rightarrow> uuid \<Rightarrow> string \<Rightarrow> engine_cache \<Rightarrow> (string, session_context) result \<times> engine_cache" where
  "build_user_context env db cat user_id datasource_name cache =
     (case get_catalog db cat datasource_name cache of
        (Inl e, cache) \<Rightarrow> (Inl e, cache)
      | (Inr catalog, cache) \<Rightarrow>
          (case user_pool env db datasource_name cache of
             (Inl e, cache) \<Rightarrow> (Inl e, cache)
           | (Inr pool, cache) \<Rightarrow>
               (bind_result (compute_user_visibility env db cat user_id catalog) (\<lambda>visibility.
                  let visible = filtered_schemas visibility (cc_schemas catalog);
                      default_schema = (if cc_default_schema catalog \<in> fst ` set visible then cc_default_schema catalog
                        else select_default_schema visible)
                  in create_session_context_from_catalog env visible pool default_schema datasource_name), cache)))"

definition engine_invalidate :: "string \<Rightarrow> engine_cache \<Rightarrow> engine_cache" where
  "engine_invalidate name cache = cache\<lparr> ec_catalogs := (ec_catalogs cache)(name := None) \<rparr>"

definition engine_invalidate_all :: "string \<Rightarrow> engine_cache \<Rightarrow> engine_cache" where
  "engine_invalidate_all name cache =
     cache\<lparr> ec_catalogs := (ec_catalogs cache)(name := None), ec_pools := (ec_pools cache)(name := None) \<rparr>"

section \<open>What is hidden\<close>

definition catalog_wf :: "cached_catalog \<Rightarrow> bool" where
  "catalog_wf catalog \<longleftrightarrow> distinct (map fst (cc_schemas catalog)) \<and>
     list_all (\<lambda>(_, vs). distinct (map fst (vs_tables vs)) \<and> list_all (\<lambda>(n, t). vt_table_name t = n) (vs_tables vs)) (cc_schemas catalog)"

lemma fold_update_distinct:
  "distinct (map fst al) \<Longrightarrow> distinct (map fst (fold (\<lambda>x. AList.update (f x) (g x)) xs al))"
  by (induction xs arbitrary: al) (simp_all add: distinct_update)

lemma set_update_subset: "set (AList.update k v al) \<subseteq> insert (k, v) (set al)"
  by (induction al) auto

lemma fold_update_set: "set (fold (\<lambda>x. AList.update (f x) (g x)) xs al) \<subseteq> set al \<union> (\<lambda>x. (f x, g x)) ` set xs"
proof (induction xs arbitrary: al)
  case (Cons x xs)
  with set_update_subset [of "f x" "g x" al] show ?case by fastforce
qed simp

lemma load_catalog_wf:
  assumes "load_catalog db cat name = Inr catalog"
  shows "catalog_wf catalog"
proof -
  obtain cols found where schemas: "cc_schemas catalog =
      fold (\<lambda>x. AList.update (fst (catalog_schema cols x)) (snd (catalog_schema cols x))) found []"
    using assms by (auto simp: load_catalog_def Let_def split_def)
  have tabs: "distinct (map fst (vs_tables vs)) \<and> (\<forall>n t. (n, t) \<in> set (vs_tables vs) \<longrightarrow> vt_table_name t = n)"
    if "(a, vs) \<in> set (cc_schemas catalog)" for a vs
  proof -
    have "(a, vs) \<in> catalog_schema cols ` set found"
      using that fold_update_set [of "\<lambda>x. fst (catalog_schema cols x)" "\<lambda>x. snd (catalog_schema cols x)" found "[]"]
      unfolding schemas by auto
    then obtain s ts where "(a, vs) = catalog_schema cols (s, ts)" by auto
    then have vs: "vs_tables vs = fold (\<lambda>t. AList.update (dst_table_name t) (catalog_table cols t)) (filter dst_is_selected ts) []"
      by (simp add: catalog_schema_def)
    show ?thesis
      using fold_update_set [of dst_table_name "catalog_table cols" "filter dst_is_selected ts" "[]"]
        fold_update_distinct [of "[]" dst_table_name "catalog_table cols" "filter dst_is_selected ts"]
      unfolding vs by (auto simp: catalog_table_def)
  qed
  have "distinct (map fst (cc_schemas catalog))" unfolding schemas by (rule fold_update_distinct) simp
  with tabs show ?thesis unfolding catalog_wf_def list_all_iff by blast
qed

lemma catalog_tables_iff:
  assumes "catalog_wf catalog"
  shows "(k, t) \<in> set (catalog_tables catalog) \<longleftrightarrow> catalog_table_of catalog k = Some t"
proof -
  have schema: "map_of (cc_schemas catalog) a = Some vs \<longleftrightarrow> (a, vs) \<in> set (cc_schemas catalog)" for a vs
    using assms by (simp add: catalog_wf_def)
  have table: "map_of (vs_tables vs) n = Some t \<longleftrightarrow> (n, t) \<in> set (vs_tables vs)"
    if "map_of (cc_schemas catalog) a = Some vs" for a vs n t
    using assms that by (auto simp: catalog_wf_def list_all_iff)
  have "(k, t) \<in> set (catalog_tables catalog) \<longleftrightarrow>
      (\<exists>vs. map_of (cc_schemas catalog) (fst k) = Some vs \<and> (snd k, t) \<in> set (vs_tables vs))"
    unfolding schema by (cases k) (force simp: catalog_tables_def)
  also have "\<dots> \<longleftrightarrow> catalog_table_of catalog k = Some t"
    using table by (cases "map_of (cc_schemas catalog) (fst k)") (simp_all add: catalog_table_of_def)
  finally show ?thesis .
qed

definition matched :: "schema_map \<Rightarrow> target_entry list \<Rightarrow> table_key \<Rightarrow> bool" where
  "matched m targets k \<longleftrightarrow> list_ex (\<lambda>e. matches_table e (fst k) (snd k) m) targets"

lemma first_match_None: "first_match m targets k = None \<longleftrightarrow> \<not> matched m targets k"
  by (auto simp: first_match_def matched_def find_None_iff list_ex_iff)

lemma fold_allow_table:
  "va_visible_tables (fold (allow_table m targets) ts acc) = va_visible_tables acc \<union> {k \<in> fst ` set ts. matched m targets k}"
  "va_denied_schemas (fold (allow_table m targets) ts acc) = va_denied_schemas acc"
  "va_denied_tables (fold (allow_table m targets) ts acc) = va_denied_tables acc"
  "va_denied_columns (fold (allow_table m targets) ts acc) = va_denied_columns acc"
proof -
  have one: "va_visible_tables (allow_table m targets x acc) = va_visible_tables acc \<union> (if matched m targets (fst x) then {fst x} else {})"
    "va_denied_schemas (allow_table m targets x acc) = va_denied_schemas acc"
    "va_denied_tables (allow_table m targets x acc) = va_denied_tables acc"
    "va_denied_columns (allow_table m targets x acc) = va_denied_columns acc" for x acc
    using first_match_None [of m targets "fst x"]
    by (auto simp: allow_table_def Let_def split_beta split: option.split)
  show "va_visible_tables (fold (allow_table m targets) ts acc) = va_visible_tables acc \<union> {k \<in> fst ` set ts. matched m targets k}"
    by (induction ts arbitrary: acc) (auto simp: one)
  show "va_denied_schemas (fold (allow_table m targets) ts acc) = va_denied_schemas acc"
    "va_denied_tables (fold (allow_table m targets) ts acc) = va_denied_tables acc"
    "va_denied_columns (fold (allow_table m targets) ts acc) = va_denied_columns acc"
    by (induction ts arbitrary: acc) (simp_all add: one)
qed

definition first_columns :: "schema_map \<Rightarrow> target_entry list \<Rightarrow> table_key \<Rightarrow> string list option" where
  "first_columns m targets k = Option.bind (first_match m targets k) columns"

lemma expand_column_patterns_set:
  "expand_column_patterns ps cols = {c \<in> set cols. \<exists>p \<in> set ps. matches_pattern p c}"
  by auto

definition hidden_columns :: "schema_map \<Rightarrow> target_entry list \<Rightarrow> table_key \<times> virtual_catalog_table \<Rightarrow> (string \<times> string \<times> string) set" where
  "hidden_columns m targets = (\<lambda>(k, t).
     (\<lambda>c. (fst k, snd k, c)) ` {c \<in> set (field_names t). \<exists>p \<in> set (unwrap_or (first_columns m targets k) []). matches_pattern p c})"

lemma fold_deny_columns:
  "va_denied_columns (fold (deny_columns_of m targets) ts acc) = va_denied_columns acc \<union> (\<Union>x \<in> set ts. hidden_columns m targets x)"
  "va_denied_schemas (fold (deny_columns_of m targets) ts acc) = va_denied_schemas acc"
  "va_denied_tables (fold (deny_columns_of m targets) ts acc) = va_denied_tables acc"
  "va_visible_tables (fold (deny_columns_of m targets) ts acc) = va_visible_tables acc"
  "va_column_allow_patterns (fold (deny_columns_of m targets) ts acc) = va_column_allow_patterns acc"
proof -
  have one: "va_denied_columns (deny_columns_of m targets x acc) = va_denied_columns acc \<union> hidden_columns m targets x"
    "va_denied_schemas (deny_columns_of m targets x acc) = va_denied_schemas acc"
    "va_denied_tables (deny_columns_of m targets x acc) = va_denied_tables acc"
    "va_visible_tables (deny_columns_of m targets x acc) = va_visible_tables acc"
    "va_column_allow_patterns (deny_columns_of m targets x acc) = va_column_allow_patterns acc" for x acc
    by (auto simp: deny_columns_of_def first_columns_def hidden_columns_def expand_column_patterns_set split_beta split: option.split)
  show "va_denied_columns (fold (deny_columns_of m targets) ts acc) = va_denied_columns acc \<union> (\<Union>x \<in> set ts. hidden_columns m targets x)"
    by (induction ts arbitrary: acc) (simp_all add: one Un_assoc)
  show "va_denied_schemas (fold (deny_columns_of m targets) ts acc) = va_denied_schemas acc"
    "va_denied_tables (fold (deny_columns_of m targets) ts acc) = va_denied_tables acc"
    "va_visible_tables (fold (deny_columns_of m targets) ts acc) = va_visible_tables acc"
    "va_column_allow_patterns (fold (deny_columns_of m targets) ts acc) = va_column_allow_patterns acc"
    by (induction ts arbitrary: acc) (simp_all add: one)
qed

definition hidden :: "visibility_acc \<Rightarrow> table_key \<Rightarrow> bool" where
  "hidden acc k \<longleftrightarrow> fst k \<in> va_denied_schemas acc \<or> k \<in> va_denied_tables acc"

lemma hidden_deny_schema_entry:
  assumes "fst s = fst k \<Longrightarrow> snd k \<in> fst ` set (vs_tables (snd s))"
  shows "hidden (deny_schema_entry m s e acc) k \<longleftrightarrow>
    hidden acc k \<or> fst s = fst k \<and> matches_table e (fst k) (snd k) m"
proof -
  have star: "matches_table e (fst k) (snd k) m"
    if "list_ex (\<lambda>sp. matches_pattern sp (upstream_name m (fst k))) (schemas e)" "list_ex (\<lambda>t. t = ''*'') (tables e)"
    using that by (auto simp: matches_table_def list_ex_iff intro: bexI [of _ "''*''"])
  show ?thesis
    using assms star
    by (cases s; cases k) (auto simp: deny_schema_entry_def hidden_def matches_table_def list_ex_iff image_iff Let_def)
qed

lemma fold_deny_entries:
  assumes "fst s = fst k \<Longrightarrow> snd k \<in> fst ` set (vs_tables (snd s))"
  shows "hidden (fold (deny_schema_entry m s) targets acc) k \<longleftrightarrow> hidden acc k \<or> fst s = fst k \<and> matched m targets k"
  using hidden_deny_schema_entry [OF assms] by (induction targets arbitrary: acc) (auto simp: matched_def)

lemma fold_deny_schemas:
  assumes "\<And>s. s \<in> set ss \<Longrightarrow> fst s = fst k \<Longrightarrow> snd k \<in> fst ` set (vs_tables (snd s))"
  shows "hidden (fold (\<lambda>s. fold (deny_schema_entry m s) targets) ss acc) k \<longleftrightarrow>
    hidden acc k \<or> fst k \<in> fst ` set ss \<and> matched m targets k"
  using assms
proof (induction ss arbitrary: acc)
  case (Cons s ss)
  have "hidden (fold (deny_schema_entry m s) targets acc) k \<longleftrightarrow> hidden acc k \<or> fst s = fst k \<and> matched m targets k"
    using Cons.prems by (intro fold_deny_entries) simp
  with Cons show ?case by auto
qed simp

definition same_columns :: "visibility_acc \<Rightarrow> visibility_acc \<Rightarrow> bool" where
  "same_columns a b \<longleftrightarrow> va_visible_tables a = va_visible_tables b \<and> va_denied_columns a = va_denied_columns b \<and>
     va_column_allow_patterns a = va_column_allow_patterns b"

lemma same_columns_deny: "same_columns (fold (\<lambda>s. fold (deny_schema_entry m s) targets) ss acc) acc"
proof -
  have one: "same_columns (deny_schema_entry m s e acc) a" if "same_columns acc a" for s e acc a
    using that by (cases s) (simp add: deny_schema_entry_def same_columns_def)
  have two: "same_columns (fold (deny_schema_entry m s) es acc) a" if "same_columns acc a" for s es acc a
    using that by (induction es arbitrary: acc) (simp_all add: one)
  have "same_columns (fold (\<lambda>s. fold (deny_schema_entry m s) targets) ss acc) a" if "same_columns acc a" for acc a
    using that by (induction ss arbitrary: acc) (simp_all add: two)
  then show ?thesis by (simp add: same_columns_def)
qed

lemma fold_allow_patterns:
  "patterns_of (va_column_allow_patterns (fold (allow_table m targets) ts acc)) =
     patterns_of (va_column_allow_patterns acc) \<union> (\<Union>x \<in> set ts. {fst x} \<times> set (unwrap_or (first_columns m targets (fst x)) []))"
  "fst ` set (va_column_allow_patterns (fold (allow_table m targets) ts acc)) =
     fst ` set (va_column_allow_patterns acc) \<union> {k \<in> fst ` set ts. first_columns m targets k \<noteq> None}"
  "distinct (map fst (va_column_allow_patterns acc)) \<Longrightarrow>
     distinct (map fst (va_column_allow_patterns (fold (allow_table m targets) ts acc)))"
proof -
  have one: "patterns_of (va_column_allow_patterns (allow_table m targets x acc)) =
      patterns_of (va_column_allow_patterns acc) \<union> {fst x} \<times> set (unwrap_or (first_columns m targets (fst x)) [])"
    "fst ` set (va_column_allow_patterns (allow_table m targets x acc)) =
      fst ` set (va_column_allow_patterns acc) \<union> (if first_columns m targets (fst x) \<noteq> None then {fst x} else {})"
    "distinct (map fst (va_column_allow_patterns acc)) \<Longrightarrow>
      distinct (map fst (va_column_allow_patterns (allow_table m targets x acc)))" for x acc
    by (auto simp: allow_table_def first_columns_def patterns_of_extend extend_patterns_keys
        Let_def split_beta split: option.split)
  show "patterns_of (va_column_allow_patterns (fold (allow_table m targets) ts acc)) =
     patterns_of (va_column_allow_patterns acc) \<union> (\<Union>x \<in> set ts. {fst x} \<times> set (unwrap_or (first_columns m targets (fst x)) []))"
    by (induction ts arbitrary: acc) (simp_all add: one(1) Un_assoc)
  show "fst ` set (va_column_allow_patterns (fold (allow_table m targets) ts acc)) =
     fst ` set (va_column_allow_patterns acc) \<union> {k \<in> fst ` set ts. first_columns m targets k \<noteq> None}"
    by (induction ts arbitrary: acc) (auto simp: one(2))
  show "distinct (map fst (va_column_allow_patterns acc)) \<Longrightarrow>
     distinct (map fst (va_column_allow_patterns (fold (allow_table m targets) ts acc)))"
    by (induction ts arbitrary: acc) (simp_all add: one(3))
qed

text \<open>The policies that take part, with their targets.\<close>

definition active_rule ::
  "engine_env \<Rightarrow> (uuid \<rightharpoonup> decision_function_row) \<Rightarrow> json option \<Rightarrow> policy_row \<Rightarrow> (policy_type \<times> target_entry list) option" where
  "active_rule env df_map ctx p =
     (case from_str (po_policy_type p) of
        Inl _ \<Rightarrow> None
      | Inr pt \<Rightarrow> if skips_policy env df_map ctx p pt then None else Some (pt, unwrap_or (sl_targets (en_lib env) (po_targets p)) []))"

lemma visit_policies_fold:
  "visit_policies env catalog df_map ctx ps acc =
     fold (\<lambda>(pt, targets). policy_visibility catalog pt targets) (List.map_filter (active_rule env df_map ctx) ps) acc"
  by (induction ps arbitrary: acc) (simp_all add: active_rule_def split: sum.split)

lemma policy_visibility_table:
  assumes wf: "catalog_wf catalog" and table: "catalog_table_of catalog k = Some t"
  shows "hidden (policy_visibility catalog pt targets acc) k \<longleftrightarrow>
      hidden acc k \<or> pt = TableDeny \<and> matched (catalog_map catalog) targets k"
    "k \<in> va_visible_tables (policy_visibility catalog pt targets acc) \<longleftrightarrow>
      k \<in> va_visible_tables acc \<or> pt = ColumnAllow \<and> matched (catalog_map catalog) targets k"
proof -
  let ?m = "catalog_map catalog"
  have k: "k \<in> fst ` set (catalog_tables catalog)" "fst k \<in> fst ` set (cc_schemas catalog)"
    using catalog_tables_iff [OF wf, of k t] table
    by (force simp: catalog_table_of_def dest: map_of_SomeD split: option.splits)+
  have "snd k \<in> fst ` set (vs_tables (snd s))" if "s \<in> set (cc_schemas catalog)" "fst s = fst k" for s
  proof -
    have "map_of (cc_schemas catalog) (fst k) = Some (snd s)"
      using wf that by (cases s) (simp add: catalog_wf_def)
    with table show ?thesis by (auto simp: catalog_table_of_def dest: map_of_SomeD intro: rev_image_eqI)
  qed
  note deny = fold_deny_schemas [OF this, of "cc_schemas catalog" ?m targets acc]
  show "hidden (policy_visibility catalog pt targets acc) k \<longleftrightarrow> hidden acc k \<or> pt = TableDeny \<and> matched ?m targets k"
    using deny k(2)
    by (cases pt) (simp_all add: policy_visibility_def Let_def hidden_def fold_allow_table fold_deny_columns)
  show "k \<in> va_visible_tables (policy_visibility catalog pt targets acc) \<longleftrightarrow>
      k \<in> va_visible_tables acc \<or> pt = ColumnAllow \<and> matched ?m targets k"
    using k(1) same_columns_deny [of ?m targets "cc_schemas catalog" acc]
    by (cases pt) (auto simp: policy_visibility_def Let_def fold_allow_table fold_deny_columns same_columns_def)
qed

lemma policy_visibility_columns:
  "va_denied_columns (policy_visibility catalog pt targets acc) = va_denied_columns acc \<union>
     (if pt = ColumnDeny then \<Union>x \<in> set (catalog_tables catalog). hidden_columns (catalog_map catalog) targets x else {})"
  "patterns_of (va_column_allow_patterns (policy_visibility catalog pt targets acc)) =
     patterns_of (va_column_allow_patterns acc) \<union>
     (if pt = ColumnAllow then \<Union>x \<in> set (catalog_tables catalog). {fst x} \<times> set (unwrap_or (first_columns (catalog_map catalog) targets (fst x)) []) else {})"
  "fst ` set (va_column_allow_patterns (policy_visibility catalog pt targets acc)) =
     fst ` set (va_column_allow_patterns acc) \<union>
     (if pt = ColumnAllow then {k \<in> fst ` set (catalog_tables catalog). first_columns (catalog_map catalog) targets k \<noteq> None} else {})"
  "distinct (map fst (va_column_allow_patterns acc)) \<Longrightarrow>
     distinct (map fst (va_column_allow_patterns (policy_visibility catalog pt targets acc)))"
  using same_columns_deny [of "catalog_map catalog" targets "cc_schemas catalog" acc]
  by (cases pt; simp add: policy_visibility_def Let_def fold_allow_table fold_deny_columns fold_allow_patterns same_columns_def)+

lemma visit_policies_table:
  assumes "catalog_wf catalog" "catalog_table_of catalog k = Some t"
  shows "hidden (visit_policies env catalog df_map ctx ps acc) k \<longleftrightarrow> hidden acc k \<or>
      (\<exists>targets. (TableDeny, targets) \<in> set (List.map_filter (active_rule env df_map ctx) ps) \<and> matched (catalog_map catalog) targets k)"
    "k \<in> va_visible_tables (visit_policies env catalog df_map ctx ps acc) \<longleftrightarrow> k \<in> va_visible_tables acc \<or>
      (\<exists>targets. (ColumnAllow, targets) \<in> set (List.map_filter (active_rule env df_map ctx) ps) \<and> matched (catalog_map catalog) targets k)"
proof -
  have hidden: "hidden (fold (\<lambda>(pt, targets). policy_visibility catalog pt targets) rs acc) k \<longleftrightarrow> hidden acc k \<or>
      (\<exists>targets. (TableDeny, targets) \<in> set rs \<and> matched (catalog_map catalog) targets k)" for rs
    by (induction rs arbitrary: acc) (auto simp: policy_visibility_table [OF assms])
  have visible: "k \<in> va_visible_tables (fold (\<lambda>(pt, targets). policy_visibility catalog pt targets) rs acc) \<longleftrightarrow>
      k \<in> va_visible_tables acc \<or>
      (\<exists>targets. (ColumnAllow, targets) \<in> set rs \<and> matched (catalog_map catalog) targets k)" for rs
    by (induction rs arbitrary: acc) (auto simp: policy_visibility_table [OF assms])
  from hidden visible
  show "hidden (visit_policies env catalog df_map ctx ps acc) k \<longleftrightarrow> hidden acc k \<or>
      (\<exists>targets. (TableDeny, targets) \<in> set (List.map_filter (active_rule env df_map ctx) ps) \<and> matched (catalog_map catalog) targets k)"
    "k \<in> va_visible_tables (visit_policies env catalog df_map ctx ps acc) \<longleftrightarrow> k \<in> va_visible_tables acc \<or>
      (\<exists>targets. (ColumnAllow, targets) \<in> set (List.map_filter (active_rule env df_map ctx) ps) \<and> matched (catalog_map catalog) targets k)"
    unfolding visit_policies_fold by blast+
qed

abbreviation rules_of ::
  "engine_env \<Rightarrow> (uuid \<rightharpoonup> decision_function_row) \<Rightarrow> json option \<Rightarrow> policy_type \<Rightarrow> policy_row list \<Rightarrow> target_entry list set" where
  "rules_of env df_map ctx pt ps \<equiv> {targets. (pt, targets) \<in> set (List.map_filter (active_rule env df_map ctx) ps)}"

lemma visit_policies_columns:
  "va_denied_columns (visit_policies env catalog df_map ctx ps acc) = va_denied_columns acc \<union>
     (\<Union>x \<in> set (catalog_tables catalog). \<Union>targets \<in> rules_of env df_map ctx ColumnDeny ps. hidden_columns (catalog_map catalog) targets x)"
  "patterns_of (va_column_allow_patterns (visit_policies env catalog df_map ctx ps acc)) =
     patterns_of (va_column_allow_patterns acc) \<union>
     (\<Union>x \<in> set (catalog_tables catalog). \<Union>targets \<in> rules_of env df_map ctx ColumnAllow ps.
        {fst x} \<times> set (unwrap_or (first_columns (catalog_map catalog) targets (fst x)) []))"
  "fst ` set (va_column_allow_patterns (visit_policies env catalog df_map ctx ps acc)) =
     fst ` set (va_column_allow_patterns acc) \<union>
     (\<Union>targets \<in> rules_of env df_map ctx ColumnAllow ps.
        {k \<in> fst ` set (catalog_tables catalog). first_columns (catalog_map catalog) targets k \<noteq> None})"
  "distinct (map fst (va_column_allow_patterns acc)) \<Longrightarrow>
     distinct (map fst (va_column_allow_patterns (visit_policies env catalog df_map ctx ps acc)))"
proof -
  let ?fold = "fold (\<lambda>(pt, targets). policy_visibility catalog pt targets)"
  let ?m = "catalog_map catalog" and ?ts = "catalog_tables catalog"
  have "va_denied_columns (?fold rs acc) = va_denied_columns acc \<union>
      (\<Union>x \<in> set ?ts. \<Union>targets \<in> {targets. (ColumnDeny, targets) \<in> set rs}. hidden_columns ?m targets x)" for rs
  proof (induction rs arbitrary: acc)
    case (Cons r rs)
    show ?case by (cases r) (auto simp: Cons policy_visibility_columns(1))
  qed simp
  then show "va_denied_columns (visit_policies env catalog df_map ctx ps acc) = va_denied_columns acc \<union>
     (\<Union>x \<in> set ?ts. \<Union>targets \<in> rules_of env df_map ctx ColumnDeny ps. hidden_columns ?m targets x)"
    unfolding visit_policies_fold .
  have "patterns_of (va_column_allow_patterns (?fold rs acc)) = patterns_of (va_column_allow_patterns acc) \<union>
      (\<Union>x \<in> set ?ts. \<Union>targets \<in> {targets. (ColumnAllow, targets) \<in> set rs}.
        {fst x} \<times> set (unwrap_or (first_columns ?m targets (fst x)) []))" for rs
  proof (induction rs arbitrary: acc)
    case (Cons r rs)
    show ?case by (cases r) (auto simp: Cons policy_visibility_columns(2))
  qed simp
  then show "patterns_of (va_column_allow_patterns (visit_policies env catalog df_map ctx ps acc)) =
     patterns_of (va_column_allow_patterns acc) \<union> (\<Union>x \<in> set ?ts. \<Union>targets \<in> rules_of env df_map ctx ColumnAllow ps.
        {fst x} \<times> set (unwrap_or (first_columns ?m targets (fst x)) []))"
    unfolding visit_policies_fold .
  have "fst ` set (va_column_allow_patterns (?fold rs acc)) = fst ` set (va_column_allow_patterns acc) \<union>
      (\<Union>targets \<in> {targets. (ColumnAllow, targets) \<in> set rs}. {k \<in> fst ` set ?ts. first_columns ?m targets k \<noteq> None})" for rs
  proof (induction rs arbitrary: acc)
    case (Cons r rs)
    show ?case by (cases r) (auto simp: Cons policy_visibility_columns(3))
  qed simp
  then show "fst ` set (va_column_allow_patterns (visit_policies env catalog df_map ctx ps acc)) =
     fst ` set (va_column_allow_patterns acc) \<union> (\<Union>targets \<in> rules_of env df_map ctx ColumnAllow ps.
        {k \<in> fst ` set ?ts. first_columns ?m targets k \<noteq> None})"
    unfolding visit_policies_fold .
  have "distinct (map fst (va_column_allow_patterns acc)) \<Longrightarrow> distinct (map fst (va_column_allow_patterns (?fold rs acc)))" for rs
  proof (induction rs arbitrary: acc)
    case (Cons r rs)
    then show ?case by (cases r) (simp add: policy_visibility_columns(4))
  qed simp
  then show "distinct (map fst (va_column_allow_patterns acc)) \<Longrightarrow>
     distinct (map fst (va_column_allow_patterns (visit_policies env catalog df_map ctx ps acc)))"
    unfolding visit_policies_fold .
qed

section \<open>What is shown\<close>

definition shown_table :: "visibility_filter option \<Rightarrow> cached_catalog \<Rightarrow> table_key \<Rightarrow> virtual_catalog_table option" where
  "shown_table vis catalog = catalog_table_of (catalog\<lparr> cc_schemas := filtered_schemas vis (cc_schemas catalog) \<rparr>)"

lemma map_of_map_filter:
  assumes "distinct (map fst xs)" "\<And>x y. g x = Some y \<Longrightarrow> fst y = fst x"
  shows "map_of (List.map_filter g xs) k = (case map_of xs k of None \<Rightarrow> None | Some v \<Rightarrow> map_option snd (g (k, v)))"
  using assms(1)
proof (induction xs)
  case (Cons x xs)
  have "map_of xs k = None" if "k \<notin> fst ` set xs"
    using that by (simp add: map_of_eq_None_iff)
  with Cons assms(2) [of x] show ?case
    by (cases x; cases "g x") auto
qed simp

lemma shown_table_Some:
  assumes "catalog_wf catalog"
  shows "shown_table (Some f) catalog k =
    (if fst k \<in> vf_denied_schemas f \<or> k \<in> vf_denied_tables f \<or> (\<exists>v. vf_visible_tables f = Some v \<and> k \<notin> v) then None
     else map_option (\<lambda>t. \<lparr> vt_table_name = snd k,
       vt_arrow_schema = filter (\<lambda>c. (fst k, snd k, fd_name c) \<notin> vf_denied_columns f) (vt_arrow_schema t) \<rparr>) (catalog_table_of catalog k))"
proof -
  obtain al n where k: "k = (al, n)" by fastforce
  have key: "fst y = fst x" if "visible_schema f x = Some y" for x y
    using that by (auto simp: visible_schema_def Let_def split: prod.splits if_splits)
  have key': "fst y = fst x" if "visible_table f al x = Some y" for x y
    using that by (auto simp: visible_table_def split: prod.splits if_splits)
  have table: "map_of (List.map_filter (visible_table f al) (vs_tables vs)) n =
      (case map_of (vs_tables vs) n of None \<Rightarrow> None | Some t \<Rightarrow> map_option snd (visible_table f al (n, t)))"
    if "map_of (cc_schemas catalog) al = Some vs" for vs
    using assms that by (intro map_of_map_filter key') (auto simp: catalog_wf_def list_all_iff)
  have schema: "map_of (filtered_schemas (Some f) (cc_schemas catalog)) al =
      (case map_of (cc_schemas catalog) al of None \<Rightarrow> None | Some vs \<Rightarrow> map_option snd (visible_schema f (al, vs)))"
    using assms unfolding filtered_schemas_def option.case
    by (intro map_of_map_filter key) (auto simp: catalog_wf_def)
  show ?thesis
  proof (cases "map_of (cc_schemas catalog) al")
    case None
    with schema show ?thesis by (simp add: shown_table_def catalog_table_of_def k)
  next
    case (Some vs)
    show ?thesis
    proof (cases "map_of (List.map_filter (visible_table f al) (vs_tables vs)) n")
      case None
      with Some table [OF Some] schema show ?thesis
        by (auto simp: shown_table_def catalog_table_of_def k visible_schema_def visible_table_def Let_def split: option.splits if_splits)
    next
      case t: (Some t)
      then have "List.map_filter (visible_table f al) (vs_tables vs) \<noteq> []" by auto
      with t Some table [OF Some] schema show ?thesis
        by (auto simp: shown_table_def catalog_table_of_def k visible_schema_def visible_table_def Let_def split: option.splits if_splits)
    qed
  qed
qed

lemma shown_table_final:
  assumes wf: "catalog_wf catalog" and table: "catalog_table_of catalog k = Some t"
  shows "shown_table (final_visibility catalog acc) catalog k =
    (if hidden acc k \<or> cc_access_mode catalog = ''policy_required'' \<and> k \<notin> va_visible_tables acc then None
     else Some \<lparr> vt_table_name = snd k, vt_arrow_schema = filter (\<lambda>c. (fst k, snd k, fd_name c) \<notin>
       va_denied_columns acc \<union> allow_restrictions catalog (va_column_allow_patterns acc)) (vt_arrow_schema t) \<rparr>)"
proof (cases "final_visibility catalog acc")
  case None
  have "vt_table_name t = snd k"
    using wf table by (auto simp: catalog_wf_def list_all_iff catalog_table_of_def dest!: map_of_SomeD split: option.splits)
  then have "t = \<lparr> vt_table_name = snd k, vt_arrow_schema = vt_arrow_schema t \<rparr>" by simp
  with None table show ?thesis
    by (simp add: shown_table_def filtered_schemas_def final_visibility_def hidden_def Let_def split: if_splits)
next
  case (Some f)
  with table show ?thesis
    by (auto simp: shown_table_Some [OF wf] final_visibility_def hidden_def Let_def split: if_splits)
qed

section \<open>Agreement with the session\<close>

definition unique_aliases :: "uuid \<Rightarrow> discovered_schema_row list \<Rightarrow> bool" where
  "unique_aliases ds rows \<longleftrightarrow> distinct (map schema_df_alias (filter (\<lambda>s. dsc_data_source_id s = ds) rows))"

lemma load_catalog_parts:
  assumes "load_catalog db cat name = Inr catalog"
  obtains sources ds rows where
    "q_data_source db = Inr sources" "find (\<lambda>d. ds_name d = name \<and> ds_is_active d) sources = Some ds"
    "q_discovered_schema cat = Inr rows" "cc_datasource_id catalog = ds_id ds" "cc_access_mode catalog = ds_access_mode ds"
    "\<And>a vs. (a, vs) \<in> set (cc_schemas catalog) \<Longrightarrow>
       (a, vs_schema_name vs) \<in> (\<lambda>s. (schema_df_alias s, dsc_schema_name s)) ` set (filter (\<lambda>s. dsc_data_source_id s = ds_id ds) rows)"
proof -
  from assms obtain sources ds rows ts cols where *:
    "q_data_source db = Inr sources" "find (\<lambda>d. ds_name d = name \<and> ds_is_active d) sources = Some ds"
    "q_discovered_schema cat = Inr rows" "cc_datasource_id catalog = ds_id ds" "cc_access_mode catalog = ds_access_mode ds"
    "cc_schemas catalog = fold (\<lambda>x. AList.update (fst (catalog_schema cols x)) (snd (catalog_schema cols x)))
       (schemas_with_tables (ds_id ds) rows ts) []"
    by (auto simp: load_catalog_def Let_def split_def)
  have "(a, vs_schema_name vs) \<in> (\<lambda>s. (schema_df_alias s, dsc_schema_name s)) ` set (filter (\<lambda>s. dsc_data_source_id s = ds_id ds) rows)"
    if "(a, vs) \<in> set (cc_schemas catalog)" for a vs
  proof -
    have "(a, vs) \<in> catalog_schema cols ` set (schemas_with_tables (ds_id ds) rows ts)"
      using that fold_update_set [of "\<lambda>x. fst (catalog_schema cols x)" "\<lambda>x. snd (catalog_schema cols x)"
          "schemas_with_tables (ds_id ds) rows ts" "[]"]
      unfolding *(6) by auto
    then show ?thesis by (auto simp: schemas_with_tables_def catalog_schema_def)
  qed
  with *(1-5) show thesis by (rule that)
qed

lemma load_session_upstream:
  assumes "load_session lib db cat u name = Inr s"
  obtains rows where "q_discovered_schema cat = Inr rows"
    "sd_df_to_upstream s = load_schema_map (filter (\<lambda>r. dsc_data_source_id r = sd_datasource_id s) rows)"
proof -
  from assms show thesis
    unfolding load_session_def Let_def by (clarsimp split del: if_split) (rule that; simp)
qed

lemma find_unique:
  assumes "distinct (map f xs)" "find (\<lambda>x. f x = k \<and> P x) xs = Some x" "find (\<lambda>x. f x = k) xs = Some y"
  shows "x = y"
proof -
  have "x \<in> set xs" "f x = k" "y \<in> set xs" "f y = k"
    using assms(2,3) by (auto simp: find_Some_iff)
  with assms(1) show ?thesis by (metis distinct_map inj_onD)
qed

lemma session_and_catalog_agree:
  assumes session: "load_session lib (open_conn d) cat u name = Inr s" and catalog: "load_catalog (open_conn d) cat name = Inr catalog"
    and names: "distinct (map ds_name (t_data_source d))"
  shows "cc_datasource_id catalog = sd_datasource_id s" "cc_access_mode catalog = sd_access_mode s"
    "q_discovered_schema cat = Inr rows \<Longrightarrow> unique_aliases (sd_datasource_id s) rows \<Longrightarrow> a \<in> fst ` set (cc_schemas catalog) \<Longrightarrow>
       upstream_name (catalog_map catalog) a = upstream_name (sd_df_to_upstream s) a"
proof -
  from catalog obtain ds rows' where c: "find (\<lambda>d. ds_name d = name \<and> ds_is_active d) (t_data_source d) = Some ds"
    "q_discovered_schema cat = Inr rows'" "cc_datasource_id catalog = ds_id ds" "cc_access_mode catalog = ds_access_mode ds"
    "\<And>a vs. (a, vs) \<in> set (cc_schemas catalog) \<Longrightarrow>
       (a, vs_schema_name vs) \<in> (\<lambda>s. (schema_df_alias s, dsc_schema_name s)) ` set (filter (\<lambda>s. dsc_data_source_id s = ds_id ds) rows')"
    by (rule load_catalog_parts) (simp add: open_conn_def)
  from session obtain ds' where s: "find (\<lambda>d. ds_name d = name) (t_data_source d) = Some ds'"
    "sd_datasource_id s = ds_id ds'" "sd_access_mode s = ds_access_mode ds'"
    by (rule load_session_parts) (simp add: open_conn_def)
  have "ds = ds'" using names c(1) s(1) by (rule find_unique)
  with c s show same: "cc_datasource_id catalog = sd_datasource_id s" "cc_access_mode catalog = sd_access_mode s" by simp_all
  assume rows: "q_discovered_schema cat = Inr rows" and unique: "unique_aliases (sd_datasource_id s) rows"
    and a: "a \<in> fst ` set (cc_schemas catalog)"
  then obtain vs where vs: "(a, vs) \<in> set (cc_schemas catalog)" by auto
  let ?kvs = "map (\<lambda>s. (schema_df_alias s, dsc_schema_name s)) (filter (\<lambda>r. dsc_data_source_id r = sd_datasource_id s) rows)"
  have "sd_df_to_upstream s = collect_map ?kvs"
    using session rows by (elim load_session_upstream) (simp add: load_schema_map_def)
  moreover have "collect_map ?kvs a = Some (vs_schema_name vs)"
    using unique c(5) [OF vs] c(2,3) rows same
    by (subst collect_map_distinct) (auto simp: unique_aliases_def comp_def)
  moreover have "catalog_map catalog a = Some (vs_schema_name vs)"
    unfolding catalog_map_def using vs load_catalog_wf [OF catalog]
    by (subst collect_map_distinct) (auto simp: catalog_wf_def comp_def split_beta intro: rev_image_eqI)
  ultimately show "upstream_name (catalog_map catalog) a = upstream_name (sd_df_to_upstream s) a"
    by (simp add: upstream_name_def)
qed

lemma compute_user_visibility_parts:
  assumes "compute_user_visibility env (open_conn d) cat u catalog = Inr vis"
  obtains rel df_map ctx where "resolve_effective_assignments (open_conn d) u (cc_datasource_id catalog) = Inr rel"
    "vis = final_visibility catalog (visit_policies env catalog df_map ctx
       (filter (\<lambda>p. po_id p \<in> pa_policy_id ` set rel \<and> po_is_enabled p) (t_policy d)) no_visibility)"
proof -
  have none: "final_visibility catalog no_visibility =
      (if cc_access_mode catalog = ''policy_required''
       then Some \<lparr> vf_visible_tables = Some {}, vf_denied_columns = {}, vf_denied_schemas = {}, vf_denied_tables = {} \<rparr> else None)"
    by (simp add: final_visibility_def no_visibility_def allow_restrictions_def)
  from assms obtain rel where rel: "resolve_effective_assignments (open_conn d) u (cc_datasource_id catalog) = Inr rel"
    by (auto simp: compute_user_visibility_def)
  show thesis
  proof (cases "rel = []")
    case True
    with assms rel none show thesis by (intro that [OF rel]) (simp add: compute_user_visibility_def)
  next
    case False
    with assms rel that [OF rel] show thesis
      by (auto simp: compute_user_visibility_def Let_def simp del: map_filter_simps split: if_splits)
  qed
qed

lemma resolve_policy_plain:
  assumes "po_decision_function_id r = None"
  shows "resolve_policy lib df_map prio r = Some p \<Longrightarrow> rp_decision_function p = None"
    "active_rule env df_map' ctx r =
       map_option (\<lambda>p. (rp_policy_type p, rp_targets p)) (resolve_policy (en_lib env) df_map prio r)"
  using assms by (auto simp: resolve_policy_def active_rule_def skips_policy_def resolve_decision_function_def split: sum.splits)

lemma session_rules:
  assumes session: "load_session (en_lib env) (open_conn d) cat u name = Inr s"
    and plain: "list_all (\<lambda>p. po_decision_function_id p = None) (t_policy d)"
    and rel: "resolve_effective_assignments (open_conn d) u (sd_datasource_id s) = Inr rel"
  shows "(pt, targets) \<in> set (List.map_filter (active_rule env df_map ctx)
        (filter (\<lambda>p. po_id p \<in> pa_policy_id ` set rel \<and> po_is_enabled p) (t_policy d))) \<longleftrightarrow>
      (\<exists>p \<in> set (if is_deny pt then sd_deny_policies s else sd_permit_policies s). rp_policy_type p = pt \<and> rp_targets p = targets)"
    "p \<in> set (sd_deny_policies s) \<union> set (sd_permit_policies s) \<Longrightarrow> fires de p"
proof -
  let ?rows = "filter (\<lambda>p. po_id p \<in> pa_policy_id ` set rel \<and> po_is_enabled p) (t_policy d)"
  from session rel obtain ps where ps: "load_policies (en_lib env) (open_conn d) cat rel = Inr ps"
    "sd_permit_policies s = sort_key rp_priority (filter (\<lambda>p. \<not> is_deny (rp_policy_type p)) ps)"
    "sd_deny_policies s = sort_key rp_priority (filter (\<lambda>p. is_deny (rp_policy_type p)) ps)"
    by (elim load_session_parts) simp
  obtain dm prio where ps': "ps = List.map_filter (resolve_policy (en_lib env) dm prio) ?rows"
  proof (cases "rel = []")
    case True
    with ps(1) that show thesis by (simp add: load_policies_def)
  next
    case False
    with ps(1) that show thesis by (auto simp: load_policies_def Let_def split: if_splits)
  qed
  have "(pt, targets) \<in> set (List.map_filter (active_rule env df_map ctx) ?rows) \<longleftrightarrow>
      (\<exists>p \<in> set ps. rp_policy_type p = pt \<and> rp_targets p = targets)"
    using plain resolve_policy_plain(2) [where env = env and df_map' = df_map and ctx = ctx and df_map = dm and prio = prio]
    unfolding ps' by (force simp: set_map_filter list_all_iff)
  then show "(pt, targets) \<in> set (List.map_filter (active_rule env df_map ctx) ?rows) \<longleftrightarrow>
      (\<exists>p \<in> set (if is_deny pt then sd_deny_policies s else sd_permit_policies s). rp_policy_type p = pt \<and> rp_targets p = targets)"
    unfolding ps(2,3) by auto
  assume "p \<in> set (sd_deny_policies s) \<union> set (sd_permit_policies s)"
  then have "p \<in> set ps" unfolding ps(2,3) by auto
  then have "rp_decision_function p = None"
    using plain resolve_policy_plain(1) unfolding ps' by (fastforce simp: set_map_filter list_all_iff)
  then show "fires de p" by (simp add: fires_def evaluate_decision_fn_def)
qed

lemma find_filter: "find P xs = (case filter P xs of [] \<Rightarrow> None | x # _ \<Rightarrow> Some x)"
  by (induction xs) auto

text \<open>The columns of the first entry of a policy that matches a table.\<close>

definition first_entry_columns :: "session_data \<Rightarrow> resolved_policy \<Rightarrow> table_key \<Rightarrow> string list option" where
  "first_entry_columns s p k = Option.bind (find (entry_matches s k) (rp_targets p)) columns"

lemma first_columns_session:
  assumes "upstream_name m (fst k) = upstream_name (sd_df_to_upstream s) (fst k)"
  shows "matched m (rp_targets p) k \<longleftrightarrow> policy_matches s p k"
    "first_columns m (rp_targets p) k = first_entry_columns s p k"
proof -
  have same: "(\<lambda>e. matches_table e (fst k) (snd k) m) = entry_matches s k"
    using assms by (intro ext) (simp add: entry_matches_def matches_table_def)
  show "matched m (rp_targets p) k \<longleftrightarrow> policy_matches s p k"
    by (simp add: matched_def policy_matches_def same)
  show "first_columns m (rp_targets p) k = first_entry_columns s p k"
    by (simp add: first_columns_def first_match_def first_entry_columns_def same)
qed

lemma single_entry_columns:
  assumes "length (filter (entry_matches s k) (rp_targets p)) \<le> 1"
  shows "set (unwrap_or (first_entry_columns s p k) []) = entry_columns s p k"
proof -
  have set: "{e \<in> set (rp_targets p). entry_matches s k e} = set (filter (entry_matches s k) (rp_targets p))" by auto
  show ?thesis
    using assms unfolding first_entry_columns_def find_filter entry_columns_def set
    by (cases "filter (entry_matches s k) (rp_targets p)") simp_all
qed

lemma in_schemas: "catalog_table_of catalog k = Some t \<Longrightarrow> fst k \<in> fst ` set (cc_schemas catalog)"
  by (force simp: catalog_table_of_def dest: map_of_SomeD split: option.splits)

definition sx_table :: "session_context \<Rightarrow> table_key \<Rightarrow> field list option" where
  "sx_table sx k = (case sx_schemas sx (fst k) of None \<Rightarrow> None | Some (_, ts) \<Rightarrow> ts (snd k))"

lemma collect_map_eq: "distinct (map fst kvs) \<Longrightarrow> collect_map kvs = map_of kvs"
proof
  fix k
  assume distinct: "distinct (map fst kvs)"
  then have "collect_map kvs k = Some v \<longleftrightarrow> map_of kvs k = Some v" for v
    by (simp add: collect_map_distinct)
  then show "collect_map kvs k = map_of kvs k" by (metis not_Some_eq)
qed

lemma collect_map_named:
  assumes "distinct (map fst ts)" "list_all (\<lambda>(n, t). vt_table_name t = n) ts"
  shows "collect_map (map (\<lambda>(_, t). (vt_table_name t, vt_arrow_schema t)) ts) n = map_option vt_arrow_schema (map_of ts n)"
proof -
  have eq: "map (\<lambda>(_, t). (vt_table_name t, vt_arrow_schema t)) ts = map (\<lambda>(n, t). (n, vt_arrow_schema t)) ts"
    using assms(2) by (auto simp: list_all_iff)
  have "distinct (map fst (map (\<lambda>(n, t). (n, vt_arrow_schema t)) ts))"
    using assms(1) by (simp add: comp_def split_beta)
  then show ?thesis unfolding eq by (simp add: collect_map_eq map_of_map)
qed

lemma create_session_context_table:
  assumes "create_session_context_from_catalog env (cc_schemas catalog) pool default_schema name = Inr sx" "catalog_wf catalog"
  shows "sx_table sx k = map_option vt_arrow_schema (catalog_table_of catalog k)"
proof -
  have "sx_schemas sx (fst k) = map_option (\<lambda>vs. (vs_schema_name vs,
      collect_map (map (\<lambda>(_, t). (vt_table_name t, vt_arrow_schema t)) (vs_tables vs)))) (map_of (cc_schemas catalog) (fst k))"
    using assms(1) by (auto simp: create_session_context_from_catalog_def map_of_map)
  moreover have "distinct (map fst (vs_tables vs)) \<and> list_all (\<lambda>(n, t). vt_table_name t = n) (vs_tables vs)"
    if "map_of (cc_schemas catalog) (fst k) = Some vs" for vs
    using assms(2) map_of_SomeD [OF that] by (auto simp: catalog_wf_def list_all_iff)
  ultimately show ?thesis
    by (auto simp: sx_table_def catalog_table_of_def collect_map_named split: option.split)
qed

lemma filtered_keys: "map fst (List.map_filter g xs) = map fst (filter (\<lambda>x. g x \<noteq> None) xs)"
  if "\<And>x y. g x = Some y \<Longrightarrow> fst y = fst x" for g :: "'a \<times> 'b \<Rightarrow> ('a \<times> 'b) option"
  using that by (induction xs) (auto split: option.splits)

lemma filtered_wf:
  assumes "catalog_wf catalog"
  shows "catalog_wf (catalog\<lparr> cc_schemas := filtered_schemas vis (cc_schemas catalog) \<rparr>)"
proof (cases vis)
  case (Some f)
  have key: "fst y = fst x" if "visible_schema f x = Some y" for x y
    using that by (auto simp: visible_schema_def Let_def split: prod.splits if_splits)
  have key': "fst y = fst x" if "visible_table f al x = Some y" for al x y
    using that by (auto simp: visible_table_def split: prod.splits if_splits)
  have "distinct (map fst (vs_tables vs')) \<and> list_all (\<lambda>(n, t). vt_table_name t = n) (vs_tables vs')"
    if "(a, vs') \<in> set (List.map_filter (visible_schema f) (cc_schemas catalog))" for a vs'
  proof -
    from that obtain vs where vs: "(a, vs) \<in> set (cc_schemas catalog)" "visible_schema f (a, vs) = Some (a, vs')"
      using key by (fastforce simp: set_map_filter)
    then have vs': "vs_tables vs' = List.map_filter (visible_table f a) (vs_tables vs)"
      by (auto simp: visible_schema_def Let_def split: if_splits)
    have "distinct (map fst (vs_tables vs))" using assms vs(1) by (auto simp: catalog_wf_def list_all_iff)
    then have "distinct (map fst (vs_tables vs'))"
      unfolding vs' by (simp add: filtered_keys [OF key'] distinct_map_filter)
    moreover have "list_all (\<lambda>(n, t). vt_table_name t = n) (vs_tables vs')"
      unfolding vs' by (auto simp: list_all_iff set_map_filter visible_table_def split: if_splits)
    ultimately show ?thesis ..
  qed
  then have "list_all (\<lambda>(_, vs). distinct (map fst (vs_tables vs)) \<and> list_all (\<lambda>(n, t). vt_table_name t = n) (vs_tables vs))
      (List.map_filter (visible_schema f) (cc_schemas catalog))"
    unfolding list_all_iff [of _ "List.map_filter _ _"] by blast
  moreover have "distinct (map fst (List.map_filter (visible_schema f) (cc_schemas catalog)))"
    using assms by (simp add: catalog_wf_def filtered_keys [OF key] distinct_map_filter)
  ultimately show ?thesis by (simp add: Some filtered_schemas_def catalog_wf_def)
qed (use assms in \<open>simp add: filtered_schemas_def catalog_wf_def\<close>)

lemma build_user_context_parts:
  assumes "build_user_context env db cat u name cache = (Inr sx, cache')" "load_catalog db cat name = Inr catalog"
    "ec_catalogs cache name \<in> {None, Some catalog}"
  obtains vis where "compute_user_visibility env db cat u catalog = Inr vis"
    "\<And>k. sx_table sx k = map_option vt_arrow_schema (shown_table vis catalog k)"
proof -
  have "fst (get_catalog db cat name cache) = Inr catalog"
    using assms(2,3) by (auto simp: get_catalog_def)
  with assms(1) obtain vis pool ds where vis: "compute_user_visibility env db cat u catalog = Inr vis"
    "create_session_context_from_catalog env (filtered_schemas vis (cc_schemas catalog)) pool ds name = Inr sx"
    by (auto simp: build_user_context_def Let_def split: prod.splits sum.splits)
  show thesis
    using create_session_context_table [OF _ filtered_wf [OF load_catalog_wf [OF assms(2)]], of env vis pool ds name sx] vis
    by (intro that [OF vis(1)]) (simp add: shown_table_def)
qed

text \<open>
  C12. The catalog a connection gets lists exactly the tables the policies let the user query: with one and the
  same database behind both, no decision functions, a cached catalog (if any) that is up to date and distinct
  aliases for the schemas of the data source, a stored table is registered iff no table-deny policy
  of the user's session matches it and, on a data source that requires policies, some column-allow policy
  does.
\<close>

theorem catalog_lists_queryable_tables:
  assumes session: "load_session (en_lib env) (open_conn d) cat u name = Inr s"
    and catalog: "load_catalog (open_conn d) cat name = Inr catalog"
    and built: "build_user_context env (open_conn d) cat u name cache = (Inr sx, cache')"
      "ec_catalogs cache name \<in> {None, Some catalog}"
    and names: "distinct (map ds_name (t_data_source d))"
    and rows: "q_discovered_schema cat = Inr rows" "unique_aliases (sd_datasource_id s) rows"
    and plain: "list_all (\<lambda>p. po_decision_function_id p = None) (t_policy d)"
    and table: "catalog_table_of catalog k = Some t"
  shows "sx_table sx k \<noteq> None \<longleftrightarrow>
    \<not> (\<exists>p \<in> set (sd_deny_policies s). rp_policy_type p = TableDeny \<and> policy_matches s p k) \<and>
    (sd_access_mode s = ''policy_required'' \<longrightarrow>
       (\<exists>p \<in> set (sd_permit_policies s). rp_policy_type p = ColumnAllow \<and> policy_matches s p k))"
proof -
  note agree = session_and_catalog_agree [OF session catalog names]
  note wf = load_catalog_wf [OF catalog]
  obtain vis where vis: "compute_user_visibility env (open_conn d) cat u catalog = Inr vis"
    and sx: "\<And>k. sx_table sx k = map_option vt_arrow_schema (shown_table vis catalog k)"
    using build_user_context_parts [OF built(1) catalog built(2)] by blast
  from vis obtain rel df_map ctx where rel: "resolve_effective_assignments (open_conn d) u (sd_datasource_id s) = Inr rel"
    and vis_eq: "vis = final_visibility catalog (visit_policies env catalog df_map ctx
       (filter (\<lambda>p. po_id p \<in> pa_policy_id ` set rel \<and> po_is_enabled p) (t_policy d)) no_visibility)"
    unfolding agree(1) [symmetric] by (rule compute_user_visibility_parts)
  have "matched (catalog_map catalog) (rp_targets p) k \<longleftrightarrow> policy_matches s p k" for p
    using first_columns_session(1) agree(3) [OF rows in_schemas [OF table]] .
  then show ?thesis
    unfolding sx vis_eq shown_table_final [OF wf table] visit_policies_table [OF wf table] session_rules(1) [OF session plain rel] agree(2)
    by (auto simp: hidden_def no_visibility_def)
qed

lemma column_of_table: "(fst k, snd k, c) \<in> (\<lambda>c. (fst k', snd k', c)) ` A \<longleftrightarrow> k' = k \<and> c \<in> A"
  by (cases k; cases k') auto

lemma allow_restrictions_iff:
  assumes "distinct (map fst pats)" "catalog_table_of catalog k = Some t"
  shows "(fst k, snd k, c) \<in> allow_restrictions catalog pats \<longleftrightarrow>
    c \<in> set (field_names t) \<and> k \<in> fst ` set pats \<and> \<not> (\<exists>pat. (k, pat) \<in> patterns_of pats \<and> matches_pattern pat c)"
proof -
  have one: "(fst k, snd k, c) \<in> (case catalog_table_of catalog k' of None \<Rightarrow> {}
      | Some t \<Rightarrow> (\<lambda>c. (fst k', snd k', c)) ` {c \<in> set (field_names t). c \<notin> expand_column_patterns ps (field_names t)}) \<longleftrightarrow>
      k' = k \<and> c \<in> set (field_names t) \<and> \<not> (\<exists>pat \<in> set ps. matches_pattern pat c)" for k' ps
    using assms(2) by (cases "catalog_table_of catalog k'") (auto simp: column_of_table)
  have "(fst k, snd k, c) \<in> allow_restrictions catalog pats \<longleftrightarrow>
      c \<in> set (field_names t) \<and> (\<exists>ps. (k, ps) \<in> set pats \<and> \<not> (\<exists>pat \<in> set ps. matches_pattern pat c))"
    unfolding allow_restrictions_def UN_iff split_beta one by force
  also have "\<dots> \<longleftrightarrow> c \<in> set (field_names t) \<and> (\<exists>ps. map_of pats k = Some ps \<and> \<not> (\<exists>pat \<in> set ps. matches_pattern pat c))"
    using assms(1) by simp
  also have "\<dots> \<longleftrightarrow> c \<in> set (field_names t) \<and> k \<in> fst ` set pats \<and> \<not> (\<exists>pat. (k, pat) \<in> patterns_of pats \<and> matches_pattern pat c)"
    using map_of_eq_None_iff [of pats k] by (cases "map_of pats k") (auto simp: patterns_of_def)
  finally show ?thesis .
qed

text \<open>The columns that visiting the policies leaves, in terms of the rules visited.\<close>

lemma visit_policies_hides:
  assumes wf: "catalog_wf catalog" and table: "catalog_table_of catalog k = Some t"
  shows "(fst k, snd k, c) \<in> va_denied_columns (visit_policies env catalog df_map ctx ps no_visibility) \<longleftrightarrow> c \<in> set (field_names t) \<and>
    (\<exists>targets \<in> rules_of env df_map ctx ColumnDeny ps.
       \<exists>pat \<in> set (unwrap_or (first_columns (catalog_map catalog) targets k) []). matches_pattern pat c)"
proof -
  have one: "(fst k, snd k, c) \<in> hidden_columns m targets x \<longleftrightarrow> fst x = k \<and> c \<in> set (field_names (snd x)) \<and>
      (\<exists>pat \<in> set (unwrap_or (first_columns m targets k) []). matches_pattern pat c)" for m targets x
    by (cases x) (auto simp: hidden_columns_def column_of_table)
  have mem: "(k, t) \<in> set (catalog_tables catalog)" using catalog_tables_iff [OF wf] table by blast
  have only: "x = (k, t)" if "x \<in> set (catalog_tables catalog)" "(fst k, snd k, c) \<in> hidden_columns m targets x" for x m targets
  proof -
    have "x = (k, snd x)" using that(2) unfolding one by (simp add: prod_eq_iff)
    then show ?thesis using that(1) catalog_tables_iff [OF wf, of k "snd x"] table by simp
  qed
  have "(fst k, snd k, c) \<in> (\<Union>x \<in> set (catalog_tables catalog). \<Union>targets \<in> rules_of env df_map ctx ColumnDeny ps.
      hidden_columns (catalog_map catalog) targets x) \<longleftrightarrow>
      (\<exists>targets \<in> rules_of env df_map ctx ColumnDeny ps. (fst k, snd k, c) \<in> hidden_columns (catalog_map catalog) targets (k, t))"
    using mem only by blast
  then show ?thesis unfolding visit_policies_columns(1) Un_iff one by (auto simp: no_visibility_def)
qed

lemma visit_policies_allows:
  assumes wf: "catalog_wf catalog" and table: "catalog_table_of catalog k = Some t"
  shows "(k, pat) \<in> patterns_of (va_column_allow_patterns (visit_policies env catalog df_map ctx ps no_visibility)) \<longleftrightarrow>
      (\<exists>targets \<in> rules_of env df_map ctx ColumnAllow ps. pat \<in> set (unwrap_or (first_columns (catalog_map catalog) targets k) []))"
    "k \<in> fst ` set (va_column_allow_patterns (visit_policies env catalog df_map ctx ps no_visibility)) \<longleftrightarrow>
      (\<exists>targets \<in> rules_of env df_map ctx ColumnAllow ps. first_columns (catalog_map catalog) targets k \<noteq> None)"
proof -
  have "(k, t) \<in> set (catalog_tables catalog)" using catalog_tables_iff [OF wf] table by blast
  then have k: "k \<in> fst ` set (catalog_tables catalog)" by (rule rev_image_eqI) simp
  then show "(k, pat) \<in> patterns_of (va_column_allow_patterns (visit_policies env catalog df_map ctx ps no_visibility)) \<longleftrightarrow>
      (\<exists>targets \<in> rules_of env df_map ctx ColumnAllow ps. pat \<in> set (unwrap_or (first_columns (catalog_map catalog) targets k) []))"
    unfolding visit_policies_columns(2) by (auto simp: no_visibility_def patterns_of_def)
  show "k \<in> fst ` set (va_column_allow_patterns (visit_policies env catalog df_map ctx ps no_visibility)) \<longleftrightarrow>
      (\<exists>targets \<in> rules_of env df_map ctx ColumnAllow ps. first_columns (catalog_map catalog) targets k \<noteq> None)"
    using k unfolding visit_policies_columns(3) by (auto simp: no_visibility_def)
qed

lemma visit_policies_leaves:
  assumes wf: "catalog_wf catalog" and table: "catalog_table_of catalog k = Some t" and c: "c \<in> set (field_names t)"
    and acc: "acc = visit_policies env catalog df_map ctx ps no_visibility"
  shows "(fst k, snd k, c) \<notin> va_denied_columns acc \<union> allow_restrictions catalog (va_column_allow_patterns acc) \<longleftrightarrow>
    \<not> (\<exists>targets \<in> rules_of env df_map ctx ColumnDeny ps. \<exists>pat \<in> set (unwrap_or (first_columns (catalog_map catalog) targets k) []). matches_pattern pat c) \<and>
    ((\<exists>targets \<in> rules_of env df_map ctx ColumnAllow ps. first_columns (catalog_map catalog) targets k \<noteq> None) \<longrightarrow>
     (\<exists>targets \<in> rules_of env df_map ctx ColumnAllow ps. \<exists>pat \<in> set (unwrap_or (first_columns (catalog_map catalog) targets k) []). matches_pattern pat c))"
proof -
  have "distinct (map fst (va_column_allow_patterns acc))"
    unfolding acc by (rule visit_policies_columns(4)) (simp add: no_visibility_def)
  note restricted = allow_restrictions_iff [OF this table, unfolded acc visit_policies_allows [OF wf table]]
  show ?thesis unfolding acc Un_iff visit_policies_hides [OF wf table] restricted using c by blast
qed

text \<open>The columns the first matching entries of the policies leave.\<close>

definition first_entries_leave :: "session_data \<Rightarrow> table_key \<Rightarrow> string \<Rightarrow> bool" where
  "first_entries_leave s k c \<longleftrightarrow>
     \<not> (\<exists>p \<in> set (sd_deny_policies s). rp_policy_type p = ColumnDeny \<and>
         (\<exists>pat \<in> set (unwrap_or (first_entry_columns s p k) []). matches_pattern pat c)) \<and>
     ((\<exists>p \<in> set (sd_permit_policies s). rp_policy_type p = ColumnAllow \<and> first_entry_columns s p k \<noteq> None) \<longrightarrow>
       (\<exists>p \<in> set (sd_permit_policies s). rp_policy_type p = ColumnAllow \<and>
         (\<exists>pat \<in> set (unwrap_or (first_entry_columns s p k) []). matches_pattern pat c)))"

lemma shown_columns:
  assumes session: "load_session (en_lib env) (open_conn d) cat u name = Inr s"
    and catalog: "load_catalog (open_conn d) cat name = Inr catalog"
    and built: "build_user_context env (open_conn d) cat u name cache = (Inr sx, cache')"
      "ec_catalogs cache name \<in> {None, Some catalog}"
    and names: "distinct (map ds_name (t_data_source d))"
    and rows: "q_discovered_schema cat = Inr rows" "unique_aliases (sd_datasource_id s) rows"
    and plain: "list_all (\<lambda>p. po_decision_function_id p = None) (t_policy d)"
    and table: "catalog_table_of catalog k = Some t" and shown: "sx_table sx k = Some fs"
  shows "fs = filter (\<lambda>f. first_entries_leave s k (fd_name f)) (vt_arrow_schema t)"
    and "p \<in> set (sd_deny_policies s) \<union> set (sd_permit_policies s) \<Longrightarrow> fires de p"
proof -
  note agree = session_and_catalog_agree [OF session catalog names]
  note wf = load_catalog_wf [OF catalog]
  obtain vis where vis: "compute_user_visibility env (open_conn d) cat u catalog = Inr vis"
    and sx: "\<And>k. sx_table sx k = map_option vt_arrow_schema (shown_table vis catalog k)"
    using build_user_context_parts [OF built(1) catalog built(2)] by blast
  from vis obtain rel df_map ctx where rel: "resolve_effective_assignments (open_conn d) u (sd_datasource_id s) = Inr rel"
    and vis_eq: "vis = final_visibility catalog (visit_policies env catalog df_map ctx
       (filter (\<lambda>p. po_id p \<in> pa_policy_id ` set rel \<and> po_is_enabled p) (t_policy d)) no_visibility)"
    unfolding agree(1) [symmetric] by (rule compute_user_visibility_parts)
  show "p \<in> set (sd_deny_policies s) \<union> set (sd_permit_policies s) \<Longrightarrow> fires de p"
    by (rule session_rules(2) [OF session plain rel])
  let ?rows = "filter (\<lambda>p. po_id p \<in> pa_policy_id ` set rel \<and> po_is_enabled p) (t_policy d)"
  define acc where "acc = visit_policies env catalog df_map ctx ?rows no_visibility"
  have rules: "rules_of env df_map ctx pt ?rows =
      rp_targets ` {p \<in> set (if is_deny pt then sd_deny_policies s else sd_permit_policies s). rp_policy_type p = pt}" for pt
    using session_rules(1) [OF session plain rel] by auto
  have cols: "first_columns (catalog_map catalog) (rp_targets p) k = first_entry_columns s p k" for p
    by (rule first_columns_session(2) [OF agree(3) [OF rows in_schemas [OF table]]])
  have "(fst k, snd k, c) \<notin> va_denied_columns acc \<union> allow_restrictions catalog (va_column_allow_patterns acc) \<longleftrightarrow> first_entries_leave s k c"
    if "c \<in> set (field_names t)" for c
    unfolding visit_policies_leaves [OF wf table that acc_def] rules first_entries_leave_def by (simp add: cols) blast
  then show "fs = filter (\<lambda>f. first_entries_leave s k (fd_name f)) (vt_arrow_schema t)"
    using shown unfolding sx vis_eq acc_def [symmetric] shown_table_final [OF wf table]
    by (auto simp: field_names_def split: if_splits intro!: filter_cong)
qed

text \<open>
  C13. Every column the catalog of a connection shows is a column the policies permit the user to read, provided
  no policy has a decision function, the cached catalog is up to date, the schemas have distinct aliases, and every policy of the session has at most
  one target entry for the table.
\<close>

theorem shown_columns_are_permitted:
  assumes session: "load_session (en_lib env) (open_conn d) cat u name = Inr s"
    and catalog: "load_catalog (open_conn d) cat name = Inr catalog"
    and built: "build_user_context env (open_conn d) cat u name cache = (Inr sx, cache')"
      "ec_catalogs cache name \<in> {None, Some catalog}"
    and names: "distinct (map ds_name (t_data_source d))"
    and rows: "q_discovered_schema cat = Inr rows" "unique_aliases (sd_datasource_id s) rows"
    and plain: "list_all (\<lambda>p. po_decision_function_id p = None) (t_policy d)"
    and single: "list_all (\<lambda>p. length (filter (entry_matches s k) (rp_targets p)) \<le> 1) (sd_deny_policies s @ sd_permit_policies s)"
    and table: "catalog_table_of catalog k = Some t"
    and shown: "sx_table sx k = Some fs" "c \<in> fd_name ` set fs"
  shows "permitted_column s de k c"
proof -
  have leave: "first_entries_leave s k c"
    using shown_columns(1) [OF session catalog built names rows plain table shown(1)] shown(2) by auto
  have fires: "fires de p" if "p \<in> set (sd_deny_policies s) \<union> set (sd_permit_policies s)" for p
    using shown_columns(2) [OF session catalog built names rows plain table shown(1) that] .
  have cols: "set (unwrap_or (first_entry_columns s p k) []) = entry_columns s p k"
    if "p \<in> set (sd_deny_policies s) \<union> set (sd_permit_policies s)" for p
    using single that by (intro single_entry_columns) (auto simp: list_all_iff)
  have "first_entry_columns s p k \<noteq> None" if "p \<in> set (sd_permit_policies s)" "entry_columns s p k \<noteq> {}" for p
    using cols [of p] that by auto
  then have "\<exists>p \<in> set (sd_permit_policies s). rp_policy_type p = ColumnAllow \<and> (\<exists>pat \<in> entry_columns s p k. matches_pattern pat c)"
    if "p \<in> set (sd_permit_policies s)" "rp_policy_type p = ColumnAllow" "entry_columns s p k \<noteq> {}" for p
    using leave cols that unfolding first_entries_leave_def by blast
  moreover have "\<not> matches_pattern pat c" if "p \<in> set (sd_deny_policies s)" "rp_policy_type p = ColumnDeny" "pat \<in> entry_columns s p k" for p pat
    using leave cols that unfolding first_entries_leave_def by blast
  ultimately show ?thesis using fires unfolding permitted_column_def set_filter by blast
qed

text \<open>
  C38. The catalog of a connection is built from first entries: the columns it shows of a table are exactly those that
  the first matching entry of each column-deny policy leaves and, when the first matching entry of some column-allow
  policy names columns, that some such entry allows. Later entries of a policy for the same table play no part, while
  the session denies the columns of all of them. Both come from the same database, without decision
  functions, and the schemas have distinct aliases.
\<close>

theorem shown_columns_follow_first_entries:
  assumes "load_session (en_lib env) (open_conn d) cat u name = Inr s"
    and "load_catalog (open_conn d) cat name = Inr catalog"
    and "build_user_context env (open_conn d) cat u name cache = (Inr sx, cache')" "ec_catalogs cache name \<in> {None, Some catalog}"
    and "distinct (map ds_name (t_data_source d))"
    and "q_discovered_schema cat = Inr rows" "unique_aliases (sd_datasource_id s) rows"
    and "list_all (\<lambda>p. po_decision_function_id p = None) (t_policy d)"
    and "catalog_table_of catalog k = Some t" "sx_table sx k = Some fs"
  shows "c \<in> fd_name ` set fs \<longleftrightarrow> c \<in> set (field_names t) \<and>
    \<not> (\<exists>p \<in> set (sd_deny_policies s). rp_policy_type p = ColumnDeny \<and>
        (\<exists>pat \<in> set (unwrap_or (first_entry_columns s p k) []). matches_pattern pat c)) \<and>
    ((\<exists>p \<in> set (sd_permit_policies s). rp_policy_type p = ColumnAllow \<and> first_entry_columns s p k \<noteq> None) \<longrightarrow>
      (\<exists>p \<in> set (sd_permit_policies s). rp_policy_type p = ColumnAllow \<and>
        (\<exists>pat \<in> set (unwrap_or (first_entry_columns s p k) []). matches_pattern pat c)))"
proof -
  have "c \<in> fd_name ` set fs \<longleftrightarrow> c \<in> set (field_names t) \<and> first_entries_leave s k c"
    unfolding shown_columns(1) [OF assms] by (auto simp: field_names_def)
  then show ?thesis unfolding first_entries_leave_def .
qed

section \<open>Examples\<close>

text \<open>A policy's targets are written as the letters of its columns, one entry on \<open>public.orders\<close> for each.\<close>

definition viewer_lib :: session_lib where
  "viewer_lib = plain_session_lib\<lparr> sl_targets :=
     \<lambda>s. Some (map (\<lambda>c. \<lparr> schemas = [''public''], tables = [''orders''], columns = Some [[c]] \<rparr>) s) \<rparr>"

definition viewer_env :: engine_env where
  "viewer_env =
     \<lparr> en_lib = viewer_lib, en_expr = tenant_lib, en_evaluate_bytes = (\<lambda>_ _ _ _ _. Inl ''none''),
       en_clock = \<lparr> ck_now = '''', ck_hour = ''09'', ck_day_of_week = ''Monday'' \<rparr>, en_keys = (\<lambda>_. []),
       en_crypto = plain_crypto, en_master_key = [], en_setup = Inr () \<rparr>"

definition viewer_db :: "string \<Rightarrow> string \<Rightarrow> admin_db" where
  "viewer_db ptype targets = session_db\<lparr> t_data_source := [sample_source], t_policy := map (\<lambda>p. p\<lparr> po_policy_type := ptype, po_targets := targets \<rparr>) (t_policy session_db) \<rparr>"

definition viewer_catalog :: catalog_db where
  "viewer_catalog = session_catalog\<lparr> t_discovered_column := map (\<lambda>n.
     \<lparr> dco_id = 0, dco_discovered_table_id = 2, dco_column_name = n, dco_ordinal_position = 0, dco_data_type = ''text'',
       dco_is_nullable = True, dco_column_default = None, dco_arrow_type = Some ''Utf8'', dco_is_selected = True,
       dco_discovered_at = 0 \<rparr>) [''i'', ''m'', ''s''] \<rparr>"

abbreviation viewer_context :: "string \<Rightarrow> string \<Rightarrow> (string, session_context) result \<times> engine_cache" where
  "viewer_context ptype targets \<equiv> build_user_context viewer_env (open_conn (viewer_db ptype targets)) (open_catalog viewer_catalog)
     100 ''crm'' \<lparr> ec_catalogs = Map.empty, ec_pools = [''crm'' \<mapsto> Map.empty] \<rparr>"

lemma viewer_shows:
  "case viewer_context ''table_deny'' ''m'' of (Inr sx, _) \<Rightarrow> sx_table sx (''public'', ''orders'') = None \<and>
      sx_table sx (''public'', ''custs'') = Some [] | _ \<Rightarrow> False"
  "case viewer_context ''column_deny'' ''m'' of
     (Inr sx, _) \<Rightarrow> map_option (map fd_name) (sx_table sx (''public'', ''orders'')) = Some [''i'', ''s''] | _ \<Rightarrow> False"
  "case viewer_context ''column_deny'' ''ms'' of
     (Inr sx, _) \<Rightarrow> map_option (map fd_name) (sx_table sx (''public'', ''orders'')) = Some [''i'', ''s''] | _ \<Rightarrow> False"
  by code_simp+

abbreviation viewer_load :: "string \<Rightarrow> string \<Rightarrow> (string, session_data) result" where
  "viewer_load ptype targets \<equiv>
     load_session (en_lib viewer_env) (open_conn (viewer_db ptype targets)) (open_catalog viewer_catalog) 100 ''crm''"

abbreviation viewer_stored :: "string \<Rightarrow> string \<Rightarrow> (string, cached_catalog) result" where
  "viewer_stored ptype targets \<equiv> load_catalog (open_conn (viewer_db ptype targets)) (open_catalog viewer_catalog) ''crm''"

lemma viewer_sessions:
  "case viewer_load ''table_deny'' ''m'' of Inr s \<Rightarrow> sd_datasource_id s = 7 | _ \<Rightarrow> False"
  "case viewer_load ''column_deny'' ''m'' of Inr s \<Rightarrow> sd_datasource_id s = 7 \<and>
     list_all (\<lambda>p. length (filter (entry_matches s (''public'', ''orders'')) (rp_targets p)) \<le> 1)
       (sd_deny_policies s @ sd_permit_policies s) | _ \<Rightarrow> False"
  "case viewer_load ''column_deny'' ''ms'' of Inr s \<Rightarrow>
     list_ex (\<lambda>p. rp_policy_type p = ColumnDeny \<and>
       list_ex (\<lambda>e. entry_matches s (''public'', ''orders'') e \<and> unwrap_or (columns e) [] = [''s'']) (rp_targets p)) (sd_deny_policies s) | _ \<Rightarrow> False"
  by code_simp+

lemma viewer_catalogs:
  "case viewer_stored ''table_deny'' ''m'' of Inr c \<Rightarrow> catalog_table_of c (''public'', ''orders'') \<noteq> None | _ \<Rightarrow> False"
  "case viewer_stored ''column_deny'' ''m'' of Inr c \<Rightarrow> catalog_table_of c (''public'', ''orders'') \<noteq> None | _ \<Rightarrow> False"
  "case viewer_stored ''column_deny'' ''ms'' of Inr c \<Rightarrow> catalog_table_of c (''public'', ''orders'') \<noteq> None | _ \<Rightarrow> False"
  by code_simp+

lemma viewer_wf:
  "distinct (map ds_name (t_data_source (viewer_db ptype targets)))"
  "q_discovered_schema (open_catalog viewer_catalog) = Inr (t_discovered_schema viewer_catalog)"
  "unique_aliases i (t_discovered_schema viewer_catalog)"
  "list_all (\<lambda>p. po_decision_function_id p = None) (t_policy (viewer_db ptype targets))"
  by (simp_all add: viewer_db_def session_db_def sample_source_def viewer_catalog_def session_catalog_def open_catalog_def unique_aliases_def)

theorem catalog_lists_queryable_tables_witness:
  "\<exists>s sx cache'. viewer_load ''table_deny'' ''m'' = Inr s \<and> viewer_context ''table_deny'' ''m'' = (Inr sx, cache') \<and>
     (sx_table sx (''public'', ''orders'') \<noteq> None \<longleftrightarrow>
       \<not> (\<exists>p \<in> set (sd_deny_policies s). rp_policy_type p = TableDeny \<and> policy_matches s p (''public'', ''orders'')) \<and>
       (sd_access_mode s = ''policy_required'' \<longrightarrow>
         (\<exists>p \<in> set (sd_permit_policies s). rp_policy_type p = ColumnAllow \<and> policy_matches s p (''public'', ''orders'')))) \<and>
     sx_table sx (''public'', ''orders'') = None"
proof -
  from viewer_sessions(1) obtain s where s: "viewer_load ''table_deny'' ''m'' = Inr s" by (auto split: sum.splits)
  from viewer_shows(1) obtain sx cache' where sx: "viewer_context ''table_deny'' ''m'' = (Inr sx, cache')"
    "sx_table sx (''public'', ''orders'') = None" by (auto split: sum.splits prod.splits)
  from viewer_catalogs(1) obtain c t where c: "viewer_stored ''table_deny'' ''m'' = Inr c"
    "catalog_table_of c (''public'', ''orders'') = Some t" by (auto split: sum.splits)
  show ?thesis
    using catalog_lists_queryable_tables [OF s c(1) sx(1) _ viewer_wf c(2)] s sx by auto
qed

theorem shown_columns_are_permitted_witness:
  "\<exists>s sx cache'. viewer_load ''column_deny'' ''m'' = Inr s \<and> viewer_context ''column_deny'' ''m'' = (Inr sx, cache') \<and>
     map_option (map fd_name) (sx_table sx (''public'', ''orders'')) = Some [''i'', ''s''] \<and>
     permitted_column s None (''public'', ''orders'') ''s''"
proof -
  from viewer_sessions(2) obtain s where s: "viewer_load ''column_deny'' ''m'' = Inr s"
    "list_all (\<lambda>p. length (filter (entry_matches s (''public'', ''orders'')) (rp_targets p)) \<le> 1)
       (sd_deny_policies s @ sd_permit_policies s)" by (auto split: sum.splits)
  from viewer_shows(2) obtain sx cache' where sx: "viewer_context ''column_deny'' ''m'' = (Inr sx, cache')"
    "map_option (map fd_name) (sx_table sx (''public'', ''orders'')) = Some [''i'', ''s'']"
    by (auto split: sum.splits prod.splits)
  then obtain fs where fs: "sx_table sx (''public'', ''orders'') = Some fs" "map fd_name fs = [''i'', ''s'']" by auto
  then have "''s'' \<in> fd_name ` set fs" by (metis list.set_intros(1) list.set_intros(2) list.set_map)
  from viewer_catalogs(2) obtain c t where c: "viewer_stored ''column_deny'' ''m'' = Inr c"
    "catalog_table_of c (''public'', ''orders'') = Some t" by (auto split: sum.splits)
  show ?thesis
    using shown_columns_are_permitted [OF s(1) c(1) sx(1) _ viewer_wf s(2) c(2) fs(1) \<open>''s'' \<in> _\<close>] s(1) sx by auto
qed

text \<open>A column-deny policy with entries on \<open>m\<close> and on \<open>s\<close> of one table: the catalog shows \<open>s\<close>, which the session denies.\<close>

theorem shown_columns_follow_first_entries_witness:
  "\<exists>s sx cache' fs. viewer_load ''column_deny'' ''ms'' = Inr s \<and> viewer_context ''column_deny'' ''ms'' = (Inr sx, cache') \<and>
     sx_table sx (''public'', ''orders'') = Some fs \<and> ''s'' \<in> fd_name ` set fs \<and> ''m'' \<notin> fd_name ` set fs \<and>
     \<not> (\<exists>p \<in> set (sd_deny_policies s). rp_policy_type p = ColumnDeny \<and>
        (\<exists>pat \<in> set (unwrap_or (first_entry_columns s p (''public'', ''orders'')) []). matches_pattern pat ''s'')) \<and>
     (\<exists>p \<in> set (sd_deny_policies s). rp_policy_type p = ColumnDeny \<and> ''s'' \<in> entry_columns s p (''public'', ''orders''))"
proof -
  from viewer_sessions(3) obtain s where s: "viewer_load ''column_deny'' ''ms'' = Inr s"
    "list_ex (\<lambda>p. rp_policy_type p = ColumnDeny \<and>
       list_ex (\<lambda>e. entry_matches s (''public'', ''orders'') e \<and> unwrap_or (columns e) [] = [''s'']) (rp_targets p)) (sd_deny_policies s)"
    by (auto split: sum.splits)
  then have denied: "\<exists>p \<in> set (sd_deny_policies s). rp_policy_type p = ColumnDeny \<and> ''s'' \<in> entry_columns s p (''public'', ''orders'')"
    by (force simp: list_ex_iff entry_columns_def)
  from viewer_shows(3) obtain sx cache' fs where sx: "viewer_context ''column_deny'' ''ms'' = (Inr sx, cache')"
    "sx_table sx (''public'', ''orders'') = Some fs" "map fd_name fs = [''i'', ''s'']" by (auto split: sum.splits prod.splits)
  then have shown: "fd_name ` set fs = {''i'', ''s''}" by (metis list.set_map empty_set list.simps(15))
  from viewer_catalogs(3) obtain c t where c: "viewer_stored ''column_deny'' ''ms'' = Inr c"
    "catalog_table_of c (''public'', ''orders'') = Some t" by (auto split: sum.splits)
  have "''s'' \<in> fd_name ` set fs" "''m'' \<notin> fd_name ` set fs" unfolding shown by simp_all
  then show ?thesis
    using shown_columns_follow_first_entries [OF s(1) c(1) sx(1) _ viewer_wf c(2) sx(2), of "''s''"] s(1) sx(1,2) denied by auto
qed

end
