(* ===== verification/Spec2Isabelle.thy ===== *)
theory Spec2Isabelle
  imports PolicyMatch PolicyInvariants Connections Visibility
begin

text \<open>
  BetweenRows is a PostgreSQL proxy that rewrites every query so that a user sees only the rows and columns the
  administrator's policies permit. This development models the parts of the proxy (\<open>src/proxy/src\<close>) that decide
  what a user sees, and proves that they do.

  \<^bold>\<open>The parts and how they interact.\<close> An administrator manages users, roles, data sources and policies through
  an HTTP interface (\<open>admin/\<close>) that writes the admin database (\<open>entity/\<close>, \<open>migration/\<close>) inside audited
  transactions and invalidates the caches of the proxy. A client connects (\<open>handler.rs\<close>, \<open>auth.rs\<close>), gets a
  context with the catalog it may see (\<open>engine/mod.rs\<close>), and sends statements; each goes through the hooks
  (\<open>hooks/read_only.rs\<close>, \<open>hooks/policy.rs\<close>), which load the user's policies (\<open>role_resolver.rs\<close>), plan the
  query, rewrite the plan, run it and write an audit row.

  \<^bold>\<open>Theories.\<close>
  \<^item> \<open>Prelude\<close>: results with errors as values, the string operations of the sources, numerals, JSON values, maps.
  \<^item> \<open>PolicyMatch\<close> (\<open>policy_match.rs\<close>): policy types, the pattern language, target entries.
  \<^item> \<open>Entities\<close>, \<open>CatalogEntities\<close> (\<open>entity/*.rs\<close>): the rows of the admin database. A handler or resolver reads it
    through a connection (\<open>conn\<close>, \<open>catalog_conn\<close>) whose queries may fail.
  \<^item> \<open>GraphWalk\<close>, \<open>RoleResolver\<close> (\<open>role_resolver.rs\<close>): the breadth-first walks over role inheritance. A reference
    walk is proved correct once; the loops of the source are proved equal to instances of it.
  \<^item> \<open>AdminTxn\<close>, \<open>RoleAdmin\<close>, \<open>RoleInvariants\<close> (\<open>admin/admin_audit.rs\<close>, \<open>admin/role_handlers.rs\<close>): handlers as
    state-passing programs with injected database failures, a weakest-precondition calculus for them, the
    abstract change each request makes, and invariants over every history of requests.
  \<^item> \<open>PolicyAdmin\<close>, \<open>PolicyInvariants\<close> (\<open>admin/policy_handlers.rs\<close>, \<open>admin/dto.rs\<close>): the same for policies, their
    versions and their assignments.
  \<^item> \<open>DfPlan\<close>: expressions and plans of DataFusion with its operations as the record \<open>df_ops\<close>, what the sources
    rely on as \<open>df_laws\<close>, and the meaning of plans (\<open>sem\<close>, \<open>eval_over\<close>).
  \<^item> \<open>TemplateVars\<close>, \<open>SqlExpr\<close> (\<open>hooks/policy.rs\<close>): template variables and the conversion of policy expressions.
  \<^item> \<open>Resolution\<close> (\<open>resolution/graph.rs\<close>): row filters over columns of related tables, with an independent
    account of the rows a plan keeps (\<open>column_chains\<close>, \<open>join_steps\<close>, \<open>linked\<close>).
  \<^item> \<open>PolicyEffects\<close>, \<open>Enforcement\<close> (\<open>hooks/policy.rs\<close>): collecting the effects of the policies and rewriting the
    plan; what the rewritten plan computes.
  \<^item> \<open>PolicySession\<close> (\<open>hooks/policy.rs\<close>): loading and caching what applies to a user on a data source.
  \<^item> \<open>DecisionContext\<close> (\<open>decision/context.rs\<close>): the input of decision functions.
  \<^item> \<open>QueryHooks\<close> (\<open>hooks/*.rs\<close>, \<open>engine/rewrite.rs\<close>): the hooks and their audit rows.
  \<^item> \<open>Connections\<close> (\<open>handler.rs\<close>, \<open>auth.rs\<close>, the accept loop of \<open>main.rs\<close>): startup, the table of contexts, the
    query handlers and the spawned rebuild tasks, as a step relation over interleaved connections.
  \<^item> \<open>ArrowTypes\<close>, \<open>DataSourceConfig\<close>, \<open>Visibility\<close> (\<open>engine/mod.rs\<close>, \<open>crypto.rs\<close>, \<open>admin/datasource_types.rs\<close>):
    column types, connection configurations and their encryption, the catalog a connection sees.

  \<^bold>\<open>What is shown.\<close> Each property is marked with its number. In groups: the answer to a query is what the query
  computes over the user's view of each table, and that view holds only permitted rows and columns, for queries
  without subqueries in expressions and filters local to their table (\<open>Enforcement\<close>, \<open>QueryHooks\<close>); a filter over
  related tables keeps exactly the rows its anchor chains lead to (\<open>Resolution\<close>); the policies of a session are exactly those assigned, and changes reach it
  (\<open>PolicySession\<close>, \<open>RoleResolver\<close>); a client works with its own context and only after authentication
  (\<open>Connections\<close>); the catalog agrees with what can be queried where no decision functions are involved
  (\<open>Visibility\<close>); role and policy administration refine their abstract specifications, keep their invariants
  and invalidate what they change (\<open>RoleInvariants\<close>, \<open>PolicyInvariants\<close>); template values cannot alter the
  structure of an expression (\<open>SqlExpr\<close>). Some properties state where these guarantees end: expression subqueries,
  denied columns under an alias, chains that share an edge, later target entries, the two depth limits of role
  inheritance, assignments removed under another data source. Where that differs from the documentation or the
  evident intent, the manifest lists it as a finding.

  \<^bold>\<open>Conventions.\<close> Names follow the source; a record's fields carry a prefix. Strings are byte lists, identifiers
  128-bit words. A fallible function returns a sum with the error on the left. A hash map that is only looked
  up is a map; one that is iterated is an association list, and where its iteration order matters the order is
  a parameter. Loops are recursion with a termination measure; the hop loop of column resolution counts down
  from the depth limit of the source, and the reconstruction of a cycle path, which has no other exit than
  reaching its end, is a partial function with a proof that it returns.

  \<^bold>\<open>Parameters.\<close> DataFusion, the SQL parser, the WASM runtime, Argon2, AES-GCM, base64, JSON text, random
  identifiers and the clock are arguments of the definitions that use them. Where a theorem needs something of
  them it is a named hypothesis stating their documented behaviour (\<open>df_laws\<close>, \<open>sem_laws\<close>, \<open>crypto_laws\<close>), with a
  concrete instance in the witness.

  \<^bold>\<open>Approximations.\<close> The plan builders of DataFusion are syntactic constructors that may fail; its optimizer and
  schema checks are not part of \<open>df_laws\<close>. A session is loaded and cached at one instant (\<open>ask\<close>), so a load that races
  with an invalidation is not covered. A spawned rebuild task runs at any later time, but in one step; a
  connection is accepted from a peer address only when no client with that address is left; the invalidation
  of a user's sessions and the rebuild of the user's contexts are one event (\<open>invalidate_user\<close>). The audit insert of a
  query, which the source spawns and only logs on failure, always succeeds (\<open>spawn_audit\<close>). Version numbers wrap as
  in a release build (\<open>next_version\<close>). Lower-casing and trimming treat ASCII only.

  \<^bold>\<open>Not modelled.\<close> The wire protocol and sockets, logging, timers and the command line (input and output); the
  WASM runtime, the optimizer rules, SQL dialect and catalog providers (adapters of third-party interfaces);
  the migrations beyond the constraints the handlers rely on; the remaining admin handlers and their request
  types, which store what the modelled parts read; the web interface and the documentation site.
\<close>

end
